(* ===== verification/Flash_Prelude.thy ===== *)
theory Flash_Prelude
  imports Main "HOL-Library.Word"
begin

text \<open>
  The prelude of the Flash development: C++ exceptions as values, the parts of
  \<open>std::string_view\<close> the sources use (\<open>find\<close>, \<open>substr\<close>, \<open>starts_with\<close>), splitting at a
  separator, and the interface \<open>separator_scan\<close> that every loop of the form
  "find the next separator, handle the piece before it" obeys.
\<close>

section \<open>Collections of facts\<close>

named_theorems str_simps \<open>unfolding rules for the string_view operations\<close>

section \<open>Exceptions and results\<close>

text \<open>A C++ exception is a value; a call that may throw returns a sum with the exception on the left.\<close>

datatype exn =
    Invalid_argument string
  | Domain_error string
  | Runtime_error string
  | Logic_error string
  | Handler_exn string

type_synonym 'a throwing = "exn + 'a"

fun bind_sum :: "'e + 'a \<Rightarrow> ('a \<Rightarrow> 'e + 'b) \<Rightarrow> 'e + 'b" where
  "bind_sum (Inl e) f = Inl e"
| "bind_sum (Inr x) f = f x"

lemma bind_sum_Inr_iff:
  "bind_sum m f = Inr y \<longleftrightarrow> (\<exists>x. m = Inr x \<and> f x = Inr y)"
  by (cases m) auto

lemma bind_sum_Inl_iff:
  "bind_sum m f = Inl e \<longleftrightarrow> m = Inl e \<or> (\<exists>x. m = Inr x \<and> f x = Inl e)"
  by (cases m) auto

section \<open>Lists of options\<close>

lemma those_map_Some [simp]: "those (map Some ys) = Some ys"
  by (induction ys) simp_all

lemma those_SomeD: "those xs = Some ys \<Longrightarrow> xs = map Some ys"
  by (induction xs arbitrary: ys) (auto split: option.splits)

section \<open>string_view\<close>

text \<open>
  \<open>find(c, off)\<close> is the least index not below \<open>off\<close> that holds \<open>c\<close>; \<open>npos\<close> is \<open>None\<close>.
  \<open>substr(off, n)\<close> is called with \<open>off\<close> within the string only, where it does not throw.
\<close>

fun find_char :: "char \<Rightarrow> string \<Rightarrow> nat option" where
  "find_char c [] = None"
| "find_char c (x # xs) = (if x = c then Some 0 else map_option Suc (find_char c xs))"

definition str_find :: "string \<Rightarrow> char \<Rightarrow> nat \<Rightarrow> nat option" where
  "str_find s c off = map_option (\<lambda>k. off + k) (find_char c (drop off s))"

definition substr :: "string \<Rightarrow> nat \<Rightarrow> nat \<Rightarrow> string" where
  "substr s off n = take n (drop off s)"

definition starts_with :: "string \<Rightarrow> string \<Rightarrow> bool" where
  "starts_with s p \<longleftrightarrow> take (length p) s = p"

text \<open>\<open>substr(0, p)\<close> and \<open>substr(p + 1)\<close> around an index that may be \<open>npos\<close>.\<close>

definition before_index :: "string \<Rightarrow> nat option \<Rightarrow> string" where
  "before_index s p = (case p of None \<Rightarrow> s | Some k \<Rightarrow> take k s)"

definition after_index :: "string \<Rightarrow> nat option \<Rightarrow> string" where
  "after_index s p = (case p of None \<Rightarrow> [] | Some k \<Rightarrow> drop (Suc k) s)"

lemma find_char_None_iff: "find_char c s = None \<longleftrightarrow> c \<notin> set s"
  by (induction s) auto

lemma find_char_Some_iff:
  "find_char c s = Some k \<longleftrightarrow> k < length s \<and> s ! k = c \<and> c \<notin> set (take k s)"
proof (induction s arbitrary: k)
  case (Cons x xs)
  then show ?case by (cases k) auto
qed simp

lemma find_char_bound: "find_char c s = Some k \<Longrightarrow> k < length s"
  by (simp add: find_char_Some_iff)

lemma find_char_decomp:
  assumes "find_char c s = Some k"
  shows "s = take k s @ c # drop (Suc k) s"
  using assms id_take_nth_drop [of k s] by (simp add: find_char_Some_iff)

lemma find_char_append:
  "c \<notin> set p \<Longrightarrow> find_char c (p @ c # r) = Some (length p)"
  by (induction p) auto

lemma str_find_bound: "str_find s c off = Some k \<Longrightarrow> off \<le> k \<and> k < length s"
  by (auto simp: str_find_def dest!: find_char_bound)

lemma str_find_0 [str_simps]: "str_find s c 0 = find_char c s"
  by (simp add: str_find_def option.map_ident)

lemma str_find_None_iff: "str_find s c off = None \<longleftrightarrow> c \<notin> set (drop off s)"
  by (simp add: str_find_def find_char_None_iff)

lemma length_substr [simp]: "length (substr s off n) = min n (length s - off)"
  by (simp add: substr_def min.commute)

lemma starts_with_prefix: "starts_with s p \<longleftrightarrow> (\<exists>r. s = p @ r)"
  unfolding starts_with_def by (metis append_eq_conv_conj append_take_drop_id)

lemma starts_with_append [simp]: "starts_with (p @ r) p"
  by (simp add: starts_with_def)

section \<open>Splitting at a separator\<close>

fun split_on :: "char \<Rightarrow> string \<Rightarrow> string list" where
  "split_on c [] = [[]]"
| "split_on c (x # xs) =
     (if x = c then [] # split_on c xs
      else (case split_on c xs of [] \<Rightarrow> [[x]] | p # ps \<Rightarrow> (x # p) # ps))"

fun join_with :: "char \<Rightarrow> string list \<Rightarrow> string" where
  "join_with c [] = []"
| "join_with c [p] = p"
| "join_with c (p # q # ps) = p @ c # join_with c (q # ps)"

lemma split_on_not_Nil [simp]: "split_on c s \<noteq> []"
  by (induction s) (auto split: list.splits)

lemma join_split_on [simp]: "join_with c (split_on c s) = s"
proof (induction s)
  case (Cons x xs)
  obtain p ps where sp: "split_on c xs = p # ps" by (cases "split_on c xs") auto
  with Cons show ?case by (cases ps) auto
qed simp

lemma split_on_pieces: "p \<in> set (split_on c s) \<Longrightarrow> c \<notin> set p"
proof (induction s arbitrary: p)
  case (Cons x xs)
  then show ?case by (cases "split_on c xs") (auto split: if_splits)
qed simp

lemma split_on_clean: "c \<notin> set s \<Longrightarrow> split_on c s = [s]"
  by (induction s) auto

lemma split_on_append: "c \<notin> set p \<Longrightarrow> split_on c (p @ c # r) = p # split_on c r"
  by (induction p) auto

lemma split_on_join:
  "ps \<noteq> [] \<Longrightarrow> \<forall>p \<in> set ps. c \<notin> set p \<Longrightarrow> split_on c (join_with c ps) = ps"
  by (induction c ps rule: join_with.induct) (auto simp: split_on_clean split_on_append)

lemma split_on_find_char:
  "split_on c s = (case find_char c s of None \<Rightarrow> [s]
     | Some k \<Rightarrow> take k s # split_on c (drop (Suc k) s))"
proof (cases "find_char c s")
  case None
  then have "c \<notin> set s" by (simp add: find_char_None_iff)
  with None show ?thesis by (simp add: split_on_clean)
next
  case (Some k)
  then have "c \<notin> set (take k s)" by (simp add: find_char_Some_iff)
  then have "split_on c (take k s @ c # drop (Suc k) s) = take k s # split_on c (drop (Suc k) s)"
    by (rule split_on_append)
  then show ?thesis using Some find_char_decomp [OF Some] by simp
qed

lemma split_on_find:
  assumes "off \<le> length s"
  shows "split_on c (drop off s) = (case str_find s c off of
      None \<Rightarrow> [substr s off (length s - off)]
    | Some k \<Rightarrow> substr s off (k - off) # split_on c (drop (Suc k) s))"
  by (subst split_on_find_char)
     (auto simp: str_find_def substr_def add.commute split: option.splits)

lemma length_split_on: "length (split_on c s) = Suc (count_list s c)"
proof (induction s)
  case (Cons x xs)
  then show ?case by (cases "split_on c xs") auto
qed simp

lemma last_split_on: "s \<noteq> [] \<Longrightarrow> last (split_on c s) = [] \<longleftrightarrow> last s = c"
proof (induction s)
  case (Cons x xs)
  show ?case
  proof (cases "xs = []")
    case True
    then show ?thesis by simp
  next
    case False
    obtain p ps where sp: "split_on c xs = p # ps" by (cases "split_on c xs") auto
    show ?thesis
    proof (cases "ps = []")
      case True
      with Cons False sp show ?thesis
        by (metis (no_types, lifting) join_split_on join_with.simps(2) last.simps
            list.simps(5) split_on.simps(2) list.distinct(1))
    next
      case Fp: False
      with Cons False sp show ?thesis by auto
    qed
  qed
qed simp

section \<open>Separator scans\<close>

text \<open>
  \<open>scan_pieces\<close> is the specification of such a loop: visit the pieces from left to right, told
  whether another piece follows, and stop early when a visit returns a result.
\<close>

fun scan_pieces :: "(string \<Rightarrow> bool \<Rightarrow> 's \<Rightarrow> 'r + 's) \<Rightarrow> ('s \<Rightarrow> 'r) \<Rightarrow> string list \<Rightarrow> 's \<Rightarrow> 'r" where
  "scan_pieces visit finish [] st = finish st"
| "scan_pieces visit finish (p # ps) st =
     (case visit p (ps \<noteq> []) st of Inl r \<Rightarrow> r | Inr st' \<Rightarrow> scan_pieces visit finish ps st')"

locale separator_scan =
  fixes sep :: char
    and visit :: "string \<Rightarrow> bool \<Rightarrow> 's \<Rightarrow> 'r + 's"
    and finish :: "'s \<Rightarrow> 'r"
    and scan :: "string \<Rightarrow> nat \<Rightarrow> 's \<Rightarrow> 'r"
  assumes scan_last: "off \<le> length s \<Longrightarrow> str_find s sep off = None \<Longrightarrow>
      scan s off st = (case visit (substr s off (length s - off)) False st of
        Inl r \<Rightarrow> r | Inr st' \<Rightarrow> finish st')"
    and scan_next: "off \<le> length s \<Longrightarrow> str_find s sep off = Some k \<Longrightarrow>
      scan s off st = (case visit (substr s off (k - off)) True st of
        Inl r \<Rightarrow> r | Inr st' \<Rightarrow> scan s (Suc k) st')"
begin

lemma scan_eq_pieces:
  "off \<le> length s \<Longrightarrow> scan s off st = scan_pieces visit finish (split_on sep (drop off s)) st"
proof (induction "length s - off" arbitrary: off st rule: less_induct)
  case less
  show ?case
  proof (cases "str_find s sep off")
    case None
    with less.prems show ?thesis
      by (simp add: scan_last split_on_find split: sum.splits)
  next
    case (Some k)
    then have k: "off \<le> k" "k < length s" by (auto dest: str_find_bound)
    have "scan s (Suc k) st' = scan_pieces visit finish (split_on sep (drop (Suc k) s)) st'" for st'
      using k less.hyps [of "Suc k"] by simp
    with Some less.prems show ?thesis
      by (simp add: scan_next split_on_find split: sum.splits)
  qed
qed

lemma scan_all: "scan s 0 st = scan_pieces visit finish (split_on sep s) st"
  using scan_eq_pieces [of 0 s st] by simp

end

section \<open>Lookups that refuse a second hit\<close>

text \<open>
  Queries, headers and cookies are searched by one pattern: probe every entry, remember the first
  hit, fail at a second one. \<open>probe_hits\<close> lists the hits; the interface \<open>unique_lookup\<close> says the
  loop returns the only hit, if the probes succeed.
\<close>

definition probe_hits :: "('a \<Rightarrow> 'e + 'v option) \<Rightarrow> 'a list \<Rightarrow> 'v list" where
  "probe_hits probe xs =
     concat (map (\<lambda>x. case probe x of Inl _ \<Rightarrow> [] | Inr None \<Rightarrow> [] | Inr (Some v) \<Rightarrow> [v]) xs)"

definition probes_ok :: "('a \<Rightarrow> 'e + 'v option) \<Rightarrow> 'a list \<Rightarrow> bool" where
  "probes_ok probe xs \<longleftrightarrow> list_all (\<lambda>x. case probe x of Inl _ \<Rightarrow> False | Inr _ \<Rightarrow> True) xs"

lemma probe_hits_simps [simp]:
  "probe_hits probe [] = []"
  "probe_hits probe (x # xs) =
     (case probe x of Inl _ \<Rightarrow> [] | Inr None \<Rightarrow> [] | Inr (Some v) \<Rightarrow> [v]) @ probe_hits probe xs"
  by (simp_all add: probe_hits_def)

lemma probes_ok_simps [simp]:
  "probes_ok probe []"
  "probes_ok probe (x # xs) \<longleftrightarrow> (\<exists>r. probe x = Inr r) \<and> probes_ok probe xs"
  by (auto simp: probes_ok_def split: sum.splits)

locale unique_lookup =
  fixes probe :: "'a \<Rightarrow> 'e + 'v option"
    and dup :: 'e
    and look :: "'a list \<Rightarrow> 'v option \<Rightarrow> 'e + 'v option"
  assumes look_Nil: "look [] r = Inr r"
    and look_Cons: "look (x # xs) r = (case probe x of
       Inl e \<Rightarrow> Inl e
     | Inr None \<Rightarrow> look xs r
     | Inr (Some v) \<Rightarrow> (if r \<noteq> None then Inl dup else look xs (Some v)))"
begin

lemma look_Inr_iff:
  "look xs r0 = Inr r \<longleftrightarrow> probes_ok probe xs \<and>
     ((probe_hits probe xs = [] \<and> r = r0) \<or> (r0 = None \<and> (\<exists>v. probe_hits probe xs = [v] \<and> r = Some v)))"
proof (induction xs arbitrary: r0)
  case (Cons x xs)
  show ?case
  proof (cases "probe x")
    case (Inr h)
    with Cons.IH show ?thesis by (cases h) (auto simp: look_Cons)
  qed (simp add: look_Cons)
qed (auto simp: look_Nil)

lemma look_found: "look xs None = Inr (Some v) \<longleftrightarrow> probes_ok probe xs \<and> probe_hits probe xs = [v]"
  by (auto simp: look_Inr_iff)

lemma look_absent: "look xs None = Inr None \<longleftrightarrow> probes_ok probe xs \<and> probe_hits probe xs = []"
  by (auto simp: look_Inr_iff)

lemma look_error_cases:
  "look xs r0 = Inl e \<Longrightarrow> e = dup \<or> (\<exists>x \<in> set xs. probe x = Inl e)"
  by (induction xs arbitrary: r0) (auto simp: look_Nil look_Cons split: sum.splits option.splits if_splits)

lemma look_duplicate:
  "probes_ok probe xs \<Longrightarrow> 2 \<le> length (probe_hits probe xs) \<Longrightarrow> look xs None = Inl dup"
proof -
  assume ok: "probes_ok probe xs" and two: "2 \<le> length (probe_hits probe xs)"
  have "\<not> (\<exists>r. look xs None = Inr r)" using two by (auto simp: look_Inr_iff)
  then obtain e where e: "look xs None = Inl e" by (cases "look xs None") auto
  have "probe x \<noteq> Inl e" if "x \<in> set xs" for x
    using ok that by (induction xs) auto
  then show ?thesis using look_error_cases [OF e] e by blast
qed

end

end
