(* ===== verification/Flash_Float.thy ===== *)
theory Flash_Float
  imports Flash_Prelude
begin

text \<open>
  IEEE 754 binary floating point, as far as the sources rely on it: the values of \<open>float\<close> and
  \<open>double\<close>, rounding a rational to the nearest value (ties to even), the conversion of an integer
  by \<open>static_cast<double>\<close>, and the comparisons. A finite value is kept in the one form in which
  the exponent is least: sign, integer mantissa and the exponent of its last bit.
\<close>

datatype float_format = Binary32 | Binary64

fun precision :: "float_format \<Rightarrow> nat" where
  "precision Binary32 = 24"
| "precision Binary64 = 53"

fun min_exponent :: "float_format \<Rightarrow> int" where
  "min_exponent Binary32 = -149"
| "min_exponent Binary64 = -1074"

fun max_exponent :: "float_format \<Rightarrow> int" where
  "max_exponent Binary32 = 104"
| "max_exponent Binary64 = 971"

datatype fp = Finite bool nat int | Infinite bool | NaN

definition is_finite :: "fp \<Rightarrow> bool" where
  "is_finite x = (case x of Finite _ _ _ \<Rightarrow> True | _ \<Rightarrow> False)"

section \<open>Rounding\<close>

fun bit_length :: "nat \<Rightarrow> nat" where
  "bit_length n = (if n = 0 then 0 else Suc (bit_length (n div 2)))"

declare bit_length.simps [simp del]

text \<open>\<open>num / den \<ge> 2 ^ d\<close>, without division.\<close>

definition ratio_ge_pow2 :: "nat \<Rightarrow> nat \<Rightarrow> int \<Rightarrow> bool" where
  "ratio_ge_pow2 num den d =
     (if 0 \<le> d then den * 2 ^ nat d \<le> num else den \<le> num * 2 ^ nat (- d))"

definition floor_log2 :: "nat \<Rightarrow> nat \<Rightarrow> int" where
  "floor_log2 num den =
     (let d = int (bit_length num) - int (bit_length den)
      in if ratio_ge_pow2 num den d then d else d - 1)"

definition round_half_even :: "nat \<Rightarrow> nat \<Rightarrow> nat" where
  "round_half_even n d =
     (let q = n div d; r = n mod d
      in if 2 * r < d \<or> (2 * r = d \<and> even q) then q else Suc q)"

definition round_ratio :: "float_format \<Rightarrow> bool \<Rightarrow> nat \<Rightarrow> nat \<Rightarrow> fp" where
  "round_ratio f s num den =
     (if num = 0 then Finite s 0 (min_exponent f)
      else let e = max (min_exponent f) (floor_log2 num den - int (precision f) + 1);
               m = (if 0 \<le> e then round_half_even num (den * 2 ^ nat e)
                    else round_half_even (num * 2 ^ nat (- e)) den);
               (m', e') = (if m = 2 ^ precision f then (2 ^ (precision f - 1), e + 1) else (m, e))
           in if max_exponent f < e' then Infinite s else Finite s m' e')"

text \<open>\<open>static_cast<double>\<close> of an integer.\<close>

definition double_of_int :: "int \<Rightarrow> fp" where
  "double_of_int v = round_ratio Binary64 (v < 0) (nat \<bar>v\<bar>) 1"

text \<open>\<open>static_cast<double>\<close> of a floating-point value: exact, for both formats.\<close>

fun double_of_fp :: "fp \<Rightarrow> fp" where
  "double_of_fp (Finite s m e) =
     (if 0 \<le> e then round_ratio Binary64 s (m * 2 ^ nat e) 1
      else round_ratio Binary64 s m (2 ^ nat (- e)))"
| "double_of_fp (Infinite s) = Infinite s"
| "double_of_fp NaN = NaN"

section \<open>Comparison\<close>

text \<open>The value of a finite float as a multiple of \<open>2 ^ e0\<close>, for \<open>e0\<close> not above its exponent.\<close>

definition scaled :: "int \<Rightarrow> bool \<Rightarrow> nat \<Rightarrow> int \<Rightarrow> int" where
  "scaled e0 s m e = (if s then -1 else 1) * int m * 2 ^ nat (e - e0)"

fun fp_less :: "fp \<Rightarrow> fp \<Rightarrow> bool" where
  "fp_less (Finite s1 m1 e1) (Finite s2 m2 e2) =
     (scaled (min e1 e2) s1 m1 e1 < scaled (min e1 e2) s2 m2 e2)"
| "fp_less (Finite _ _ _) (Infinite s) = (\<not> s)"
| "fp_less (Infinite s) (Finite _ _ _) = s"
| "fp_less (Infinite s1) (Infinite s2) = (s1 \<and> \<not> s2)"
| "fp_less NaN _ = False"
| "fp_less _ NaN = False"

fun fp_le :: "fp \<Rightarrow> fp \<Rightarrow> bool" where
  "fp_le (Finite s1 m1 e1) (Finite s2 m2 e2) =
     (scaled (min e1 e2) s1 m1 e1 \<le> scaled (min e1 e2) s2 m2 e2)"
| "fp_le (Finite _ _ _) (Infinite s) = (\<not> s)"
| "fp_le (Infinite s) (Finite _ _ _) = s"
| "fp_le (Infinite s1) (Infinite s2) = (s1 \<or> \<not> s2)"
| "fp_le NaN _ = False"
| "fp_le _ NaN = False"

section \<open>Integers up to 2 to the 53 are exact\<close>

lemma bit_length_0 [simp]: "bit_length 0 = 0"
  by (simp add: bit_length.simps)

lemma bit_length_1 [simp]: "bit_length (Suc 0) = 1"
  by (simp add: bit_length.simps)

lemma bit_length_less: "n < 2 ^ bit_length n"
proof (induction n rule: bit_length.induct)
  case (1 n)
  then show ?case by (cases "n = 0") (auto simp: bit_length.simps [of n])
qed

lemma bit_length_ge: "0 < n \<Longrightarrow> 2 ^ (bit_length n - 1) \<le> n"
proof (induction n rule: bit_length.induct)
  case (1 n)
  show ?case
  proof (cases "n div 2 = 0")
    case True
    with 1 show ?thesis by (simp add: bit_length.simps [of n])
  next
    case False
    then have "2 ^ (bit_length (n div 2) - 1) \<le> n div 2" using 1 by simp
    moreover have "0 < bit_length (n div 2)" using False by (simp add: bit_length.simps [of "n div 2"])
    ultimately have "2 ^ bit_length (n div 2) \<le> n div 2 * 2"
      by (metis Suc_diff_1 mult.commute mult_le_mono2 power_Suc)
    also have "\<dots> \<le> n" by (rule div_times_less_eq_dividend)
    finally show ?thesis using 1 by (simp add: bit_length.simps [of n])
  qed
qed

lemma floor_log2_int: "0 < n \<Longrightarrow> floor_log2 n 1 = int (bit_length n) - 1"
  using bit_length_less [of n] bit_length_ge [of n]
  by (auto simp: floor_log2_def ratio_ge_pow2_def Let_def nat_diff_distrib)

lemma round_half_even_exact: "0 < d \<Longrightarrow> round_half_even (q * d) d = q"
  by (simp add: round_half_even_def Let_def)

lemma bit_length_mono_pow: "n < 2 ^ k \<Longrightarrow> bit_length n \<le> k"
proof (rule ccontr)
  assume n: "n < 2 ^ k" and "\<not> bit_length n \<le> k"
  then have "k \<le> bit_length n - 1" "0 < n" by (auto intro: ccontr)
  then have "2 ^ k \<le> n" using bit_length_ge [of n] power_increasing [of k "bit_length n - 1" 2]
    by (meson le_trans one_le_numeral)
  with n show False by simp
qed

lemma bit_length_eq: "2 ^ k \<le> n \<Longrightarrow> n < 2 ^ Suc k \<Longrightarrow> bit_length n = Suc k"
proof -
  assume n: "2 ^ k \<le> n" "n < 2 ^ Suc k"
  have "k < bit_length n" using n(1) bit_length_less [of n] by (meson le_less_trans less_le_trans not_less power_increasing one_le_numeral)
  with bit_length_mono_pow [OF n(2)] show ?thesis by simp
qed

text \<open>The integer value of a finite double with a non-positive exponent, where it is one.\<close>

lemma double_of_int_exact:
  assumes "\<bar>v\<bar> < 2 ^ 53"
  obtains m e where "double_of_int v = Finite (v < 0) m e" "e \<le> 0"
    "int m = \<bar>v\<bar> * 2 ^ nat (- e)"
proof (cases "v = 0")
  case True
  then show ?thesis using that [of 0 "-1074"] by (simp add: double_of_int_def round_ratio_def)
next
  case False
  define n where "n = nat \<bar>v\<bar>"
  define e where "e = int (bit_length n) - 53"
  have n: "0 < n" "n < 2 ^ 53" using assms False by (auto simp: n_def nat_less_iff)
  have bl: "0 < bit_length n" "bit_length n \<le> 53"
    using n bit_length_mono_pow [of n 53] by (auto simp: bit_length.simps [of n])
  have e: "e \<le> 0" "-1074 < e" using bl by (auto simp: e_def)
  define m where "m = n * 2 ^ nat (- e)"
  have re: "round_half_even (n * 2 ^ nat (- e)) 1 = m"
    using round_half_even_exact [of 1 m] by (simp add: m_def)
  have "m < 2 ^ bit_length n * 2 ^ nat (- e)"
    unfolding m_def using bit_length_less [of n] by simp
  also have "\<dots> = 2 ^ (bit_length n + nat (- e))" by (simp add: power_add)
  also have "bit_length n + nat (- e) = 53" using bl by (simp add: e_def nat_diff_distrib)
  finally have "m < 2 ^ 53" .
  moreover have E: "max (min_exponent Binary64)
      (floor_log2 n 1 - int (precision Binary64) + 1) = e"
    using floor_log2_int [OF n(1)] e by (simp add: e_def del: One_nat_def)
  moreover have M: "(if 0 \<le> e then round_half_even n (1 * 2 ^ nat e)
      else round_half_even (n * 2 ^ nat (- e)) 1) = m"
    using re e(1) by (cases "e = 0") auto
  ultimately have "double_of_int v = Finite (v < 0) m e"
    unfolding double_of_int_def n_def [symmetric] round_ratio_def Let_def
    using n(1) e(1) by (simp only: E M) simp
  moreover have "int m = \<bar>v\<bar> * 2 ^ nat (- e)" by (simp add: m_def n_def)
  ultimately show ?thesis using that e by blast
qed

lemma scaled_double_of_int:
  assumes "e \<le> 0" "e0 \<le> e" "int m = \<bar>v\<bar> * 2 ^ nat (- e)"
  shows "scaled e0 (v < 0) m e = v * 2 ^ nat (- e0)"
proof -
  have "nat (- e) + nat (e - e0) = nat (- e0)" using assms(1,2) by simp
  then have "(2::int) ^ nat (- e) * 2 ^ nat (e - e0) = 2 ^ nat (- e0)"
    by (metis power_add)
  then show ?thesis using assms(3) by (auto simp: scaled_def abs_if mult.assoc)
qed

lemma double_compare_exact:
  assumes "\<bar>v\<bar> < 2 ^ 53" "\<bar>w\<bar> < 2 ^ 53"
  shows "fp_le (double_of_int v) (double_of_int w) \<longleftrightarrow> v \<le> w"
    and "fp_less (double_of_int v) (double_of_int w) \<longleftrightarrow> v < w"
proof -
  obtain m1 e1 where 1: "double_of_int v = Finite (v < 0) m1 e1" "e1 \<le> 0"
    "int m1 = \<bar>v\<bar> * 2 ^ nat (- e1)" using double_of_int_exact [OF assms(1)] .
  obtain m2 e2 where 2: "double_of_int w = Finite (w < 0) m2 e2" "e2 \<le> 0"
    "int m2 = \<bar>w\<bar> * 2 ^ nat (- e2)" using double_of_int_exact [OF assms(2)] .
  have s: "scaled (min e1 e2) (v < 0) m1 e1 = v * 2 ^ nat (- min e1 e2)"
    "scaled (min e1 e2) (w < 0) m2 e2 = w * 2 ^ nat (- min e1 e2)"
    by (rule scaled_double_of_int; use 1 2 in simp)+
  show "fp_le (double_of_int v) (double_of_int w) \<longleftrightarrow> v \<le> w"
    "fp_less (double_of_int v) (double_of_int w) \<longleftrightarrow> v < w"
    by (simp_all only: 1(1) 2(1) fp_le.simps fp_less.simps s) simp_all
qed

section \<open>Integers of 54 bits round to even multiples\<close>

text \<open>Between \<open>2^53\<close> and \<open>2^54\<close> the doubles are the even integers; an odd integer lies halfway and goes
  to the multiple of four next to it.\<close>

definition rounded54 :: "int \<Rightarrow> int" where
  "rounded54 v = (if v mod 4 = 1 then v - 1 else if v mod 4 = 3 then v + 1 else v)"

lemma round_half_even_2: "int (2 * round_half_even n 2) = rounded54 (int n)"
proof -
  define k where "k = n div 4"
  consider "n = 4 * k" | "n = 4 * k + 1" | "n = 4 * k + 2" | "n = 4 * k + 3" unfolding k_def by linarith
  moreover have "(4 * k + 1) div 2 = 2 * k" "(4 * k + 1) mod 2 = 1"
    "(4 * k + 3) div 2 = 2 * k + 1" "(4 * k + 3) mod 2 = 1" by presburger+
  ultimately show ?thesis by cases (simp_all add: round_half_even_def rounded54_def Let_def zmod_int [symmetric] del: One_nat_def)
qed

lemma double_of_int_rounds:
  assumes "2 ^ 53 \<le> v" "v < 2 ^ 54"
  obtains m e where "double_of_int v = Finite False m e" "1 \<le> e" "int m * 2 ^ nat e = rounded54 v"
proof -
  define n where "n = nat v"
  have n: "int n = v" "2 ^ 53 \<le> n" "n < 2 ^ Suc 53" "0 < n" using assms by (auto simp: n_def)
  define m where "m = round_half_even n 2"
  have m: "int (2 * m) = rounded54 v" unfolding m_def round_half_even_2 n(1) ..
  have fl: "floor_log2 n (Suc 0) = 53"
    using floor_log2_int [OF n(4)] bit_length_eq [OF n(2,3)] by simp
  have "double_of_int v = round_ratio Binary64 False n (Suc 0)"
    unfolding n(1) [symmetric] double_of_int_def by simp
  also have "\<dots> = (if m = 2 ^ 53 then Finite False (2 ^ 52) 2 else Finite False m 1)"
    unfolding round_ratio_def Let_def fl using n(4) by (simp add: m_def)
  finally have "double_of_int v = (if m = 2 ^ 53 then Finite False (2 ^ 52) 2 else Finite False m 1)" .
  then show ?thesis
    using m that [of "2 ^ 52" 2] that [of m 1] by (cases "m = 2 ^ 53") auto
qed

lemma scaled_compare:
  assumes "e0 \<le> e1" "e0 \<le> e2" "0 \<le> e0"
  shows "scaled e0 False m1 e1 \<le> scaled e0 False m2 e2 \<longleftrightarrow> int m1 * 2 ^ nat e1 \<le> int m2 * 2 ^ nat e2"
    and "scaled e0 False m1 e1 < scaled e0 False m2 e2 \<longleftrightarrow> int m1 * 2 ^ nat e1 < int m2 * 2 ^ nat e2"
proof -
  have *: "int m * 2 ^ nat e = scaled e0 False m e * 2 ^ nat e0" if "e0 \<le> e" for m e
  proof -
    have "nat e = nat (e - e0) + nat e0" using that assms(3) by simp
    then show ?thesis by (simp add: scaled_def power_add)
  qed
  show "scaled e0 False m1 e1 \<le> scaled e0 False m2 e2 \<longleftrightarrow> int m1 * 2 ^ nat e1 \<le> int m2 * 2 ^ nat e2"
    "scaled e0 False m1 e1 < scaled e0 False m2 e2 \<longleftrightarrow> int m1 * 2 ^ nat e1 < int m2 * 2 ^ nat e2"
    by (simp_all add: * assms(1,2))
qed

lemma double_compare_rounded:
  assumes "2 ^ 53 \<le> v" "v < 2 ^ 54" "2 ^ 53 \<le> w" "w < 2 ^ 54"
  shows "fp_le (double_of_int v) (double_of_int w) \<longleftrightarrow> rounded54 v \<le> rounded54 w"
    and "fp_less (double_of_int v) (double_of_int w) \<longleftrightarrow> rounded54 v < rounded54 w"
proof -
  obtain m1 e1 where 1: "double_of_int v = Finite False m1 e1" "1 \<le> e1" "int m1 * 2 ^ nat e1 = rounded54 v"
    using double_of_int_rounds [OF assms(1,2)] .
  obtain m2 e2 where 2: "double_of_int w = Finite False m2 e2" "1 \<le> e2" "int m2 * 2 ^ nat e2 = rounded54 w"
    using double_of_int_rounds [OF assms(3,4)] .
  show "fp_le (double_of_int v) (double_of_int w) \<longleftrightarrow> rounded54 v \<le> rounded54 w"
    "fp_less (double_of_int v) (double_of_int w) \<longleftrightarrow> rounded54 v < rounded54 w"
    unfolding 1(1) 2(1) fp_le.simps fp_less.simps 1(3) [symmetric] 2(3) [symmetric]
    by (rule scaled_compare; use 1(2) 2(2) in simp)+
qed

end
