(* ===== verification/Flash_Annotations.thy ===== *)
theory Flash_Annotations
  imports Flash_Float
begin

text \<open>
  \<open>include/flash/detail/fixed_string.hpp\<close> and \<open>include/flash/annotations.hpp\<close>: the bounded
  strings that annotations carry, the enumerations of methods, parameter sources and constraints,
  and the annotation values with the \<open>consteval\<close> functions that build them. A failed
  \<open>static_assert\<close> is \<open>None\<close>: the program is not compiled.
\<close>

section \<open>fixed_string\<close>

definition annotation_text_capacity :: nat where
  "annotation_text_capacity = 256"

record fixed_string =
  characters :: "char list"
  fs_length :: nat

abbreviation NUL :: char where
  "NUL \<equiv> CHR 0x00"

definition fixed_string_empty :: fixed_string where
  "fixed_string_empty = \<lparr>characters = replicate annotation_text_capacity NUL, fs_length = 0\<rparr>"

text \<open>
  The array constructor: \<open>Size\<close> counts the terminating zero of the literal, and every one of its
  \<open>Size\<close> characters is copied into the zero-initialised array.
\<close>

definition fixed_string_lit :: "string \<Rightarrow> fixed_string option" where
  "fixed_string_lit value =
     (let size = length value + 1 in
      if size \<le> annotation_text_capacity
      then Some \<lparr>characters = value @ [NUL] @ replicate (annotation_text_capacity - size) NUL,
                 fs_length = size - 1\<rparr>
      else None)"

definition view :: "fixed_string \<Rightarrow> string" where
  "view s = take (fs_length s) (characters s)"

definition fs_empty :: "fixed_string \<Rightarrow> bool" where
  "fs_empty s \<longleftrightarrow> fs_length s = 0"

definition fs_eq :: "fixed_string \<Rightarrow> fixed_string \<Rightarrow> bool" where
  "fs_eq a b \<longleftrightarrow> view a = view b"

definition wf_fixed_string :: "fixed_string \<Rightarrow> bool" where
  "wf_fixed_string s \<longleftrightarrow>
     length (characters s) = annotation_text_capacity \<and> fs_length s < annotation_text_capacity"

lemma fixed_string_lit_view:
  "fixed_string_lit v = Some s \<Longrightarrow> view s = v"
  by (auto simp: fixed_string_lit_def view_def Let_def split: if_splits)

lemma fixed_string_lit_wf:
  "fixed_string_lit v = Some s \<Longrightarrow> wf_fixed_string s"
  by (auto simp: fixed_string_lit_def wf_fixed_string_def annotation_text_capacity_def Let_def
      split: if_splits)

lemma fixed_string_lit_iff: "(\<exists>s. fixed_string_lit v = Some s) \<longleftrightarrow> length v \<le> 255"
  by (auto simp: fixed_string_lit_def annotation_text_capacity_def Let_def)

lemma wf_view_length: "wf_fixed_string s \<Longrightarrow> length (view s) = fs_length s"
  by (simp add: wf_fixed_string_def view_def)

lemma view_empty [simp]: "view fixed_string_empty = []"
  by (simp add: view_def fixed_string_empty_def)

lemma wf_empty_fixed [simp]: "wf_fixed_string fixed_string_empty"
  by (simp add: wf_fixed_string_def fixed_string_empty_def annotation_text_capacity_def)

section \<open>Enumerations\<close>

datatype http_method = Get | Post | Put | Patch | Delete | Head | Options

text \<open>\<open>static_cast<unsigned>(method)\<close>, and the order of the enumerators.\<close>

fun method_index :: "http_method \<Rightarrow> nat" where
  "method_index Get = 0"
| "method_index Post = 1"
| "method_index Put = 2"
| "method_index Patch = 3"
| "method_index Delete = 4"
| "method_index Head = 5"
| "method_index Options = 6"

lemma method_index_inj [simp]: "method_index a = method_index b \<longleftrightarrow> a = b"
  by (cases a; cases b) auto

lemma method_index_less: "method_index m < 7"
  by (cases m) auto

instantiation http_method :: linorder
begin

definition less_eq_http_method :: "http_method \<Rightarrow> http_method \<Rightarrow> bool" where
  "less_eq_http_method a b \<longleftrightarrow> method_index a \<le> method_index b"

definition less_http_method :: "http_method \<Rightarrow> http_method \<Rightarrow> bool" where
  "less_http_method a b \<longleftrightarrow> method_index a < method_index b"

instance
  by standard (auto simp: less_eq_http_method_def less_http_method_def)

end

datatype source_kind =
  Src_inferred | Src_path | Src_query | Src_header | Src_cookie | Src_body | Src_context | Src_state

datatype constraint_kind =
  Minimum | Exclusive_minimum | Maximum | Exclusive_maximum
  | Min_length | Max_length | Min_items | Max_items

section \<open>Annotation values\<close>

record route_annotation =
  ra_method :: http_method
  ra_path :: fixed_string

record source_annotation =
  sa_source :: source_kind
  sa_wire_name :: fixed_string

record constraint_annotation =
  ca_kind :: constraint_kind
  ca_numeric :: fp
  ca_size :: nat

text \<open>\<open>get\<close>, \<open>post\<close>, ..., \<open>options\<close> on a string literal.\<close>

definition route_of_literal :: "http_method \<Rightarrow> string \<Rightarrow> route_annotation option" where
  "route_of_literal m value =
     map_option (\<lambda>s. \<lparr>ra_method = m, ra_path = s\<rparr>) (fixed_string_lit value)"

text \<open>\<open>path\<close>, \<open>query\<close>, \<open>header\<close> and \<open>cookie\<close> on a string literal, and the constant \<open>body\<close>.\<close>

definition source_of_literal :: "source_kind \<Rightarrow> string \<Rightarrow> source_annotation option" where
  "source_of_literal k value =
     map_option (\<lambda>s. \<lparr>sa_source = k, sa_wire_name = s\<rparr>) (fixed_string_lit value)"

definition body_annotation :: source_annotation where
  "body_annotation = \<lparr>sa_source = Src_body, sa_wire_name = fixed_string_empty\<rparr>"

text \<open>
  \<open>minimum\<close>, \<open>exclusive_minimum\<close>, \<open>maximum\<close> and \<open>exclusive_maximum\<close> of an integer: the bound is
  stored as a \<open>double\<close>. The length and item constraints store a size.
\<close>

definition numeric_constraint :: "constraint_kind \<Rightarrow> int \<Rightarrow> constraint_annotation" where
  "numeric_constraint k value = \<lparr>ca_kind = k, ca_numeric = double_of_int value, ca_size = 0\<rparr>"

definition size_constraint :: "constraint_kind \<Rightarrow> nat \<Rightarrow> constraint_annotation" where
  "size_constraint k value = \<lparr>ca_kind = k, ca_numeric = double_of_int 0, ca_size = value\<rparr>"

end
