(* ===== verification/Flash_Http.thy ===== *)
theory Flash_Http
  imports Flash_Annotations
begin

text \<open>
  \<open>include/flash/request.hpp\<close> and \<open>include/flash/response.hpp\<close>: the request view with the split
  of the target, case-insensitive header lookup, and the response message whose \<open>set_header\<close>
  validates, replaces or appends. \<open>header_container\<close> is the interface the middleware and the
  dispatcher use.
\<close>

section \<open>Requests\<close>

record header_view =
  hv_name :: string
  hv_value :: string

definition ascii_lower :: "char \<Rightarrow> char" where
  "ascii_lower c =
     (if of_char c \<ge> (65::nat) \<and> of_char c \<le> (90::nat) then char_of (of_char c + 32 :: nat) else c)"

fun iequals_loop :: "string \<Rightarrow> string \<Rightarrow> bool" where
  "iequals_loop (a # as) (b # bs) =
     (if ascii_lower a \<noteq> ascii_lower b then False else iequals_loop as bs)"
| "iequals_loop _ _ = True"

definition ascii_iequals :: "string \<Rightarrow> string \<Rightarrow> bool" where
  "ascii_iequals l r = (if length l \<noteq> length r then False else iequals_loop l r)"

text \<open>A stop token is a handle on a shared stop state, named by a number; the default has none.\<close>

type_synonym stop_token = "nat option"

record request_view =
  rv_method :: http_method
  rv_target :: string
  rv_path :: string
  rv_query :: string
  rv_headers :: "header_view list"
  rv_body :: string
  rv_keep_alive :: bool
  rv_stop_token :: stop_token

definition make_request ::
    "http_method \<Rightarrow> string \<Rightarrow> header_view list \<Rightarrow> string \<Rightarrow> bool \<Rightarrow> stop_token \<Rightarrow> request_view" where
  "make_request m target hs body_value ka tok =
     (let query_marker = str_find target (CHR ''?'') 0
      in \<lparr>rv_method = m, rv_target = target,
          rv_path = before_index target query_marker,
          rv_query = after_index target query_marker,
          rv_headers = hs, rv_body = body_value, rv_keep_alive = ka, rv_stop_token = tok\<rparr>)"

fun find_header :: "header_view list \<Rightarrow> string \<Rightarrow> string option" where
  "find_header [] name = None"
| "find_header (f # fs) name =
     (if ascii_iequals (hv_name f) name then Some (hv_value f) else find_header fs name)"

definition request_header :: "request_view \<Rightarrow> string \<Rightarrow> string option" where
  "request_header r name = find_header (rv_headers r) name"

section \<open>Responses\<close>

datatype status =
    Ok200 | Created201 | No_content204 | Bad_request400 | Unauthorized401 | Forbidden403
  | Not_found404 | Method_not_allowed405 | Request_timeout408 | Conflict409
  | Payload_too_large413 | Unsupported_media_type415 | Unprocessable_content422
  | Internal_server_error500 | Service_unavailable503

fun status_code :: "status \<Rightarrow> nat" where
  "status_code Ok200 = 200"
| "status_code Created201 = 201"
| "status_code No_content204 = 204"
| "status_code Bad_request400 = 400"
| "status_code Unauthorized401 = 401"
| "status_code Forbidden403 = 403"
| "status_code Not_found404 = 404"
| "status_code Method_not_allowed405 = 405"
| "status_code Request_timeout408 = 408"
| "status_code Conflict409 = 409"
| "status_code Payload_too_large413 = 413"
| "status_code Unsupported_media_type415 = 415"
| "status_code Unprocessable_content422 = 422"
| "status_code Internal_server_error500 = 500"
| "status_code Service_unavailable503 = 503"

record header_value =
  h_name :: string
  h_value :: string

definition separators :: string where
  "separators = ''()<>@,;:'' @ [CHR 0x5C, CHR 0x22] @ ''/[]?={} '' @ [CHR 0x09]"

fun header_name_chars_ok :: "string \<Rightarrow> bool" where
  "header_name_chars_ok [] = True"
| "header_name_chars_ok (c # cs) =
     (let character = of_char c :: nat in
      if character \<le> 31 \<or> character \<ge> 127 \<or> str_find separators c 0 \<noteq> None then False
      else header_name_chars_ok cs)"

definition valid_header_name :: "string \<Rightarrow> bool" where
  "valid_header_name name = (if name = [] then False else header_name_chars_ok name)"

fun header_value_chars_ok :: "string \<Rightarrow> bool" where
  "header_value_chars_ok [] = True"
| "header_value_chars_ok (c # cs) =
     (let character = of_char c :: nat in
      if character = 13 \<or> character = 10 \<or> character = 0 \<or> (character < 32 \<and> character \<noteq> 9)
      then False else header_value_chars_ok cs)"

definition valid_header_value :: "string \<Rightarrow> bool" where
  "valid_header_value value =
     (if length value > 8 * 1024 then False else header_value_chars_ok value)"

record response_message =
  rm_status :: status
  rm_headers :: "header_value list"
  rm_body :: string
  rm_content_type :: string
  rm_keep_alive :: bool

definition default_response :: response_message where
  "default_response = \<lparr>rm_status = Ok200, rm_headers = [], rm_body = [],
     rm_content_type = ''application/json'', rm_keep_alive = True\<rparr>"

fun replace_or_append :: "header_value list \<Rightarrow> string \<Rightarrow> string \<Rightarrow> header_value list" where
  "replace_or_append [] name value = [\<lparr>h_name = name, h_value = value\<rparr>]"
| "replace_or_append (h # hs) name value =
     (if h_name h = name then h\<lparr>h_value := value\<rparr> # hs
      else h # replace_or_append hs name value)"

definition set_header :: "string \<Rightarrow> string \<Rightarrow> response_message \<Rightarrow> response_message throwing" where
  "set_header name value r =
     (if \<not> valid_header_name name \<or> \<not> valid_header_value value
      then Inl (Invalid_argument ''invalid HTTP response header'')
      else Inr (r\<lparr>rm_headers := replace_or_append (rm_headers r) name value\<rparr>))"

text \<open>What a client of the response reads: the value under a name, exactly as stored.\<close>

definition header_map :: "response_message \<Rightarrow> string \<Rightarrow> string option" where
  "header_map r = map_of (map (\<lambda>h. (h_name h, h_value h)) (rm_headers r))"

definition headers_ok :: "response_message \<Rightarrow> bool" where
  "headers_ok r \<longleftrightarrow> distinct (map h_name (rm_headers r)) \<and>
     (\<forall>h \<in> set (rm_headers r). valid_header_name (h_name h) \<and> valid_header_value (h_value h))"

section \<open>ASCII case-insensitive comparison is an equivalence\<close>

lemma iequals_loop_iff:
  "length l = length r \<Longrightarrow> iequals_loop l r \<longleftrightarrow> map ascii_lower l = map ascii_lower r"
  by (induction l r rule: iequals_loop.induct) auto

lemma ascii_iequals_iff: "ascii_iequals l r \<longleftrightarrow> map ascii_lower l = map ascii_lower r"
  unfolding ascii_iequals_def using iequals_loop_iff [of l r] map_eq_imp_length_eq by auto

lemma ascii_iequals_refl [simp]: "ascii_iequals s s"
  by (simp add: ascii_iequals_iff)

section \<open>The target is split at the first question mark\<close>

lemma make_request_path_query:
  "rv_path (make_request m t hs b ka tok) = hd (split_on (CHR ''?'') t)"
  "rv_query (make_request m t hs b ka tok) =
     (case find_char (CHR ''?'') t of None \<Rightarrow> [] | Some k \<Rightarrow> drop (Suc k) t)"
  by (auto simp: make_request_def before_index_def after_index_def str_simps Let_def
      split_on_find_char [of _ t] split: option.splits)

lemma make_request_reassemble:
  assumes "CHR ''?'' \<in> set t"
  shows "rv_path (make_request m t hs b ka tok) @ CHR ''?'' # rv_query (make_request m t hs b ka tok) = t"
proof -
  obtain k where k: "find_char (CHR ''?'') t = Some k"
    using assms by (cases "find_char (CHR ''?'') t") (auto simp: find_char_None_iff)
  then show ?thesis
    using find_char_decomp [OF k] by (simp add: make_request_def before_index_def after_index_def str_simps)
qed

lemma make_request_no_query:
  "CHR ''?'' \<notin> set t \<Longrightarrow> rv_path (make_request m t hs b ka tok) = t
     \<and> rv_query (make_request m t hs b ka tok) = []"
  using find_char_None_iff [of "CHR ''?''" t]
  by (auto simp: make_request_def before_index_def after_index_def str_simps Let_def)

lemma make_request_fields [simp]:
  "rv_method (make_request m t hs b ka tok) = m"
  "rv_target (make_request m t hs b ka tok) = t"
  "rv_headers (make_request m t hs b ka tok) = hs"
  "rv_body (make_request m t hs b ka tok) = b"
  "rv_keep_alive (make_request m t hs b ka tok) = ka"
  "rv_stop_token (make_request m t hs b ka tok) = tok"
  by (simp_all add: make_request_def Let_def)

section \<open>The header container\<close>

text \<open>
  A container of named values: setting a header either throws and changes nothing, or makes the
  name read as the new value and leaves every other name as it was, and keeps the invariant.
\<close>

locale header_container =
  fixes put :: "string \<Rightarrow> string \<Rightarrow> 'r \<Rightarrow> 'r throwing"
    and get :: "'r \<Rightarrow> string \<Rightarrow> string option"
    and invar :: "'r \<Rightarrow> bool"
    and admissible :: "string \<Rightarrow> string \<Rightarrow> bool"
  assumes put_ok_iff: "(\<exists>r'. put n v r = Inr r') \<longleftrightarrow> admissible n v"
    and put_get: "put n v r = Inr r' \<Longrightarrow> get r' = (get r)(n \<mapsto> v)"
    and put_invar: "invar r \<Longrightarrow> put n v r = Inr r' \<Longrightarrow> invar r'"
begin

lemma put_twice:
  assumes "put n v r = Inr r'" "put n w r' = Inr r''"
  shows "get r'' = (get r)(n \<mapsto> w)"
  using assms by (auto dest!: put_get)

lemma put_commute_get:
  assumes "n \<noteq> m" "put n v r = Inr a" "put m w a = Inr b" "put m w r = Inr c" "put n v c = Inr d"
  shows "get b = get d"
  using assms by (auto dest!: put_get simp: fun_upd_twist)

text \<open>A list of headers, set one after another, as a handler does.\<close>

primrec put_all :: "(string \<times> string) list \<Rightarrow> 'r \<Rightarrow> 'r throwing" where
  "put_all [] r = Inr r"
| "put_all (h # hs) r = bind_sum (put (fst h) (snd h) r) (put_all hs)"

lemma put_all_ok:
  "\<forall>h \<in> set hs. admissible (fst h) (snd h) \<Longrightarrow> \<exists>r'. put_all hs r = Inr r'"
proof (induction hs arbitrary: r)
  case (Cons h hs)
  then have "\<exists>r1. put (fst h) (snd h) r = Inr r1" using put_ok_iff by simp
  then obtain r1 where "put (fst h) (snd h) r = Inr r1" by blast
  with Cons show ?case by simp
qed simp

lemma put_all_get:
  "put_all hs r = Inr r' \<Longrightarrow> get r' = get r ++ map_of (rev hs)"
proof (induction hs arbitrary: r)
  case (Cons h hs)
  then obtain r1 where r1: "put (fst h) (snd h) r = Inr r1" "put_all hs r1 = Inr r'"
    by (auto simp: bind_sum_Inr_iff)
  then have "get r' = (get r)(fst h \<mapsto> snd h) ++ map_of (rev hs)"
    using Cons.IH put_get by metis
  then show ?case by (simp add: map_add_def fun_eq_iff split: option.splits)
qed simp

lemma put_all_invar: "invar r \<Longrightarrow> put_all hs r = Inr r' \<Longrightarrow> invar r'"
  by (induction hs arbitrary: r) (auto simp: bind_sum_Inr_iff dest: put_invar)

end

lemma set_header_Inr_iff:
  "set_header n v r = Inr r' \<longleftrightarrow> valid_header_name n \<and> valid_header_value v
     \<and> r' = r\<lparr>rm_headers := replace_or_append (rm_headers r) n v\<rparr>"
  by (auto simp: set_header_def)

lemma replace_or_append_names:
  "map h_name (replace_or_append hs n v) =
     (if n \<in> set (map h_name hs) then map h_name hs else map h_name hs @ [n])"
  by (induction hs) auto

lemma replace_or_append_map:
  "map_of (map (\<lambda>h. (h_name h, h_value h)) (replace_or_append hs n v)) =
     (map_of (map (\<lambda>h. (h_name h, h_value h)) hs))(n \<mapsto> v)"
  by (induction hs) auto

lemma replace_or_append_set:
  "h \<in> set (replace_or_append hs n v) \<Longrightarrow> h \<in> set hs \<or> h_name h = n \<and> h_value h = v"
  by (induction hs) (auto split: if_splits)

lemma headers_ok_set_header:
  assumes "headers_ok r" "set_header n v r = Inr r'"
  shows "headers_ok r'"
proof -
  have r': "r' = r\<lparr>rm_headers := replace_or_append (rm_headers r) n v\<rparr>"
    and nv: "valid_header_name n" "valid_header_value v"
    using assms(2) by (simp_all add: set_header_Inr_iff)
  have "distinct (map h_name (rm_headers r'))"
    using assms(1) by (simp add: r' headers_ok_def replace_or_append_names)
  moreover have "valid_header_name (h_name h) \<and> valid_header_value (h_value h)"
    if "h \<in> set (rm_headers r')" for h
    using that assms(1) nv replace_or_append_set [of h "rm_headers r" n v]
    by (auto simp: r' headers_ok_def)
  ultimately show ?thesis by (simp add: headers_ok_def)
qed

interpretation rm: header_container set_header header_map headers_ok
  "\<lambda>n v. valid_header_name n \<and> valid_header_value v"
proof unfold_locales
  fix n v r r'
  show "(\<exists>r'. set_header n v r = Inr r') \<longleftrightarrow> valid_header_name n \<and> valid_header_value v"
    by (auto simp: set_header_Inr_iff)
  show "set_header n v r = Inr r' \<Longrightarrow> header_map r' = (header_map r)(n \<mapsto> v)"
    by (auto simp: set_header_Inr_iff header_map_def replace_or_append_map)
  show "headers_ok r \<Longrightarrow> set_header n v r = Inr r' \<Longrightarrow> headers_ok r'"
    by (rule headers_ok_set_header)
qed

text \<open>No header that passed validation can carry a line break: responses cannot be split.\<close>

lemma header_value_chars_ok_iff:
  "header_value_chars_ok s \<longleftrightarrow> (\<forall>c \<in> set s. (of_char c :: nat) \<ge> 32 \<or> (of_char c :: nat) = 9)"
  by (induction s) (auto simp: Let_def)

lemma header_name_chars_ok_iff:
  "header_name_chars_ok s \<longleftrightarrow>
     (\<forall>c \<in> set s. 32 \<le> (of_char c :: nat) \<and> (of_char c :: nat) < 127 \<and> c \<notin> set separators)"
proof (induction s)
  case (Cons c cs)
  have "str_find separators c 0 \<noteq> None \<longleftrightarrow> c \<in> set separators"
    by (simp only: str_find_0 find_char_None_iff) simp
  with Cons show ?case by (auto simp: Let_def)
qed simp

lemma valid_header_value_no_break:
  "valid_header_value v \<Longrightarrow> CHR 0x0D \<notin> set v \<and> CHR 0x0A \<notin> set v \<and> CHR 0x00 \<notin> set v"
  by (auto simp: valid_header_value_def header_value_chars_ok_iff split: if_splits)

lemma valid_header_name_no_break:
  "valid_header_name n \<Longrightarrow> CHR 0x0D \<notin> set n \<and> CHR 0x0A \<notin> set n \<and> CHR '':'' \<notin> set n"
proof -
  assume "valid_header_name n"
  then have *: "\<forall>c \<in> set n. 32 \<le> (of_char c :: nat) \<and> c \<notin> set separators"
    by (simp add: valid_header_name_def header_name_chars_ok_iff split: if_splits)
  have "CHR '':'' \<in> set separators" by (simp add: separators_def)
  then show ?thesis using * by auto
qed

section \<open>Properties\<close>

text \<open>C29. Response headers stay safe: a successful \<open>set_header\<close> makes the name read as the value and
  leaves every other name as it was, keeps names unique and in place, and no name or value in the result
  holds a carriage return or a line feed, so a response cannot be split.\<close>

theorem set_header_safe:
  assumes "headers_ok r" "set_header n v r = Inr r'"
  shows "headers_ok r' \<and> header_map r' = (header_map r)(n \<mapsto> v) \<and>
    map h_name (rm_headers r') =
      (if n \<in> set (map h_name (rm_headers r)) then map h_name (rm_headers r) else map h_name (rm_headers r) @ [n]) \<and>
    (\<forall>h \<in> set (rm_headers r'). {CHR 0x0D, CHR 0x0A} \<inter> (set (h_name h) \<union> set (h_value h)) = {})"
proof -
  have ok: "headers_ok r'" using rm.put_invar assms by blast
  have "{CHR 0x0D, CHR 0x0A} \<inter> (set (h_name h) \<union> set (h_value h)) = {}" if "h \<in> set (rm_headers r')" for h
    using ok that valid_header_name_no_break [of "h_name h"] valid_header_value_no_break [of "h_value h"]
    by (auto simp: headers_ok_def)
  moreover have "header_map r' = (header_map r)(n \<mapsto> v)" using rm.put_get assms(2) by blast
  moreover have "map h_name (rm_headers r') =
      (if n \<in> set (map h_name (rm_headers r)) then map h_name (rm_headers r) else map h_name (rm_headers r) @ [n])"
    using assms(2) by (auto simp: set_header_Inr_iff replace_or_append_names)
  ultimately show ?thesis using ok by blast
qed

theorem set_header_safe_witness:
  "headers_ok default_response \<and>
   (\<exists>r'. set_header ''X-A'' ''1'' default_response = Inr r' \<and> headers_ok r' \<and>
      header_map r' = (header_map default_response)(''X-A'' \<mapsto> ''1''))"
proof -
  have ok: "headers_ok default_response" by (simp add: headers_ok_def default_response_def)
  have "valid_header_name ''X-A'' \<and> valid_header_value ''1''" by code_simp
  then obtain r' where r': "set_header ''X-A'' ''1'' default_response = Inr r'"
    by (simp add: set_header_def)
  show ?thesis using set_header_safe [OF ok r'] r' ok by blast
qed

text \<open>The request target is split at its first question mark and nothing is lost: the path is the
  text before it, the query the text after it, and without a question mark the query is empty.\<close>

lemma request_target_split:
  "rv_path (make_request m t hs b ka tok) = hd (split_on (CHR ''?'') t) \<and>
   t = rv_path (make_request m t hs b ka tok) @
     (if CHR ''?'' \<in> set t then CHR ''?'' # rv_query (make_request m t hs b ka tok) else []) \<and>
   (CHR ''?'' \<notin> set t \<longrightarrow> rv_query (make_request m t hs b ka tok) = [])"
  using make_request_path_query make_request_reassemble make_request_no_query by auto

lemma request_target_split_witness:
  "rv_query (make_request Get ''/a'' [] [] True None) = []"
  using request_target_split [of Get "''/a''" "[]" "[]" True None] by simp

end
