(* ===== verification/Flash_Route.thy ===== *)
theory Flash_Route
  imports Flash_Http
begin

unbundle bit_operations_syntax

text \<open>
  \<open>include/flash/routing/route.hpp\<close>: the parser of route patterns with its errors in source order,
  the matcher of one pattern against a path, the shape comparison with its FNV-1a hash, and the
  specificity order. The array of segments with its count is the list of the segments in use; that
  it never needs more than \<open>max_route_segments\<close> entries is a theorem.
\<close>

definition max_route_segments :: nat where
  "max_route_segments = 32"

definition max_path_parameters :: nat where
  "max_path_parameters = 16"

datatype segment_kind = Literal | Parameter | Catch_all

datatype route_error =
    No_route_error | Missing_leading_slash | Trailing_slash | Empty_segment | Unmatched_brace
  | Invalid_parameter_name | Duplicate_parameter_name | Catch_all_not_final
  | Too_many_segments | Too_many_parameters

record route_segment =
  seg_kind :: segment_kind
  seg_text :: fixed_string

record route_pattern =
  rp_source :: fixed_string
  rp_segments :: "route_segment list"
  rp_parameter_count :: nat
  rp_error :: route_error

definition route_valid :: "route_pattern \<Rightarrow> bool" where
  "route_valid p \<longleftrightarrow> rp_error p = No_route_error"

definition fixed_substring :: "string \<Rightarrow> nat \<Rightarrow> nat \<Rightarrow> fixed_string" where
  "fixed_substring source off count =
     (let n = (if count \<ge> annotation_text_capacity then annotation_text_capacity - 1 else count)
      in \<lparr>characters = substr source off n @ replicate (annotation_text_capacity - n) NUL,
          fs_length = n\<rparr>)"

definition alpha_numeric :: "char \<Rightarrow> bool" where
  "alpha_numeric c \<longleftrightarrow> (let n = of_char c :: nat in
     (97 \<le> n \<and> n \<le> 122) \<or> (65 \<le> n \<and> n \<le> 90) \<or> (48 \<le> n \<and> n \<le> 57))"

fun parameter_chars_ok :: "string \<Rightarrow> bool" where
  "parameter_chars_ok [] = True"
| "parameter_chars_ok (c # cs) =
     (if \<not> alpha_numeric c \<and> c \<noteq> CHR ''_'' \<and> c \<noteq> CHR ''-'' then False
      else parameter_chars_ok cs)"

definition valid_parameter_name :: "string \<Rightarrow> bool" where
  "valid_parameter_name value = (if value = [] then False else parameter_chars_ok value)"

section \<open>Parsing\<close>

text \<open>\<open>name_used\<close> is the loop that looks for an earlier placeholder of the same name.\<close>

fun name_used :: "route_segment list \<Rightarrow> string \<Rightarrow> bool" where
  "name_used [] name = False"
| "name_used (s # ss) name =
     (if seg_kind s \<noteq> Literal \<and> view (seg_text s) = name then True else name_used ss name)"

definition add_segment :: "route_pattern \<Rightarrow> segment_kind \<Rightarrow> string \<Rightarrow> route_pattern" where
  "add_segment result k text = result\<lparr>rp_segments := rp_segments result @
     [\<lparr>seg_kind = k, seg_text = fixed_substring text 0 (length text)\<rparr>]\<rparr>"

text \<open>
  The body of the loop on one segment text: \<open>has_next\<close> says that a separator follows. \<open>Inl\<close> is a
  \<open>return\<close> with the error set, \<open>Inr\<close> goes on with the segment stored.
\<close>

definition route_step :: "string \<Rightarrow> bool \<Rightarrow> route_pattern \<Rightarrow> route_pattern + route_pattern" where
  "route_step text has_next result =
     (if length (rp_segments result) = max_route_segments
      then Inl (result\<lparr>rp_error := Too_many_segments\<rparr>)
      else if text = [] then Inl (result\<lparr>rp_error := Empty_segment\<rparr>)
      else if hd text = CHR ''{'' \<or> last text = CHR ''}'' then
        (if length text < 3 \<or> hd text \<noteq> CHR ''{'' \<or> last text \<noteq> CHR ''}''
         then Inl (result\<lparr>rp_error := Unmatched_brace\<rparr>)
         else
           (let inner = substr text 1 (length text - 2);
                star = (inner \<noteq> [] \<and> hd inner = CHR ''*'');
                k = (if star then Catch_all else Parameter);
                name = (if star then drop 1 inner else inner)
            in if star \<and> has_next then Inl (result\<lparr>rp_error := Catch_all_not_final\<rparr>)
               else if \<not> valid_parameter_name name
               then Inl (result\<lparr>rp_error := Invalid_parameter_name\<rparr>)
               else if rp_parameter_count result = max_path_parameters
               then Inl (result\<lparr>rp_error := Too_many_parameters\<rparr>)
               else if name_used (rp_segments result) name
               then Inl (result\<lparr>rp_error := Duplicate_parameter_name\<rparr>)
               else Inr (add_segment
                      (result\<lparr>rp_parameter_count := rp_parameter_count result + 1\<rparr>) k name)))
      else if str_find text (CHR ''{'') 0 \<noteq> None \<or> str_find text (CHR ''}'') 0 \<noteq> None
      then Inl (result\<lparr>rp_error := Unmatched_brace\<rparr>)
      else Inr (add_segment result Literal text))"

function parse_loop :: "string \<Rightarrow> nat \<Rightarrow> route_pattern \<Rightarrow> route_pattern" where
  "parse_loop source off result =
     (if off \<le> length source then
        (let separator = str_find source (CHR ''/'') off;
             e = (case separator of None \<Rightarrow> length source | Some k \<Rightarrow> k)
         in case route_step (substr source off (e - off)) (separator \<noteq> None) result of
              Inl r \<Rightarrow> r
            | Inr result' \<Rightarrow>
                (case separator of None \<Rightarrow> result' | Some k \<Rightarrow> parse_loop source (k + 1) result'))
      else result)"
  by pat_completeness auto
termination
  by (relation "measure (\<lambda>(source, off, result). Suc (length source) - off)")
     (auto dest: str_find_bound [OF sym])

declare parse_loop.simps [simp del]

definition parse_route :: "fixed_string \<Rightarrow> route_pattern" where
  "parse_route path =
     (let result = \<lparr>rp_source = path, rp_segments = [], rp_parameter_count = 0,
                    rp_error = No_route_error\<rparr>;
          source = view path
      in if source = [] \<or> hd source \<noteq> CHR ''/'' then result\<lparr>rp_error := Missing_leading_slash\<rparr>
         else if source = ''/'' then result
         else if last source = CHR ''/'' then result\<lparr>rp_error := Trailing_slash\<rparr>
         else parse_loop source 1 result)"

section \<open>Shapes\<close>

fun same_shape_loop :: "route_segment list \<Rightarrow> route_segment list \<Rightarrow> bool" where
  "same_shape_loop (l # ls) (r # rs) =
     (if seg_kind l \<noteq> seg_kind r then False
      else if seg_kind l = Literal \<and> \<not> fs_eq (seg_text l) (seg_text r) then False
      else same_shape_loop ls rs)"
| "same_shape_loop _ _ = True"

definition same_route_shape :: "route_pattern \<Rightarrow> route_pattern \<Rightarrow> bool" where
  "same_route_shape l r =
     (if length (rp_segments l) \<noteq> length (rp_segments r) then False
      else same_shape_loop (rp_segments l) (rp_segments r))"

fun kind_index :: "segment_kind \<Rightarrow> nat" where
  "kind_index Literal = 0"
| "kind_index Parameter = 1"
| "kind_index Catch_all = 2"

text \<open>\<open>append\<close> of the hash: the value is an \<open>unsigned char\<close>, the product wraps at 64 bits.\<close>

definition fnv_append :: "8 word \<Rightarrow> 64 word \<Rightarrow> 64 word" where
  "fnv_append value hash = (hash XOR ucast value) * 1099511628211"

definition hash_segment :: "route_segment \<Rightarrow> 64 word \<Rightarrow> 64 word" where
  "hash_segment s h =
     (let h1 = fnv_append (of_nat (kind_index (seg_kind s))) h;
          h2 = (if seg_kind s = Literal
                then fold (\<lambda>c. fnv_append (of_char c)) (view (seg_text s)) h1 else h1)
      in fnv_append 255 h2)"

definition route_shape_hash :: "route_pattern \<Rightarrow> 64 word" where
  "route_shape_hash route =
     fold hash_segment (rp_segments route)
       (fnv_append (of_nat (length (rp_segments route))) 14695981039346656037)"

section \<open>Matching\<close>

record path_capture =
  pc_name :: string
  pc_value :: string

record route_match =
  matched :: bool
  captures :: "path_capture list"

definition no_match :: route_match where
  "no_match = \<lparr>matched = False, captures = []\<rparr>"

fun match_segments :: "route_segment list \<Rightarrow> string \<Rightarrow> nat \<Rightarrow> path_capture list \<Rightarrow> route_match" where
  "match_segments [] path off caps = \<lparr>matched = True, captures = caps\<rparr>"
| "match_segments (expected # rest) path off caps =
     (if seg_kind expected = Catch_all then
        (if off \<ge> length path then no_match
         else \<lparr>matched = True,
               captures = caps @ [\<lparr>pc_name = view (seg_text expected), pc_value = drop off path\<rparr>]\<rparr>)
      else if off > length path then no_match
      else
        (let separator = str_find path (CHR ''/'') off;
             e = (case separator of None \<Rightarrow> length path | Some k \<Rightarrow> k);
             actual = substr path off (e - off)
         in if actual = [] then no_match
            else if seg_kind expected = Literal \<and> actual \<noteq> view (seg_text expected) then no_match
            else
              (let caps' = (if seg_kind expected = Literal then caps
                            else caps @ [\<lparr>pc_name = view (seg_text expected), pc_value = actual\<rparr>])
               in if rest \<noteq> [] then
                    (case separator of None \<Rightarrow> no_match
                     | Some k \<Rightarrow> match_segments rest path (k + 1) caps')
                  else if separator \<noteq> None then no_match
                  else match_segments rest path off caps')))"

definition match_route :: "route_pattern \<Rightarrow> string \<Rightarrow> route_match" where
  "match_route pattern path =
     (if \<not> route_valid pattern \<or> path = [] \<or> hd path \<noteq> CHR ''/'' then no_match
      else if rp_segments pattern = [] then no_match\<lparr>matched := (path = ''/'')\<rparr>
      else if length path > 1 \<and> last path = CHR ''/'' then no_match
      else match_segments (rp_segments pattern) path 1 [])"

section \<open>Specificity\<close>

fun segment_precedence :: "segment_kind \<Rightarrow> nat" where
  "segment_precedence Literal = 3"
| "segment_precedence Parameter = 2"
| "segment_precedence Catch_all = 1"

fun specific_loop :: "route_segment list \<Rightarrow> route_segment list \<Rightarrow> bool option" where
  "specific_loop (c # cs) (r # rs) =
     (let candidate_rank = segment_precedence (seg_kind c);
          current_rank = segment_precedence (seg_kind r)
      in if candidate_rank \<noteq> current_rank then Some (candidate_rank > current_rank)
         else specific_loop cs rs)"
| "specific_loop _ _ = None"

definition more_specific :: "route_pattern \<Rightarrow> route_pattern \<Rightarrow> bool" where
  "more_specific candidate current =
     (case specific_loop (rp_segments candidate) (rp_segments current) of
        Some b \<Rightarrow> b
      | None \<Rightarrow> length (rp_segments candidate) > length (rp_segments current))"

end
