(* ===== verification/Flash_Reflection.thy ===== *)
theory Flash_Reflection
  imports Flash_Route
begin

text \<open>
  \<open>include/flash/meta/reflection.hpp\<close>: the declarations the compiler reflects on. A
  \<open>std::meta::info\<close> of a function is a \<open>decl_info\<close>, of a namespace the list of its members in
  order, of a type a \<open>ctype\<close>. Class types are named and looked up in a table of their fields, since
  a class may contain itself through a vector. \<open>None\<close> is a failed \<open>static_assert\<close>.
\<close>

section \<open>Types and values\<close>

record enum_info =
  en_name :: string
  en_enumerators :: "(string \<times> int) list"

text \<open>The \<open>Value\<close> of a \<open>state<Value>\<close>: a class and its \<open>cv\<close> qualifiers.\<close>

record cv_type =
  cv_class :: string
  cv_const :: bool
  cv_volatile :: bool

datatype ctype =
    C_string
  | C_string_view
  | C_bool
  | C_int bool nat \<comment> \<open>signed, width in bits\<close>
  | C_float float_format
  | C_enum enum_info
  | C_optional ctype
  | C_vector ctype
  | C_array ctype nat
  | C_object string
  | C_void
  | C_text
  | C_bytes
  | C_created ctype
  | C_response ctype
  | C_response_message
  | C_expected ctype enum_info
  | C_task ctype
  | C_request_context
  | C_raw_request_view
  | C_state cv_type

datatype jvalue =
    V_string string
  | V_bool bool
  | V_int int
  | V_float fp
  | V_enum int
  | V_null
  | V_some jvalue
  | V_list "jvalue list"
  | V_object "jvalue list"

text \<open>
  A data member: its identifier, type, access, and the annotations on it. A default annotation
  counts only when its value has the member's own type, so it is listed here with that type.
\<close>

record field_info =
  fi_identifier :: string
  fi_type :: ctype
  fi_public :: bool
  fi_names :: "fixed_string list"
  fi_defaults :: "jvalue list"
  fi_constraints :: "constraint_annotation list"
  fi_descriptions :: "fixed_string list"
  fi_deprecated :: nat

record object_info =
  ob_fields :: "field_info list"
  ob_aggregate :: bool
  ob_default_initializable :: bool
  ob_schema_names :: "fixed_string list"
  ob_display :: string

type_synonym type_table = "string \<rightharpoonup> object_info"

record parameter_info =
  pi_identifier :: "string option"
  pi_type :: ctype
  pi_sources :: "source_annotation list"
  pi_defaults :: "jvalue list"
  pi_constraints :: "constraint_annotation list"
  pi_descriptions :: "fixed_string list"
  pi_deprecated :: nat

record decl_info =
  d_is_function :: bool
  d_identifier :: string
  d_routes :: "route_annotation list"
  d_parameters :: "parameter_info list"
  d_return :: ctype
  d_descriptions :: "fixed_string list"
  d_deprecated :: nat

section \<open>Endpoints of a namespace\<close>

definition is_endpoint :: "decl_info \<Rightarrow> bool" where
  "is_endpoint d = (if \<not> d_is_function d then False else length (d_routes d) = 1)"

definition route_of :: "decl_info \<Rightarrow> route_annotation option" where
  "route_of f =
     (if \<not> d_is_function f then None
      else if length (d_routes f) \<noteq> 1 then None
      else Some (d_routes f ! 0))"

fun endpoint_count :: "decl_info list \<Rightarrow> nat" where
  "endpoint_count [] = 0"
| "endpoint_count (m # ms) = (if is_endpoint m then 1 else 0) + endpoint_count ms"

fun endpoint_at_loop :: "decl_info list \<Rightarrow> nat \<Rightarrow> nat \<Rightarrow> decl_info option" where
  "endpoint_at_loop [] endpoint_index index = None"
| "endpoint_at_loop (m # ms) endpoint_index index =
     (if \<not> is_endpoint m then endpoint_at_loop ms endpoint_index index
      else if endpoint_index = index then Some m
      else endpoint_at_loop ms (endpoint_index + 1) index)"

definition endpoint_at :: "decl_info list \<Rightarrow> nat \<Rightarrow> decl_info option" where
  "endpoint_at ns index =
     (if index < endpoint_count ns then endpoint_at_loop ns 0 index else None)"

definition parameter_at :: "decl_info \<Rightarrow> nat \<Rightarrow> parameter_info option" where
  "parameter_at f index =
     (if \<not> d_is_function f then None
      else if index < length (d_parameters f) then Some (d_parameters f ! index) else None)"

definition parameter_name :: "decl_info \<Rightarrow> nat \<Rightarrow> string option" where
  "parameter_name f index = Option.bind (parameter_at f index) pi_identifier"

definition data_member_at :: "object_info \<Rightarrow> nat \<Rightarrow> field_info option" where
  "data_member_at ob index =
     (if index < length (ob_fields ob) then Some (ob_fields ob ! index) else None)"

section \<open>Endpoint discovery is filtering\<close>

definition endpoints :: "decl_info list \<Rightarrow> decl_info list" where
  "endpoints ns = filter is_endpoint ns"

lemma endpoint_count_eq: "endpoint_count ns = length (endpoints ns)"
  by (induction ns) (auto simp: endpoints_def)

lemma endpoint_at_loop_eq:
  "i \<le> j \<Longrightarrow> j < i + length (endpoints ns) \<Longrightarrow> endpoint_at_loop ns i j = Some (endpoints ns ! (j - i))"
proof (induction ns arbitrary: i)
  case (Cons m ms)
  show ?case
  proof (cases "is_endpoint m")
    case False
    then show ?thesis using Cons by (simp add: endpoints_def)
  next
    case True
    show ?thesis
    proof (cases "i = j")
      case True
      with \<open>is_endpoint m\<close> show ?thesis by (simp add: endpoints_def)
    next
      case False
      have "endpoint_at_loop ms (i + 1) j = Some (endpoints ms ! (j - (i + 1)))"
        using Cons False \<open>is_endpoint m\<close> by (simp add: endpoints_def)
      moreover have "j - i = Suc (j - (i + 1))" using Cons.prems(1) False by simp
      ultimately show ?thesis using True False by (simp add: endpoints_def)
    qed
  qed
qed (simp add: endpoints_def)

lemma endpoint_at_eq:
  "endpoint_at ns j = (if j < length (endpoints ns) then Some (endpoints ns ! j) else None)"
  using endpoint_at_loop_eq [of 0 j ns] by (simp add: endpoint_at_def endpoint_count_eq)

lemma endpoint_route: "d \<in> set (endpoints ns) \<Longrightarrow> \<exists>r. route_of d = Some r \<and> d_routes d = [r]"
  by (auto simp: endpoints_def is_endpoint_def route_of_def length_Suc_conv split: if_splits)

end
