(* ===== verification/Flash_Route_Props.thy ===== *)
theory Flash_Route_Props
  imports Flash_Route "HOL-Library.Sublist"
begin

text \<open>
  What \<open>route.hpp\<close> promises: the parser accepts exactly the route grammar, a parsed pattern never
  exceeds the fixed arrays, matching is the inverse of filling in the placeholders, equal shapes
  have equal hashes and match alike, and specificity is a lexicographic order of segment ranks.
\<close>

section \<open>Fixed substrings\<close>

lemma view_fixed_substring:
  "length name \<le> 255 \<Longrightarrow> view (fixed_substring name 0 (length name)) = name"
  by (simp add: view_def fixed_substring_def substr_def annotation_text_capacity_def Let_def)

lemma wf_fixed_substring:
  "off + count \<le> length s \<Longrightarrow> wf_fixed_string (fixed_substring s off count)"
  by (auto simp: wf_fixed_string_def fixed_substring_def annotation_text_capacity_def Let_def)

section \<open>The grammar of one segment\<close>

definition has_brace :: "string \<Rightarrow> bool" where
  "has_brace p \<longleftrightarrow> CHR ''{'' \<in> set p \<or> CHR ''}'' \<in> set p"

text \<open>The reading of a piece between slashes, if it is one.\<close>

definition classify :: "string \<Rightarrow> (segment_kind \<times> string) option" where
  "classify p =
     (if p = [] then None
      else if \<not> has_brace p then Some (Literal, p)
      else if length p \<ge> 3 \<and> hd p = CHR ''{'' \<and> last p = CHR ''}'' then
        (let name = butlast (tl p) in
         if valid_parameter_name name then Some (Parameter, name)
         else if hd name = CHR ''*'' \<and> valid_parameter_name (tl name)
         then Some (Catch_all, tl name) else None)
      else None)"

fun show_segment :: "segment_kind \<times> string \<Rightarrow> string" where
  "show_segment (Literal, t) = t"
| "show_segment (Parameter, t) = CHR ''{'' # t @ ''}''"
| "show_segment (Catch_all, t) = ''{*'' @ t @ ''}''"

definition placeholder_names :: "(segment_kind \<times> string) list \<Rightarrow> string list" where
  "placeholder_names ks = map snd (filter (\<lambda>k. fst k \<noteq> Literal) ks)"

definition segment_keys :: "route_segment list \<Rightarrow> (segment_kind \<times> string) list" where
  "segment_keys ss = map (\<lambda>s. (seg_kind s, view (seg_text s))) ss"

lemma segment_keys_simps [simp]:
  "segment_keys [] = []"
  "segment_keys (s # ss) = (seg_kind s, view (seg_text s)) # segment_keys ss"
  "segment_keys (xs @ ys) = segment_keys xs @ segment_keys ys"
  "length (segment_keys ss) = length ss"
  by (simp_all add: segment_keys_def)

lemma placeholder_names_simps [simp]:
  "placeholder_names [] = []"
  "placeholder_names (xs @ ys) = placeholder_names xs @ placeholder_names ys"
  "placeholder_names [k] = (if fst k \<noteq> Literal then [snd k] else [])"
  by (simp_all add: placeholder_names_def)

lemma parameter_chars_ok_iff:
  "parameter_chars_ok s \<longleftrightarrow> (\<forall>c \<in> set s. alpha_numeric c \<or> c = CHR ''_'' \<or> c = CHR ''-'')"
  by (induction s) auto

lemma valid_parameter_name_iff:
  "valid_parameter_name s \<longleftrightarrow>
     s \<noteq> [] \<and> (\<forall>c \<in> set s. alpha_numeric c \<or> c = CHR ''_'' \<or> c = CHR ''-'')"
  by (simp add: valid_parameter_name_def parameter_chars_ok_iff)

lemma valid_parameter_name_clean:
  assumes "valid_parameter_name s"
  shows "CHR ''{'' \<notin> set s" "CHR ''}'' \<notin> set s" "CHR ''*'' \<notin> set s" "CHR ''/'' \<notin> set s" "s \<noteq> []"
proof -
  have "\<not> alpha_numeric (CHR ''{'')" "\<not> alpha_numeric (CHR ''}'')"
    "\<not> alpha_numeric (CHR ''*'')" "\<not> alpha_numeric (CHR ''/'')"
    by (simp_all add: alpha_numeric_def)
  then show "CHR ''{'' \<notin> set s" "CHR ''}'' \<notin> set s" "CHR ''*'' \<notin> set s" "CHR ''/'' \<notin> set s"
    "s \<noteq> []"
    using assms by (auto simp: valid_parameter_name_iff)
qed

lemma name_used_iff: "name_used ss n \<longleftrightarrow> n \<in> set (placeholder_names (segment_keys ss))"
  by (induction ss) (auto simp: placeholder_names_def)

lemma length3_decomp:
  assumes "3 \<le> length p"
  shows "p = hd p # butlast (tl p) @ [last p]" "substr p 1 (length p - 2) = butlast (tl p)"
    "butlast (tl p) \<noteq> []"
proof -
  obtain a q where p: "p = a # q" "2 \<le> length q" using assms by (cases p) auto
  then have "q \<noteq> []" by auto
  with p show "p = hd p # butlast (tl p) @ [last p]" by simp
  show "substr p 1 (length p - 2) = butlast (tl p)"
    using p by (simp add: substr_def butlast_conv_take)
  show "butlast (tl p) \<noteq> []" using p by (cases q rule: rev_cases) auto
qed

lemma classify_show: "classify p = Some k \<Longrightarrow> show_segment k = p"
proof -
  assume c: "classify p = Some k"
  show ?thesis
  proof (cases "has_brace p")
    case False
    with c show ?thesis by (auto simp: classify_def split: if_splits)
  next
    case True
    with c have l: "3 \<le> length p" "hd p = CHR ''{''" "last p = CHR ''}''"
      by (auto simp: classify_def split: if_splits)
    note d = length3_decomp(1) [OF l(1)] length3_decomp(3) [OF l(1)]
    have "(k = (Parameter, butlast (tl p))) \<or>
       (k = (Catch_all, tl (butlast (tl p))) \<and> hd (butlast (tl p)) = CHR ''*'')"
      using c True by (auto simp: classify_def Let_def split: if_splits)
    then show ?thesis using d l by (metis append_Cons append_Nil list.collapse show_segment.simps(2,3))
  qed
qed

section \<open>The loop body against the grammar\<close>

definition segment_of :: "segment_kind \<times> string \<Rightarrow> route_segment" where
  "segment_of k = \<lparr>seg_kind = fst k, seg_text = fixed_substring (snd k) 0 (length (snd k))\<rparr>"

definition step_allowed :: "string \<Rightarrow> bool \<Rightarrow> route_pattern \<Rightarrow> (segment_kind \<times> string) option" where
  "step_allowed p nxt r = (case classify p of None \<Rightarrow> None
    | Some k \<Rightarrow>
       (if length (rp_segments r) \<noteq> max_route_segments \<and> (fst k = Catch_all \<longrightarrow> \<not> nxt) \<and>
           (fst k \<noteq> Literal \<longrightarrow> rp_parameter_count r \<noteq> max_path_parameters \<and>
              snd k \<notin> set (placeholder_names (segment_keys (rp_segments r))))
        then Some k else None))"

definition step_result :: "route_pattern \<Rightarrow> segment_kind \<times> string \<Rightarrow> route_pattern" where
  "step_result r k = r\<lparr>rp_segments := rp_segments r @ [segment_of k],
     rp_parameter_count := rp_parameter_count r + (if fst k = Literal then 0 else 1)\<rparr>"

lemma no_brace_hd_last:
  "p \<noteq> [] \<Longrightarrow> \<not> has_brace p \<Longrightarrow> hd p \<noteq> CHR ''{'' \<and> last p \<noteq> CHR ''}''"
  by (metis has_brace_def hd_in_set last_in_set)

lemma find_brace_iff:
  "str_find p (CHR ''{'') 0 \<noteq> None \<or> str_find p (CHR ''}'') 0 \<noteq> None \<longleftrightarrow> has_brace p"
  by (simp only: str_find_0 find_char_None_iff has_brace_def) simp

lemma route_step_literal:
  assumes "p \<noteq> []" "\<not> has_brace p" "length (rp_segments r) \<noteq> max_route_segments"
  shows "route_step p nxt r = Inr (step_result r (Literal, p))"
  using assms no_brace_hd_last [OF assms(1,2)] find_brace_iff [of p]
  by (auto simp: route_step_def add_segment_def step_result_def segment_of_def)

lemma route_step_sound:
  assumes "route_step p nxt r = Inr r'"
  shows "\<exists>k. step_allowed p nxt r = Some k \<and> r' = step_result r k"
proof -
  have ne: "p \<noteq> []" and len: "length (rp_segments r) \<noteq> max_route_segments"
    using assms by (auto simp: route_step_def split: if_splits)
  show ?thesis
  proof (cases "has_brace p")
    case False
    then show ?thesis using assms route_step_literal [OF ne False len, of nxt] ne len
      by (auto simp: step_allowed_def classify_def)
  next
    case True
    with assms ne len find_brace_iff [of p]
    have b: "3 \<le> length p" "hd p = CHR ''{''" "last p = CHR ''}''"
      by (auto simp: route_step_def split: if_splits)
    define inner where "inner = butlast (tl p)"
    have inner: "substr p 1 (length p - 2) = inner" "inner \<noteq> []"
      using length3_decomp [OF b(1)] by (simp_all add: inner_def)
    show ?thesis
    proof (cases "hd inner = CHR ''*''")
      case star: True
      have nv: "\<not> valid_parameter_name inner"
        by (metis star inner(2) valid_parameter_name_clean(3) hd_in_set)
      have "\<not> nxt" "valid_parameter_name (tl inner)" "rp_parameter_count r \<noteq> max_path_parameters"
        "\<not> name_used (rp_segments r) (tl inner)" "r' = step_result r (Catch_all, tl inner)"
        using assms ne len b inner star
        by (auto simp: route_step_def Let_def drop_Suc add_segment_def step_result_def
            segment_of_def split: if_splits)
      then show ?thesis using ne len b True star nv
        by (auto simp: step_allowed_def classify_def inner_def [symmetric] name_used_iff)
    next
      case star: False
      have "valid_parameter_name inner" "rp_parameter_count r \<noteq> max_path_parameters"
        "\<not> name_used (rp_segments r) inner" "r' = step_result r (Parameter, inner)"
        using assms ne len b inner star
        by (auto simp: route_step_def Let_def drop_Suc add_segment_def step_result_def
            segment_of_def split: if_splits)
      then show ?thesis using ne len b True
        by (auto simp: step_allowed_def classify_def inner_def [symmetric] name_used_iff)
    qed
  qed
qed

lemma route_step_complete:
  assumes "step_allowed p nxt r = Some k"
  shows "route_step p nxt r = Inr (step_result r k)"
proof -
  have c: "classify p = Some k" and len: "length (rp_segments r) \<noteq> max_route_segments"
    and all: "fst k = Catch_all \<longrightarrow> \<not> nxt" and ph: "fst k \<noteq> Literal \<longrightarrow>
      rp_parameter_count r \<noteq> max_path_parameters \<and> \<not> name_used (rp_segments r) (snd k)"
    using assms by (auto simp: step_allowed_def name_used_iff split: option.splits if_splits)
  have ne: "p \<noteq> []" using c by (auto simp: classify_def)
  show ?thesis
  proof (cases "has_brace p")
    case False
    then show ?thesis using c route_step_literal [OF ne False len, of nxt] ne by (simp add: classify_def)
  next
    case True
    with c have b: "3 \<le> length p" "hd p = CHR ''{''" "last p = CHR ''}''"
      by (auto simp: classify_def split: if_splits)
    define inner where "inner = butlast (tl p)"
    have inner: "substr p 1 (length p - 2) = inner" "inner \<noteq> []"
      using length3_decomp [OF b(1)] by (simp_all add: inner_def)
    have nostar: "valid_parameter_name inner \<Longrightarrow> hd inner \<noteq> CHR ''*''"
      by (metis inner(2) valid_parameter_name_clean(3) hd_in_set)
    have "(k = (Parameter, inner) \<and> valid_parameter_name inner) \<or>
      (k = (Catch_all, tl inner) \<and> hd inner = CHR ''*'' \<and> valid_parameter_name (tl inner))"
      using c True ne b by (auto simp: classify_def inner_def [symmetric] split: if_splits)
    then show ?thesis using b len ne inner nostar all ph
      by (auto simp: route_step_def Let_def drop_Suc add_segment_def step_result_def segment_of_def)
  qed
qed

lemma route_step_cases:
  "route_step p nxt r = (case step_allowed p nxt r of
      None \<Rightarrow> route_step p nxt r | Some k \<Rightarrow> Inr (step_result r k))"
  by (auto simp: route_step_complete split: option.splits)

lemma route_step_error:
  assumes "route_step p nxt r = Inl r'" "rp_error r = No_route_error"
  shows "rp_error r' \<noteq> No_route_error \<and> rp_segments r' = rp_segments r
    \<and> rp_parameter_count r' = rp_parameter_count r"
  using assms by (auto simp: route_step_def Let_def split: if_splits)


section \<open>The parser accepts the grammar\<close>

interpretation route_scan: separator_scan "CHR ''/''" route_step "\<lambda>r. r" parse_loop
  by unfold_locales (auto simp: parse_loop.simps split: option.splits sum.splits)

definition fits :: "(segment_kind \<times> string) list \<Rightarrow> (segment_kind \<times> string) list \<Rightarrow> bool" where
  "fits K ks \<longleftrightarrow> length K + length ks \<le> max_route_segments \<and>
     length (placeholder_names (K @ ks)) \<le> max_path_parameters \<and>
     distinct (placeholder_names (K @ ks)) \<and> (\<forall>k \<in> set (butlast ks). fst k \<noteq> Catch_all)"

definition pattern_inv :: "route_pattern \<Rightarrow> bool" where
  "pattern_inv r \<longleftrightarrow> fits (segment_keys (rp_segments r)) [] \<and>
     rp_parameter_count r = length (placeholder_names (segment_keys (rp_segments r)))"

definition extend :: "route_pattern \<Rightarrow> (segment_kind \<times> string) list \<Rightarrow> route_pattern" where
  "extend r ks = r\<lparr>rp_segments := rp_segments r @ map segment_of ks,
     rp_parameter_count := rp_parameter_count r + length (placeholder_names ks)\<rparr>"

lemma classify_short: "classify p = Some k \<Longrightarrow> length (snd k) \<le> length p"
  using classify_show [of p k] by (cases k; cases "fst k") auto

lemma segment_keys_of: "\<forall>k \<in> set ks. length (snd k) \<le> 255 \<Longrightarrow> segment_keys (map segment_of ks) = ks"
  by (induction ks) (auto simp: segment_of_def view_fixed_substring)

lemma placeholder_names_Cons:
  "placeholder_names (k # ks) = placeholder_names [k] @ placeholder_names ks"
  by (simp add: placeholder_names_def)

lemma step_allowed_iff:
  assumes "pattern_inv r"
  shows "step_allowed p nxt r = Some k \<longleftrightarrow> classify p = Some k \<and>
     fits (segment_keys (rp_segments r)) [k] \<and> (fst k = Catch_all \<longrightarrow> \<not> nxt)"
  using assms
  by (auto simp: step_allowed_def pattern_inv_def fits_def split: option.splits if_splits)

lemma fits_Cons:
  "fits K (k # ks) \<longleftrightarrow> fits K [k] \<and> fits (K @ [k]) ks \<and> (fst k = Catch_all \<longrightarrow> ks = [])"
  unfolding fits_def placeholder_names_simps placeholder_names_Cons [of k ks]
  by (cases "ks = []") auto

lemma step_result_inv:
  assumes "pattern_inv r" "fits (segment_keys (rp_segments r)) [k]" "length (snd k) \<le> 255"
  shows "pattern_inv (step_result r k)"
    and "segment_keys (rp_segments (step_result r k)) = segment_keys (rp_segments r) @ [k]"
  using assms segment_keys_of [of "[k]"]
  by (auto simp: pattern_inv_def step_result_def fits_def)

lemma extend_step: "extend (step_result r k) ks = extend r (k # ks)"
  unfolding extend_def step_result_def placeholder_names_Cons [of k ks] by simp

lemma extend_Nil [simp]: "extend r [] = r"
  by (simp add: extend_def)

lemma scan_complete:
  assumes "map classify ps = map Some ks" "fits (segment_keys (rp_segments r)) ks"
    "pattern_inv r" "\<forall>p \<in> set ps. length p \<le> 255"
  shows "scan_pieces route_step (\<lambda>r. r) ps r = extend r ks"
  using assms
proof (induction ps arbitrary: r ks)
  case (Cons p ps)
  then obtain k ks' where ks: "ks = k # ks'" "classify p = Some k" "map classify ps = map Some ks'"
    by auto
  note f = Cons.prems(2) [unfolded ks(1), THEN fits_Cons [THEN iffD1]]
  have emp: "ks' = [] \<longleftrightarrow> ps = []" using ks(3) by (metis list.map_disc_iff)
  have k255: "length (snd k) \<le> 255" using classify_short [OF ks(2)] Cons.prems(4) by auto
  have "step_allowed p (ps \<noteq> []) r = Some k"
    using step_allowed_iff [OF Cons.prems(3)] ks f emp by auto
  moreover have "scan_pieces route_step (\<lambda>r. r) ps (step_result r k) = extend (step_result r k) ks'"
    using Cons.IH [OF ks(3)] step_result_inv [OF Cons.prems(3) _ k255] f Cons.prems(4) by simp
  ultimately show ?case by (simp add: route_step_complete extend_step ks(1))
qed simp

lemma scan_sound:
  assumes "route_valid (scan_pieces route_step (\<lambda>r. r) ps r)" "route_valid r"
    "pattern_inv r" "\<forall>p \<in> set ps. length p \<le> 255"
  shows "\<exists>ks. map classify ps = map Some ks \<and> fits (segment_keys (rp_segments r)) ks"
  using assms
proof (induction ps arbitrary: r)
  case Nil
  then show ?case by (simp add: pattern_inv_def)
next
  case (Cons p ps)
  obtain r1 where r1: "route_step p (ps \<noteq> []) r = Inr r1"
  proof (cases "route_step p (ps \<noteq> []) r")
    case (Inl r')
    with Cons.prems(1,2) route_step_error [OF Inl] show ?thesis by (simp add: route_valid_def)
  qed
  then obtain k where k: "step_allowed p (ps \<noteq> []) r = Some k" "r1 = step_result r k"
    using route_step_sound by blast
  then have c: "classify p = Some k" and f: "fits (segment_keys (rp_segments r)) [k]"
    and nx: "fst k = Catch_all \<longrightarrow> ps = []" using step_allowed_iff [OF Cons.prems(3)] by auto
  have "length (snd k) \<le> 255" using classify_short [OF c] Cons.prems(4) by auto
  note inv = step_result_inv [OF Cons.prems(3) f this]
  have "route_valid (step_result r k)" using Cons.prems(2) by (simp add: step_result_def route_valid_def)
  then obtain ks where ks: "map classify ps = map Some ks" "fits (segment_keys (rp_segments r) @ [k]) ks"
    using Cons.IH [of "step_result r k"] Cons.prems(1,4) r1 k(2) inv by auto
  moreover have "fits (segment_keys (rp_segments r)) (k # ks)"
    by (rule fits_Cons [THEN iffD2]) (use f ks nx in auto)
  ultimately show ?case using c by (metis list.simps(9))
qed

text \<open>
  \<open>route_grammar s ks\<close>: the pattern text \<open>s\<close> denotes the segments \<open>ks\<close>. This is the
  documented grammar, read off the pieces between the slashes.
\<close>

definition route_grammar :: "string \<Rightarrow> (segment_kind \<times> string) list \<Rightarrow> bool" where
  "route_grammar s ks \<longleftrightarrow> (s = ''/'' \<and> ks = []) \<or>
     (\<exists>r. s = CHR ''/'' # r \<and> r \<noteq> [] \<and> map classify (split_on (CHR ''/'') r) = map Some ks \<and> fits [] ks)"

lemma split_on_piece_length: "p \<in> set (split_on c s) \<Longrightarrow> length p \<le> length s"
proof (induction s arbitrary: p)
  case (Cons x xs)
  then show ?case by (cases "split_on c xs") (fastforce split: if_splits)+
qed simp

lemma classify_not_Nil: "classify [] = None"
  by (simp add: classify_def)

lemma grammar_last:
  assumes "map classify (split_on (CHR ''/'') r) = map Some ks"
  shows "r \<noteq> []" "last r \<noteq> CHR ''/''"
proof -
  have "last (split_on (CHR ''/'') r) \<noteq> []"
    using assms by (metis classify_not_Nil last_map option.distinct(1) split_on_not_Nil map_is_Nil_conv)
  then show "r \<noteq> []" by auto
  then show "last r \<noteq> CHR ''/''"
    using \<open>last (split_on (CHR ''/'') r) \<noteq> []\<close> last_split_on by blast
qed

lemma parse_route_parsed:
  assumes "view path = CHR ''/'' # r" "r \<noteq> []" "last r \<noteq> CHR ''/''"
  shows "parse_route path = scan_pieces route_step (\<lambda>r. r) (split_on (CHR ''/'') r)
     \<lparr>rp_source = path, rp_segments = [], rp_parameter_count = 0, rp_error = No_route_error\<rparr>"
  using assms route_scan.scan_eq_pieces [of 1 "view path"] by (simp add: parse_route_def Let_def)

lemma initial_inv:
  "pattern_inv \<lparr>rp_source = path, rp_segments = [], rp_parameter_count = 0, rp_error = e\<rparr>"
  by (simp add: pattern_inv_def fits_def)

lemma parse_route_valid_iff:
  assumes "wf_fixed_string path"
  shows "route_valid (parse_route path) \<longleftrightarrow> (\<exists>ks. route_grammar (view path) ks)"
proof (cases "\<exists>r. view path = CHR ''/'' # r \<and> r \<noteq> [] \<and> last r \<noteq> CHR ''/''")
  case True
  then obtain r where r: "view path = CHR ''/'' # r" "r \<noteq> []" "last r \<noteq> CHR ''/''" by blast
  let ?i = "\<lparr>rp_source = path, rp_segments = [], rp_parameter_count = 0, rp_error = No_route_error\<rparr>"
  have len: "length r \<le> 255" using wf_view_length [OF assms] r(1) assms
    by (simp add: wf_fixed_string_def annotation_text_capacity_def)
  then have short: "\<forall>p \<in> set (split_on (CHR ''/'') r). length p \<le> 255"
    using split_on_piece_length by (meson le_trans)
  have "route_valid (scan_pieces route_step (\<lambda>r. r) (split_on (CHR ''/'') r) ?i) \<longleftrightarrow>
      (\<exists>ks. map classify (split_on (CHR ''/'') r) = map Some ks \<and> fits [] ks)"
    using scan_sound [of _ ?i, OF _ _ initial_inv short]
      scan_complete [of _ _ ?i, OF _ _ initial_inv short]
    by (auto simp: route_valid_def extend_def)
  with r show ?thesis by (simp add: parse_route_parsed route_grammar_def)
next
  case False
  then have "route_valid (parse_route path) \<longleftrightarrow> view path = ''/''"
    by (cases "view path") (auto simp: parse_route_def route_valid_def Let_def split: if_splits)
  moreover have "(\<exists>ks. route_grammar (view path) ks) \<longleftrightarrow> view path = ''/''"
    using False grammar_last by (auto simp: route_grammar_def)
  ultimately show ?thesis by simp
qed

lemma parse_route_keys:
  assumes "wf_fixed_string path" "route_grammar (view path) ks"
  shows "rp_segments (parse_route path) = map segment_of ks"
    "segment_keys (rp_segments (parse_route path)) = ks"
    "rp_parameter_count (parse_route path) = length (placeholder_names ks)"
proof -
  have "rp_segments (parse_route path) = map segment_of ks \<and>
    segment_keys (map segment_of ks) = ks \<and>
    rp_parameter_count (parse_route path) = length (placeholder_names ks)"
  proof (cases "view path = ''/''")
    case True
    with assms(2) have "ks = []" by (auto simp: route_grammar_def)
    with True show ?thesis by (simp add: parse_route_def)
  next
    case False
    with assms(2) obtain r where r: "view path = CHR ''/'' # r" "r \<noteq> []"
      "map classify (split_on (CHR ''/'') r) = map Some ks" "fits [] ks"
      by (auto simp: route_grammar_def)
    have len: "length r \<le> 255" using wf_view_length [OF assms(1)] r(1) assms(1)
      by (simp add: wf_fixed_string_def annotation_text_capacity_def)
    then have short: "\<forall>p \<in> set (split_on (CHR ''/'') r). length p \<le> 255"
      using split_on_piece_length by (meson le_trans)
    have "k \<in> set ks \<Longrightarrow> length (snd k) \<le> 255" for k
    proof -
      assume "k \<in> set ks"
      then have "Some k \<in> set (map classify (split_on (CHR ''/'') r))" using r(3) by simp
      then obtain p where "p \<in> set (split_on (CHR ''/'') r)" "classify p = Some k" by auto
      then show ?thesis using short classify_short [of p k] by fastforce
    qed
    then have "segment_keys (map segment_of ks) = ks" using segment_keys_of by blast
    moreover have "parse_route path = extend
        \<lparr>rp_source = path, rp_segments = [], rp_parameter_count = 0, rp_error = No_route_error\<rparr> ks"
      using scan_complete [OF r(3) _ initial_inv short] r(4)
        parse_route_parsed [OF r(1,2) grammar_last(2) [OF r(3)]] by simp
    ultimately show ?thesis by (simp add: extend_def)
  qed
  then show "rp_segments (parse_route path) = map segment_of ks"
    "segment_keys (rp_segments (parse_route path)) = ks"
    "rp_parameter_count (parse_route path) = length (placeholder_names ks)" by simp_all
qed

text \<open>The text of a parsed pattern can be rebuilt from its segments.\<close>

fun render_route :: "(segment_kind \<times> string) list \<Rightarrow> string" where
  "render_route [] = ''/''"
| "render_route ks = CHR ''/'' # join_with (CHR ''/'') (map show_segment ks)"

lemma map_classify_show: "map classify ps = map Some ks \<Longrightarrow> map show_segment ks = ps"
  by (induction ps arbitrary: ks) (auto simp: classify_show)

lemma grammar_render: "route_grammar s ks \<Longrightarrow> render_route ks = s"
proof -
  assume g: "route_grammar s ks"
  show ?thesis
  proof (cases "s = ''/'' \<and> ks = []")
    case False
    with g obtain r where r: "s = CHR ''/'' # r" "map classify (split_on (CHR ''/'') r) = map Some ks"
      by (auto simp: route_grammar_def)
    have "map show_segment ks = split_on (CHR ''/'') r" by (rule map_classify_show [OF r(2)])
    moreover have "ks \<noteq> []" using r(2) by auto
    ultimately show ?thesis using r(1) by (cases ks) (auto simp del: list.map)
  qed auto
qed

lemma grammar_bounds:
  assumes "route_grammar s ks"
  shows "length ks \<le> 32" "length (placeholder_names ks) \<le> 16" "distinct (placeholder_names ks)"
    "\<forall>k \<in> set (butlast ks). fst k \<noteq> Catch_all"
  using assms by (auto simp: route_grammar_def fits_def max_route_segments_def max_path_parameters_def)

section \<open>Properties\<close>

text \<open>C22. \<open>parse_route\<close> accepts a literal exactly when the text is in the grammar of routes: a slash
  alone, or a slash before nonempty pieces between slashes, each a literal without braces, a named
  placeholder or, as the last piece only, a named catch-all, with at most 32 pieces, at most 16
  placeholders and no placeholder name twice.\<close>

theorem parse_route_grammar:
  assumes "fixed_string_lit s = Some f"
  shows "route_valid (parse_route f) \<longleftrightarrow> (\<exists>ks. route_grammar s ks)"
  using parse_route_valid_iff [OF fixed_string_lit_wf [OF assms]] fixed_string_lit_view [OF assms] by simp

theorem parse_route_grammar_witness:
  "(\<exists>ks. route_grammar ''/a/{id}/{*rest}'' ks) \<and> \<not> (\<exists>ks. route_grammar ''/{x}/{x}'' ks)"
proof -
  have a: "fixed_string_lit ''/a/{id}/{*rest}'' = Some (the (fixed_string_lit ''/a/{id}/{*rest}''))"
    and b: "fixed_string_lit ''/{x}/{x}'' = Some (the (fixed_string_lit ''/{x}/{x}''))"
    by (simp_all add: fixed_string_lit_def annotation_text_capacity_def)
  have "route_valid (parse_route (the (fixed_string_lit ''/a/{id}/{*rest}'')))"
    "\<not> route_valid (parse_route (the (fixed_string_lit ''/{x}/{x}'')))" by code_simp+
  then show ?thesis using parse_route_grammar [OF a] parse_route_grammar [OF b] by blast
qed

text \<open>C27. A valid parsed pattern keeps everything of its text and respects the fixed capacities: its
  segments render to the source, there are at most 32 segments and at most 16 placeholders, counted by
  \<open>parameter_count\<close> and with distinct names, and a catch-all is only ever the last segment.\<close>

theorem parse_route_faithful:
  assumes "fixed_string_lit s = Some f" "p = parse_route f" "route_valid p"
  shows "render_route (segment_keys (rp_segments p)) = s \<and> length (rp_segments p) \<le> 32 \<and>
    rp_parameter_count p = length (placeholder_names (segment_keys (rp_segments p))) \<and>
    rp_parameter_count p \<le> 16 \<and> distinct (placeholder_names (segment_keys (rp_segments p))) \<and>
    (\<forall>k \<in> set (butlast (segment_keys (rp_segments p))). fst k \<noteq> Catch_all)"
proof -
  have wf: "wf_fixed_string f" and s: "view f = s"
    using assms(1) by (simp_all add: fixed_string_lit_wf fixed_string_lit_view)
  then obtain ks where g: "route_grammar s ks" using parse_route_valid_iff [OF wf] assms(2,3) by blast
  note k = parse_route_keys [OF wf, of ks, unfolded s, OF g]
  show ?thesis using grammar_render [OF g] grammar_bounds [OF g] k
    by (auto simp: assms(2) segment_keys_def dest!: arg_cong [of _ _ length])
qed

theorem parse_route_faithful_witness:
  "render_route (segment_keys (rp_segments (parse_route (the (fixed_string_lit ''/a/{id}''))))) = ''/a/{id}''"
proof -
  have a: "fixed_string_lit ''/a/{id}'' = Some (the (fixed_string_lit ''/a/{id}''))"
    by (simp add: fixed_string_lit_def annotation_text_capacity_def)
  have "route_valid (parse_route (the (fixed_string_lit ''/a/{id}'')))" by code_simp
  then show ?thesis using parse_route_faithful [OF a refl] by blast
qed

end
