(* ===== verification/Flash_Route_Match.thy ===== *)
theory Flash_Route_Match
  imports Flash_Route_Props "HOL-Library.List_Lexorder"
begin

text \<open>
  Matching one pattern: the specification on the pieces of the path, that matching is the inverse
  of filling in the placeholders, that patterns of one shape match the same paths and have one
  hash, and that \<open>more_specific\<close> is the lexicographic order of the segment ranks.
\<close>

section \<open>Matching against the pieces of the path\<close>

fun spec_match :: "route_segment list \<Rightarrow> string list \<Rightarrow> path_capture list option" where
  "spec_match [] ps = (if ps = [] then Some [] else None)"
| "spec_match (e # es) ps =
     (if seg_kind e = Catch_all then
        (if join_with (CHR ''/'') ps = [] then None
         else Some [\<lparr>pc_name = view (seg_text e), pc_value = join_with (CHR ''/'') ps\<rparr>])
      else case ps of [] \<Rightarrow> None
        | p # ps' \<Rightarrow>
            if p = [] \<or> (seg_kind e = Literal \<and> p \<noteq> view (seg_text e)) then None
            else map_option
              (\<lambda>cs. if seg_kind e = Literal then cs
                    else \<lparr>pc_name = view (seg_text e), pc_value = p\<rparr> # cs)
              (spec_match es ps'))"

lemma match_segments_spec:
  "segs \<noteq> [] \<Longrightarrow> off \<le> length path \<Longrightarrow>
   match_segments segs path off caps =
     (case spec_match segs (split_on (CHR ''/'') (drop off path)) of
        None \<Rightarrow> no_match | Some cs \<Rightarrow> \<lparr>matched = True, captures = caps @ cs\<rparr>)"
proof (induction segs arbitrary: off caps)
  case (Cons e es)
  show ?case
  proof (cases "seg_kind e = Catch_all")
    case True
    then show ?thesis using Cons.prems(2) by auto
  next
    case nc: False
    show ?thesis
    proof (cases "str_find path (CHR ''/'') off")
      case None
      then have sp: "split_on (CHR ''/'') (drop off path) = [substr path off (length path - off)]"
        using split_on_find [OF Cons.prems(2)] by simp
      show ?thesis
      proof (cases es)
        case Nil
        then show ?thesis using nc None sp Cons.prems(2) by (auto simp: Let_def)
      next
        case (Cons e' es')
        then show ?thesis using nc None sp Cons.prems(2) by (auto simp: Let_def)
      qed
    next
      case (Some k)
      then have k: "Suc k \<le> length path" by (auto dest: str_find_bound)
      have sp: "split_on (CHR ''/'') (drop off path) =
          substr path off (k - off) # split_on (CHR ''/'') (drop (Suc k) path)"
        using split_on_find [OF Cons.prems(2)] Some by simp
      show ?thesis
      proof (cases "es = []")
        case True
        then show ?thesis using nc Some sp Cons.prems(2) by (auto simp: Let_def)
      next
        case False
        show ?thesis
          using nc Some sp Cons.prems(2) False Cons.IH [OF False k]
          by (auto simp: Let_def no_match_def split: option.splits)
      qed
    qed
  qed
qed simp

lemma match_route_spec:
  assumes "rp_segments p \<noteq> []"
  shows "match_route p path =
    (if route_valid p \<and> path \<noteq> [] \<and> hd path = CHR ''/'' \<and> \<not> (length path > 1 \<and> last path = CHR ''/'')
     then (case spec_match (rp_segments p) (split_on (CHR ''/'') (tl path)) of
        None \<Rightarrow> no_match | Some cs \<Rightarrow> \<lparr>matched = True, captures = cs\<rparr>)
     else no_match)"
proof -
  have "path \<noteq> [] \<Longrightarrow> 1 \<le> length path" by (cases path) auto
  then show ?thesis
    using assms match_segments_spec [OF assms, of 1 path "[]"]
    by (auto simp: match_route_def drop_Suc split: option.splits)
qed

section \<open>Matching inverts filling in\<close>

fun fill :: "route_segment list \<Rightarrow> string list \<Rightarrow> string list" where
  "fill [] vs = []"
| "fill (e # es) vs =
     (if seg_kind e = Literal then view (seg_text e) # fill es vs
      else (case vs of [] \<Rightarrow> [] # fill es [] | v # vs' \<Rightarrow> v # fill es vs'))"

definition fill_path :: "route_segment list \<Rightarrow> string list \<Rightarrow> string" where
  "fill_path segs vs = CHR ''/'' # join_with (CHR ''/'') (fill segs vs)"

definition names_of :: "route_segment list \<Rightarrow> string list" where
  "names_of segs = placeholder_names (segment_keys segs)"

lemma names_of_simps [simp]:
  "names_of [] = []"
  "names_of (e # es) = (if seg_kind e = Literal then names_of es else view (seg_text e) # names_of es)"
  by (simp_all add: names_of_def placeholder_names_def)

definition catch_all_last :: "route_segment list \<Rightarrow> bool" where
  "catch_all_last segs \<longleftrightarrow> (\<forall>e \<in> set (butlast segs). seg_kind e \<noteq> Catch_all)"

lemma catch_all_last_Cons:
  "catch_all_last (e # es) \<longleftrightarrow> catch_all_last es \<and> (es \<noteq> [] \<longrightarrow> seg_kind e \<noteq> Catch_all)"
  by (auto simp: catch_all_last_def)

lemma join_with_Cons: "ps \<noteq> [] \<Longrightarrow> join_with c (p # ps) = p @ c # join_with c ps"
  by (cases ps) auto

lemma fill_Nil_iff [simp]: "fill segs vs = [] \<longleftrightarrow> segs = []"
  by (cases segs) (auto split: list.splits)

lemma spec_match_sound:
  assumes "spec_match segs ps = Some cs" "catch_all_last segs"
  shows "map pc_name cs = names_of segs
    \<and> join_with (CHR ''/'') (fill segs (map pc_value cs)) = join_with (CHR ''/'') ps
    \<and> (\<forall>c \<in> set cs. pc_value c \<noteq> [])"
  using assms
proof (induction segs arbitrary: ps cs)
  case (Cons e es)
  show ?case
  proof (cases "seg_kind e = Catch_all")
    case True
    with Cons.prems have "es = []" by (auto simp: catch_all_last_Cons)
    with True Cons.prems show ?thesis by (auto split: if_splits)
  next
    case nc: False
    obtain p ps' where ps: "ps = p # ps'" using Cons.prems(1) nc by (cases ps) auto
    obtain cs' where cs': "spec_match es ps' = Some cs'" "p \<noteq> []"
      "seg_kind e = Literal \<Longrightarrow> p = view (seg_text e)"
      "cs = (if seg_kind e = Literal then cs' else \<lparr>pc_name = view (seg_text e), pc_value = p\<rparr> # cs')"
      using Cons.prems(1) nc ps by (auto split: if_splits)
    note ih = Cons.IH [OF cs'(1)]
    have cl: "catch_all_last es" using Cons.prems(2) by (simp add: catch_all_last_Cons)
    have "es = [] \<longleftrightarrow> ps' = []"
    proof
      assume "ps' = []" then show "es = []"
        using cs'(1) by (cases es) (auto split: if_splits)
    qed (use cs'(1) in \<open>auto split: if_splits\<close>)
    moreover have "fill (e # es) (map pc_value cs) = p # fill es (map pc_value cs')"
      using cs' by auto
    ultimately show ?thesis using ih [OF cl] cs' ps
      by (cases "es = []") (auto simp: join_with_Cons)
  qed
qed (auto split: if_splits)

lemma spec_match_split_join:
  assumes "catch_all_last segs" "length vs = length (names_of segs)" "\<forall>v \<in> set vs. v \<noteq> []"
    "\<forall>e \<in> set segs. seg_kind e = Literal \<longrightarrow> view (seg_text e) \<noteq> [] \<and> CHR ''/'' \<notin> set (view (seg_text e))"
    "\<forall>(e, v) \<in> set (zip (filter (\<lambda>e. seg_kind e \<noteq> Literal) segs) vs).
        seg_kind e = Parameter \<longrightarrow> CHR ''/'' \<notin> set v"
    "segs \<noteq> []"
  shows "spec_match segs (split_on (CHR ''/'') (join_with (CHR ''/'') (fill segs vs))) =
     Some (map2 (\<lambda>n v. \<lparr>pc_name = n, pc_value = v\<rparr>) (names_of segs) vs)"
  using assms
proof (induction segs arbitrary: vs)
  case (Cons e es)
  have cl: "catch_all_last es" using Cons.prems(1) by (simp add: catch_all_last_Cons)
  show ?case
  proof (cases "seg_kind e = Catch_all")
    case True
    with Cons.prems(1) have "es = []" by (auto simp: catch_all_last_Cons)
    with True Cons.prems(2,3) show ?thesis by (cases vs) auto
  next
    case nc: False
    define p where "p = hd (fill (e # es) vs)"
    define vs' where "vs' = (if seg_kind e = Literal then vs else tl vs)"
    have ve: "seg_kind e \<noteq> Literal \<Longrightarrow> vs \<noteq> []" using Cons.prems(2) by (cases vs) auto
    have fl: "fill (e # es) vs = p # fill es vs'" using ve
      by (cases vs) (auto simp: p_def vs'_def)
    have kind: "seg_kind e = Literal \<or> seg_kind e = Parameter" using nc by (cases "seg_kind e") auto
    have p: "CHR ''/'' \<notin> set p" "p \<noteq> []" "seg_kind e = Literal \<Longrightarrow> p = view (seg_text e)"
      "seg_kind e \<noteq> Literal \<Longrightarrow> p = hd vs"
      using kind Cons.prems(2-5) ve by (cases vs; auto simp: p_def)+
    have rest: "length vs' = length (names_of es)" "\<forall>v \<in> set vs'. v \<noteq> []"
      "\<forall>(e, v) \<in> set (zip (filter (\<lambda>e. seg_kind e \<noteq> Literal) es) vs').
        seg_kind e = Parameter \<longrightarrow> CHR ''/'' \<notin> set v"
    proof -
      show "length vs' = length (names_of es)"
        using Cons.prems(2) by (simp add: vs'_def split: if_splits)
      show "\<forall>v \<in> set vs'. v \<noteq> []"
        using Cons.prems(3) by (cases vs) (simp_all add: vs'_def)
      show "\<forall>(e, v) \<in> set (zip (filter (\<lambda>e. seg_kind e \<noteq> Literal) es) vs').
          seg_kind e = Parameter \<longrightarrow> CHR ''/'' \<notin> set v"
        using Cons.prems(5) ve by (cases "seg_kind e = Literal"; cases vs) (simp_all add: vs'_def)
    qed
    show ?thesis
    proof (cases "es = []")
      case True
      then show ?thesis using nc fl p rest(1) ve
        by (cases vs) (auto simp: split_on_clean vs'_def)
    next
      case False
      have "spec_match es (split_on (CHR ''/'') (join_with (CHR ''/'') (fill es vs'))) =
         Some (map2 (\<lambda>n v. \<lparr>pc_name = n, pc_value = v\<rparr>) (names_of es) vs')"
        using Cons.IH [OF cl rest(1,2) _ rest(3) False] Cons.prems(4) by simp
      moreover have "split_on (CHR ''/'') (join_with (CHR ''/'') (fill (e # es) vs)) =
          p # split_on (CHR ''/'') (join_with (CHR ''/'') (fill es vs'))"
        using p(1) False by (simp only: fl) (simp add: join_with_Cons split_on_append)
      ultimately show ?thesis using nc p ve by (cases vs) (auto simp: vs'_def)
    qed
  qed
qed simp

text \<open>The values a pattern can capture, and the literals of a pattern that parsing accepts.\<close>

definition capture_ok :: "route_segment \<times> string \<Rightarrow> bool" where
  "capture_ok ev \<longleftrightarrow> snd ev \<noteq> [] \<and>
     (if seg_kind (fst ev) = Parameter then CHR ''/'' \<notin> set (snd ev) else last (snd ev) \<noteq> CHR ''/'')"

definition path_values_ok :: "route_segment list \<Rightarrow> string list \<Rightarrow> bool" where
  "path_values_ok segs vs \<longleftrightarrow> length vs = length (names_of segs) \<and>
     list_all capture_ok (zip (filter (\<lambda>e. seg_kind e \<noteq> Literal) segs) vs)"

definition literals_ok :: "route_segment list \<Rightarrow> bool" where
  "literals_ok segs \<longleftrightarrow> (\<forall>e \<in> set segs. seg_kind e = Literal \<longrightarrow>
     view (seg_text e) \<noteq> [] \<and> CHR ''/'' \<notin> set (view (seg_text e)))"

lemma names_of_length: "length (names_of segs) = length (filter (\<lambda>e. seg_kind e \<noteq> Literal) segs)"
  by (induction segs) simp_all

lemma literals_ok_Cons [simp]: "literals_ok (e # es) \<longleftrightarrow>
   (seg_kind e = Literal \<longrightarrow> view (seg_text e) \<noteq> [] \<and> CHR ''/'' \<notin> set (view (seg_text e))) \<and> literals_ok es"
  by (auto simp: literals_ok_def)

lemma path_values_ok_Nil [simp]: "path_values_ok [] vs \<longleftrightarrow> vs = []"
  by (auto simp: path_values_ok_def)

lemma path_values_ok_Cons [simp]: "path_values_ok (e # es) vs \<longleftrightarrow>
   (if seg_kind e = Literal then path_values_ok es vs
    else case vs of [] \<Rightarrow> False | v # vs' \<Rightarrow> capture_ok (e, v) \<and> path_values_ok es vs')"
  by (cases vs) (auto simp: path_values_ok_def)

lemma path_values_ok_parts:
  assumes "path_values_ok segs vs"
  shows "length vs = length (names_of segs)" "\<forall>v \<in> set vs. v \<noteq> []"
    "\<forall>(e, v) \<in> set (zip (filter (\<lambda>e. seg_kind e \<noteq> Literal) segs) vs).
        seg_kind e = Parameter \<longrightarrow> CHR ''/'' \<notin> set v"
proof -
  have l: "length vs = length (filter (\<lambda>e. seg_kind e \<noteq> Literal) segs)"
    using assms by (simp add: path_values_ok_def names_of_length)
  have ok: "\<forall>x \<in> set (zip (filter (\<lambda>e. seg_kind e \<noteq> Literal) segs) vs). capture_ok x"
    using assms by (simp add: path_values_ok_def list_all_iff)
  show "length vs = length (names_of segs)" using assms by (simp add: path_values_ok_def)
  show "\<forall>v \<in> set vs. v \<noteq> []"
    using ok l by (metis capture_ok_def in_set_impl_in_set_zip2 snd_conv)
  show "\<forall>(e, v) \<in> set (zip (filter (\<lambda>e. seg_kind e \<noteq> Literal) segs) vs).
        seg_kind e = Parameter \<longrightarrow> CHR ''/'' \<notin> set v"
    using ok by (force simp: capture_ok_def)
qed

lemma last_not_in: "last s = c \<Longrightarrow> c \<notin> set s \<Longrightarrow> s = []"
  by (metis last_in_set)

lemma fill_join_last:
  assumes "path_values_ok segs vs" "literals_ok segs" "segs \<noteq> []"
  shows "join_with (CHR ''/'') (fill segs vs) \<noteq> [] \<and> last (join_with (CHR ''/'') (fill segs vs)) \<noteq> CHR ''/''"
  using assms
proof (induction segs arbitrary: vs)
  case (Cons e es)
  define p where "p = hd (fill (e # es) vs)"
  define vs' where "vs' = (if seg_kind e = Literal then vs else tl vs)"
  have p: "fill (e # es) vs = p # fill es vs'" "path_values_ok es vs'" "p \<noteq> []" "last p \<noteq> CHR ''/''"
    using Cons.prems(1,2)
    by (auto simp: p_def vs'_def capture_ok_def dest: last_not_in split: list.splits if_splits)
  show ?case
  proof (cases "es = []")
    case False
    with Cons.IH [OF p(2)] Cons.prems(2) p(1) show ?thesis by (simp add: join_with_Cons)
  qed (use p in simp)
qed simp

lemma spec_match_join_Nil:
  "spec_match segs ps = Some cs \<Longrightarrow> ps \<noteq> [] \<Longrightarrow> join_with (CHR ''/'') ps \<noteq> []"
  by (cases segs; cases ps; cases "tl ps") (auto split: if_splits)

lemma spec_match_values:
  assumes "spec_match segs ps = Some cs" "catch_all_last segs" "\<forall>p \<in> set ps. CHR ''/'' \<notin> set p"
    "last (join_with (CHR ''/'') ps) \<noteq> CHR ''/''"
  shows "path_values_ok segs (map pc_value cs)"
  using assms
proof (induction segs arbitrary: ps cs)
  case (Cons e es)
  show ?case
  proof (cases "seg_kind e = Catch_all")
    case True
    with Cons.prems have "es = []" by (auto simp: catch_all_last_Cons)
    with True Cons.prems show ?thesis by (auto simp: capture_ok_def split: if_splits)
  next
    case nc: False
    obtain p ps' where ps: "ps = p # ps'" using Cons.prems(1) nc by (cases ps) auto
    obtain cs' where cs': "spec_match es ps' = Some cs'" "p \<noteq> []"
      "cs = (if seg_kind e = Literal then cs' else \<lparr>pc_name = view (seg_text e), pc_value = p\<rparr> # cs')"
      using Cons.prems(1) nc ps by (auto split: if_splits)
    have "path_values_ok es (map pc_value cs')"
    proof (cases "ps' = []")
      case True
      with cs'(1) have "es = []" by (cases es) (auto split: if_splits)
      with cs'(1) True show ?thesis by simp
    next
      case False
      have "join_with (CHR ''/'') ps' \<noteq> [] \<Longrightarrow> last (join_with (CHR ''/'') ps') \<noteq> CHR ''/''"
        using Cons.prems(4) ps False by (simp add: join_with_Cons)
      then show ?thesis using Cons.IH [OF cs'(1)] Cons.prems(2,3) ps spec_match_join_Nil [OF cs'(1)] False
        by (auto simp: catch_all_last_Cons)
    qed
    moreover have "seg_kind e = Parameter \<or> seg_kind e = Literal" using nc by (cases "seg_kind e") auto
    ultimately show ?thesis using cs' Cons.prems(3) ps by (auto simp: capture_ok_def)
  qed
qed (auto split: if_splits)

section \<open>Shapes\<close>

definition shape_of :: "route_segment list \<Rightarrow> (segment_kind \<times> string) list" where
  "shape_of segs = map (\<lambda>s. (seg_kind s, if seg_kind s = Literal then view (seg_text s) else [])) segs"

lemma shape_of_simps [simp]:
  "shape_of [] = []"
  "shape_of (s # ss) =
     (seg_kind s, if seg_kind s = Literal then view (seg_text s) else []) # shape_of ss"
  by (simp_all add: shape_of_def)

lemma shape_of_length: "shape_of l = shape_of r \<Longrightarrow> length l = length r"
  by (drule arg_cong [of _ _ length]) (simp add: shape_of_def)

lemma same_route_shape_iff:
  "same_route_shape a b \<longleftrightarrow> shape_of (rp_segments a) = shape_of (rp_segments b)"
proof -
  have "length l = length r \<Longrightarrow> same_shape_loop l r \<longleftrightarrow> shape_of l = shape_of r" for l r
  proof (induction l r rule: list_induct2)
    case (Cons x xs y ys)
    then show ?case by (cases "seg_kind x"; cases "seg_kind y") (simp_all add: fs_eq_def)
  qed simp
  then show ?thesis unfolding same_route_shape_def
    by (cases "length (rp_segments a) = length (rp_segments b)") (auto dest: shape_of_length)
qed

lemma hash_segment_shape:
  "hash_segment s = hash_segment t" if "shape_of [s] = shape_of [t]"
proof -
  have "seg_kind s = seg_kind t" "seg_kind s = Literal \<Longrightarrow> view (seg_text s) = view (seg_text t)"
    using that by (simp_all split: if_splits)
  then show ?thesis by (cases "seg_kind s = Literal") (simp_all add: hash_segment_def fun_eq_iff)
qed

lemma hash_fold_shape:
  "shape_of l = shape_of r \<Longrightarrow> fold hash_segment l h = fold hash_segment r h"
proof (induction l arbitrary: r h)
  case (Cons s l)
  then obtain t r' where r: "r = t # r'" "shape_of [s] = shape_of [t]" "shape_of l = shape_of r'"
    by (cases r) (auto simp: shape_of_def)
  with Cons.IH [OF r(3)] hash_segment_shape [OF r(2)] show ?case by simp
qed (simp add: shape_of_def)

lemma same_shape_same_hash:
  assumes "same_route_shape a b"
  shows "route_shape_hash a = route_shape_hash b"
proof -
  have s: "shape_of (rp_segments a) = shape_of (rp_segments b)"
    using assms by (simp add: same_route_shape_iff)
  then have "length (rp_segments a) = length (rp_segments b)" by (rule shape_of_length)
  with hash_fold_shape [OF s] show ?thesis by (simp add: route_shape_hash_def)
qed

lemma spec_match_shape:
  "shape_of l = shape_of r \<Longrightarrow> map_option (map pc_value) (spec_match l ps) = map_option (map pc_value) (spec_match r ps)"
proof (induction l arbitrary: r ps)
  case (Cons e es)
  then obtain e' es' where r: "r = e' # es'" "shape_of es = shape_of es'" "seg_kind e = seg_kind e'"
    "seg_kind e = Literal \<Longrightarrow> view (seg_text e) = view (seg_text e')"
    by (cases r) (auto simp: shape_of_def split: if_splits)
  show ?case
  proof (cases ps)
    case (Cons p ps')
    have "map_option (map pc_value) (spec_match es ps') = map_option (map pc_value) (spec_match es' ps')"
      by (rule Cons.IH [OF r(2)])
    then show ?thesis using r Cons
      by (cases "spec_match es ps'"; cases "spec_match es' ps'") auto
  qed (use r in auto)
qed (simp add: shape_of_def)

section \<open>Specificity\<close>

definition ranks :: "route_pattern \<Rightarrow> nat list" where
  "ranks p = map (\<lambda>s. segment_precedence (seg_kind s)) (rp_segments p)"

lemma Nil_less_map: "[] < map f xs \<longleftrightarrow> xs \<noteq> []" for f :: "'a \<Rightarrow> nat"
  by (cases xs) simp_all

lemma more_specific_iff: "more_specific a b \<longleftrightarrow> ranks b < ranks a"
proof -
  have "(case specific_loop xs ys of Some v \<Rightarrow> v | None \<Rightarrow> length ys < length xs) \<longleftrightarrow>
     map (\<lambda>s. segment_precedence (seg_kind s)) ys < map (\<lambda>s. segment_precedence (seg_kind s)) xs"
    for xs ys :: "route_segment list"
  proof (induction xs ys rule: specific_loop.induct)
    case (1 c cs r rs)
    then show ?case by (auto simp: Let_def split: option.splits)
  qed (auto simp: Nil_less_map)
  then show ?thesis by (simp add: more_specific_def ranks_def)
qed

text \<open>
  Two patterns that match one path and have equal ranks have equal shapes: where both are literals
  they equal the same piece of the path.
\<close>

lemma spec_match_rank_shape:
  assumes "spec_match l ps = Some cs" "spec_match r ps = Some ds"
    "map (\<lambda>s. segment_precedence (seg_kind s)) l = map (\<lambda>s. segment_precedence (seg_kind s)) r"
    "catch_all_last l" "catch_all_last r"
  shows "shape_of l = shape_of r"
  using assms
proof (induction l arbitrary: r ps cs ds)
  case Nil
  then show ?case by (simp add: shape_of_def)
next
  case (Cons e es)
  then obtain e' es' where r: "r = e' # es'"
    "segment_precedence (seg_kind e) = segment_precedence (seg_kind e')"
    "map (\<lambda>s. segment_precedence (seg_kind s)) es = map (\<lambda>s. segment_precedence (seg_kind s)) es'"
    by (cases r) auto
  have k: "seg_kind e = seg_kind e'"
    using r(2) by (cases "seg_kind e"; cases "seg_kind e'") auto
  have cl: "catch_all_last es" "catch_all_last es'"
    using Cons.prems(4,5) r(1) by (simp_all add: catch_all_last_Cons)
  show ?case
  proof (cases "seg_kind e = Catch_all")
    case True
    with Cons.prems(4,5) r(1) k have "es = []" "es' = []" by (auto simp: catch_all_last_Cons)
    with True k r(1) show ?thesis by (simp add: shape_of_def)
  next
    case False
    obtain p ps' where ps: "ps = p # ps'" using Cons.prems(1) False by (cases ps) auto
    obtain cs' ds' where "spec_match es ps' = Some cs'" "spec_match es' ps' = Some ds'"
      using Cons.prems(1,2) False k ps r(1) by (auto split: if_splits)
    then have "shape_of es = shape_of es'" using Cons.IH r(3) cl by blast
    moreover have "seg_kind e = Literal \<Longrightarrow> view (seg_text e) = view (seg_text e')"
      using Cons.prems(1,2) False k ps r(1) by (auto split: if_splits)
    ultimately show ?thesis using k r(1) by (simp add: shape_of_def)
  qed
qed

section \<open>Properties\<close>

lemma parse_route_literals_ok:
  assumes "wf_fixed_string f" "route_valid (parse_route f)"
  shows "literals_ok (rp_segments (parse_route f))" "catch_all_last (rp_segments (parse_route f))"
proof -
  obtain ks where g: "route_grammar (view f) ks" using parse_route_valid_iff assms by blast
  have "t \<noteq> [] \<and> CHR ''/'' \<notin> set t" if "(Literal, t) \<in> set ks" for t
  proof -
    have "ks \<noteq> []" using that by auto
    with g obtain r where r: "map classify (split_on (CHR ''/'') r) = map Some ks"
      unfolding route_grammar_def by blast
    then have "Some (Literal, t) \<in> set (map classify (split_on (CHR ''/'') r))" using that by simp
    then obtain p where p: "p \<in> set (split_on (CHR ''/'') r)" "classify p = Some (Literal, t)" by auto
    then show ?thesis using split_on_pieces [OF p(1)] by (auto simp: classify_def Let_def split: if_splits)
  qed
  then have "\<forall>k \<in> set (segment_keys (rp_segments (parse_route f))).
      fst k = Literal \<longrightarrow> snd k \<noteq> [] \<and> CHR ''/'' \<notin> set (snd k)"
    unfolding parse_route_keys(2) [OF assms(1) g] by (metis prod.collapse)
  then show "literals_ok (rp_segments (parse_route f))"
    by (auto simp: literals_ok_def segment_keys_def)
  show "catch_all_last (rp_segments (parse_route f))"
    using grammar_bounds(4) [OF g] parse_route_keys(2) [OF assms(1) g]
    by (auto simp: catch_all_last_def segment_keys_def map_butlast [symmetric])
qed

lemma match_route_empty:
  "rp_segments p = [] \<Longrightarrow> route_valid p \<Longrightarrow>
   match_route p path = (if path = ''/'' then \<lparr>matched = True, captures = []\<rparr> else no_match)"
  by (cases path; cases "tl path") (auto simp: match_route_def no_match_def)

text \<open>C28. Matching inverts filling in: a path matches a parsed pattern with the values \<open>vs\<close> exactly
  when the values fit the placeholders (none empty, none with a slash for a parameter, none ending in a
  slash for a catch-all) and the path is the pattern with them filled in; the captures carry the names
  of the placeholders in order.\<close>

theorem match_route_fill:
  assumes "fixed_string_lit s = Some f" "p = parse_route f" "route_valid p"
  shows "match_route p path = \<lparr>matched = True, captures = cs\<rparr> \<longleftrightarrow>
    map pc_name cs = names_of (rp_segments p) \<and> path_values_ok (rp_segments p) (map pc_value cs) \<and>
    path = fill_path (rp_segments p) (map pc_value cs)"
proof -
  let ?segs = "rp_segments p"
  have wf: "wf_fixed_string f" using assms(1) by (rule fixed_string_lit_wf)
  have lit: "literals_ok ?segs" and cl: "catch_all_last ?segs"
    using parse_route_literals_ok [OF wf] assms(2,3) by simp_all
  show ?thesis
  proof (cases "?segs = []")
    case True
    then show ?thesis using assms(3) by (auto simp: match_route_empty no_match_def fill_path_def)
  next
    case False
    show ?thesis
    proof
      assume m: "match_route p path = \<lparr>matched = True, captures = cs\<rparr>"
      then have c: "path \<noteq> [] \<and> hd path = CHR ''/'' \<and> \<not> (length path > 1 \<and> last path = CHR ''/'')"
        and sm: "spec_match ?segs (split_on (CHR ''/'') (tl path)) = Some cs"
        using match_route_spec [OF False, of path]
        by (auto simp: no_match_def split: if_splits option.splits)
      have path: "path = CHR ''/'' # tl path" using c by (cases path) auto
      have "tl path \<noteq> []" using spec_match_join_Nil [OF sm] by auto
      then have "last (tl path) \<noteq> CHR ''/''" using c path by (metis last_ConsR length_Cons length_greater_0_conv Suc_less_eq One_nat_def)
      then have "path_values_ok ?segs (map pc_value cs)"
        using spec_match_values [OF sm cl] split_on_pieces by simp
      then show "map pc_name cs = names_of ?segs \<and> path_values_ok ?segs (map pc_value cs) \<and>
          path = fill_path ?segs (map pc_value cs)"
        using spec_match_sound [OF sm cl] path by (simp add: fill_path_def)
    next
      assume a: "map pc_name cs = names_of ?segs \<and> path_values_ok ?segs (map pc_value cs) \<and>
          path = fill_path ?segs (map pc_value cs)"
      note ok = conjunct1 [OF conjunct2 [OF a]]
      have "map2 (\<lambda>n v. \<lparr>pc_name = n, pc_value = v\<rparr>) (map pc_name cs) (map pc_value cs) = cs"
        by (induction cs) simp_all
      then have "spec_match ?segs (split_on (CHR ''/'') (join_with (CHR ''/'') (fill ?segs (map pc_value cs)))) = Some cs"
        using spec_match_split_join [OF cl path_values_ok_parts(1,2) [OF ok] _ path_values_ok_parts(3) [OF ok] False] lit a
        by (simp add: literals_ok_def)
      with fill_join_last [OF ok lit False] a match_route_spec [OF False, of path] assms(3)
      show "match_route p path = \<lparr>matched = True, captures = cs\<rparr>" by (simp add: fill_path_def)
    qed
  qed
qed

theorem match_route_fill_witness:
  "match_route (parse_route (the (fixed_string_lit ''/a/{id}/{*rest}''))) ''/a/7/x/y'' =
     \<lparr>matched = True, captures = [\<lparr>pc_name = ''id'', pc_value = ''7''\<rparr>, \<lparr>pc_name = ''rest'', pc_value = ''x/y''\<rparr>]\<rparr>"
proof -
  let ?f = "the (fixed_string_lit ''/a/{id}/{*rest}'')"
  let ?cs = "[\<lparr>pc_name = ''id'', pc_value = ''7''\<rparr>, \<lparr>pc_name = ''rest'', pc_value = ''x/y''\<rparr>] :: path_capture list"
  have f: "fixed_string_lit ''/a/{id}/{*rest}'' = Some ?f" by (simp add: fixed_string_lit_def annotation_text_capacity_def)
  have v: "route_valid (parse_route ?f)" by code_simp
  have "map pc_name ?cs = names_of (rp_segments (parse_route ?f)) \<and>
      path_values_ok (rp_segments (parse_route ?f)) (map pc_value ?cs) \<and>
      ''/a/7/x/y'' = fill_path (rp_segments (parse_route ?f)) (map pc_value ?cs)"
    by code_simp
  then show ?thesis by (rule iffD2 [OF match_route_fill [OF f refl v]])
qed

end
