(* ===== verification/Flash_Matcher.thy ===== *)
theory Flash_Matcher
  imports Flash_Reflection Flash_Route_Match
begin

text \<open>
  \<open>include/flash/routing/matcher.hpp\<close>: the routes of a namespace compiled and checked for
  conflicts, the scan that keeps the best endpoint for a request, and the \<open>Allow\<close> header.
\<close>

section \<open>Compiling the routes of a namespace\<close>

definition route_pattern_of :: "decl_info \<Rightarrow> route_pattern option" where
  "route_pattern_of f = (case route_of f of None \<Rightarrow> None
    | Some r \<Rightarrow> (let parsed = parse_route (ra_path r)
                 in if rp_error parsed = No_route_error then Some parsed else None))"

definition compiled_api_routes :: "decl_info list \<Rightarrow> route_pattern list option" where
  "compiled_api_routes ns =
     those (map (\<lambda>i. Option.bind (endpoint_at ns i) route_pattern_of) [0..<endpoint_count ns])"

definition compiled_api_methods :: "decl_info list \<Rightarrow> http_method list option" where
  "compiled_api_methods ns =
     those (map (\<lambda>i. Option.bind (endpoint_at ns i) (\<lambda>f. map_option ra_method (route_of f)))
       [0..<endpoint_count ns])"

definition compiled_api_shape_hashes :: "decl_info list \<Rightarrow> 64 word list option" where
  "compiled_api_shape_hashes ns = map_option (map route_shape_hash) (compiled_api_routes ns)"

text \<open>The two nested loops over \<open>left\<close> and \<open>right > left\<close>.\<close>

definition route_pairs_ok :: "route_pattern list \<Rightarrow> http_method list \<Rightarrow> 64 word list \<Rightarrow> bool" where
  "route_pairs_ok routes methods hashes =
     list_all (\<lambda>left. list_all (\<lambda>right.
        \<not> (methods ! left = methods ! right \<and> hashes ! left = hashes ! right \<and>
           same_route_shape (routes ! left) (routes ! right)))
        [left + 1..<length routes]) [0..<length routes]"

definition validate_route_pairs :: "decl_info list \<Rightarrow> bool option" where
  "validate_route_pairs ns =
     Option.bind (compiled_api_routes ns) (\<lambda>routes.
     Option.bind (compiled_api_methods ns) (\<lambda>methods.
     Option.bind (compiled_api_shape_hashes ns) (\<lambda>hashes.
       Some (route_pairs_ok routes methods hashes))))"

type_synonym compiled_api = "(http_method \<times> route_pattern) list"

text \<open>What \<open>match_api\<close> works on: \<open>validate_routes\<close> fails the compilation otherwise.\<close>

definition compile_api :: "decl_info list \<Rightarrow> compiled_api option" where
  "compile_api ns =
     Option.bind (validate_route_pairs ns) (\<lambda>ok. if \<not> ok then None else
     Option.bind (compiled_api_methods ns) (\<lambda>methods.
     Option.bind (compiled_api_routes ns) (\<lambda>routes. Some (zip methods routes))))"

section \<open>The scan\<close>

datatype match_outcome = Found | Not_found | Method_not_allowed | Automatic_options

definition method_mask :: "http_method \<Rightarrow> 16 word" where
  "method_mask m = push_bit (method_index m) 1"

record api_match =
  am_outcome :: match_outcome
  am_endpoint_index :: nat
  am_route :: route_match
  am_allow_mask :: "16 word"
  am_head_fallback :: bool

record api_match_state =
  st_result :: api_match
  st_best_pattern :: "route_pattern option"
  st_has_path_match :: bool
  st_has_method_match :: bool
  st_best_is_exact_method :: bool
  st_explicit_options :: bool

definition initial_state :: api_match_state where
  "initial_state = \<lparr>
     st_result = \<lparr>am_outcome = Not_found, am_endpoint_index = 0, am_route = no_match,
                  am_allow_mask = 0, am_head_fallback = False\<rparr>,
     st_best_pattern = None, st_has_path_match = False, st_has_method_match = False,
     st_best_is_exact_method = False, st_explicit_options = False\<rparr>"

text \<open>
  One endpoint of the scan, in three parts: the bookkeeping of a path match, the decision to
  replace the best endpoint (\<open>more_specific\<close> is only reached with a best pattern), the replacement.
\<close>

definition record_path_match ::
    "http_method \<Rightarrow> http_method \<Rightarrow> api_match_state \<Rightarrow> api_match_state" where
  "record_path_match requested annotation_method st =
     (let mask1 = am_allow_mask (st_result st) OR method_mask annotation_method;
          mask2 = (if annotation_method = Get then mask1 OR method_mask Head else mask1);
          mask3 = mask2 OR method_mask Options;
          st1 = st\<lparr>st_has_path_match := True,
                   st_result := (st_result st)\<lparr>am_allow_mask := mask3\<rparr>\<rparr>
      in if requested = Options \<and> annotation_method = requested
         then st1\<lparr>st_explicit_options := True\<rparr> else st1)"

definition should_replace :: "bool \<Rightarrow> route_pattern \<Rightarrow> api_match_state \<Rightarrow> bool" where
  "should_replace exact pattern st \<longleftrightarrow>
     \<not> st_has_method_match st \<or> (exact \<and> \<not> st_best_is_exact_method st) \<or>
     (exact = st_best_is_exact_method st \<and>
       (case st_best_pattern st of None \<Rightarrow> False | Some best \<Rightarrow> more_specific pattern best))"

definition record_best ::
    "bool \<Rightarrow> bool \<Rightarrow> nat \<Rightarrow> route_pattern \<Rightarrow> route_match \<Rightarrow> api_match_state \<Rightarrow> api_match_state" where
  "record_best exact head_fallback index pattern m st =
     st\<lparr>st_has_method_match := True, st_best_is_exact_method := exact,
        st_best_pattern := Some pattern,
        st_result := (st_result st)\<lparr>am_endpoint_index := index, am_route := m,
          am_head_fallback := head_fallback\<rparr>\<rparr>"

definition consider_route ::
    "http_method \<Rightarrow> string \<Rightarrow> nat \<Rightarrow> http_method \<times> route_pattern \<Rightarrow> api_match_state \<Rightarrow> api_match_state"
where
  "consider_route requested path index entry st =
     (let annotation_method = fst entry; pattern = snd entry;
          m = match_route pattern path
      in if \<not> matched m then st
         else
           (let st2 = record_path_match requested annotation_method st;
                exact = (annotation_method = requested);
                head_fallback = (requested = Head \<and> annotation_method = Get)
            in if exact \<or> head_fallback then
                 (if should_replace exact pattern st2
                  then record_best exact head_fallback index pattern m st2 else st2)
               else st2))"

fun consider_routes ::
    "http_method \<Rightarrow> string \<Rightarrow> nat \<Rightarrow> compiled_api \<Rightarrow> api_match_state \<Rightarrow> api_match_state" where
  "consider_routes requested path index [] st = st"
| "consider_routes requested path index (e # es) st =
     consider_routes requested path (index + 1) es (consider_route requested path index e st)"

definition outcome_of :: "http_method \<Rightarrow> api_match_state \<Rightarrow> match_outcome" where
  "outcome_of requested st =
     (if requested = Options \<and> st_has_path_match st \<and> \<not> st_explicit_options st then Automatic_options
      else if st_has_method_match st then Found
      else if st_has_path_match st then Method_not_allowed
      else Not_found)"

definition match_routes :: "compiled_api \<Rightarrow> http_method \<Rightarrow> string \<Rightarrow> api_match" where
  "match_routes api requested path =
     (let st = consider_routes requested path 0 api initial_state
      in (st_result st)\<lparr>am_outcome := outcome_of requested st\<rparr>)"

definition match_api :: "decl_info list \<Rightarrow> http_method \<Rightarrow> string \<Rightarrow> api_match option" where
  "match_api ns requested path = map_option (\<lambda>api. match_routes api requested path) (compile_api ns)"

section \<open>The Allow header\<close>

definition append_allow :: "16 word \<Rightarrow> http_method \<times> string \<Rightarrow> string \<Rightarrow> string" where
  "append_allow bits entry result =
     (if bits AND method_mask (fst entry) = 0 then result
      else (if result \<noteq> [] then result @ '', '' else result) @ snd entry)"

definition allow_names :: "(http_method \<times> string) list" where
  "allow_names = [(Get, ''GET''), (Head, ''HEAD''), (Post, ''POST''), (Put, ''PUT''),
     (Patch, ''PATCH''), (Delete, ''DELETE''), (Options, ''OPTIONS'')]"

definition allow_header :: "16 word \<Rightarrow> string" where
  "allow_header bits = fold (append_allow bits) allow_names []"

section \<open>What the scan computes\<close>

definition path_matches :: "string \<Rightarrow> http_method \<times> route_pattern \<Rightarrow> bool" where
  "path_matches path e \<longleftrightarrow> matched (match_route (snd e) path)"

definition eligible :: "http_method \<Rightarrow> string \<Rightarrow> http_method \<times> route_pattern \<Rightarrow> bool" where
  "eligible requested path e \<longleftrightarrow> path_matches path e \<and>
     (fst e = requested \<or> (requested = Head \<and> fst e = Get))"

text \<open>An exact method beats the fallback; between equals the more specific pattern wins.\<close>

definition beats :: "http_method \<Rightarrow> http_method \<times> route_pattern \<Rightarrow> http_method \<times> route_pattern \<Rightarrow> bool" where
  "beats requested a b \<longleftrightarrow> (fst a = requested \<and> fst b \<noteq> requested) \<or>
     ((fst a = requested) = (fst b = requested) \<and> more_specific (snd a) (snd b))"

lemma beats_trans: "beats q a b \<Longrightarrow> beats q b c \<Longrightarrow> beats q a c"
  by (auto simp: beats_def more_specific_iff)

lemma beats_irrefl [simp]: "\<not> beats q a a"
  by (simp add: beats_def more_specific_iff)

definition selects ::
    "http_method \<Rightarrow> string \<Rightarrow> compiled_api \<Rightarrow> nat \<Rightarrow> bool" where
  "selects requested path api i \<longleftrightarrow> i < length api \<and> eligible requested path (api ! i) \<and>
     (\<forall>e \<in> set api. eligible requested path e \<longrightarrow> \<not> beats requested e (api ! i))"

definition flags_inv :: "http_method \<Rightarrow> string \<Rightarrow> compiled_api \<Rightarrow> api_match_state \<Rightarrow> bool" where
  "flags_inv q path api st \<longleftrightarrow>
     (st_has_path_match st \<longleftrightarrow> (\<exists>e \<in> set api. path_matches path e)) \<and>
     (st_explicit_options st \<longleftrightarrow> q = Options \<and> (\<exists>e \<in> set api. path_matches path e \<and> fst e = Options)) \<and>
     (st_has_method_match st \<longleftrightarrow> (\<exists>e \<in> set api. eligible q path e))"

definition best_inv :: "http_method \<Rightarrow> string \<Rightarrow> compiled_api \<Rightarrow> api_match_state \<Rightarrow> nat \<Rightarrow> bool" where
  "best_inv q path api st i \<longleftrightarrow>
     am_endpoint_index (st_result st) = i \<and> selects q path api i \<and>
     st_best_pattern st = Some (snd (api ! i)) \<and>
     st_best_is_exact_method st = (fst (api ! i) = q) \<and>
     am_route (st_result st) = match_route (snd (api ! i)) path \<and>
     am_head_fallback (st_result st) = (q = Head \<and> fst (api ! i) = Get)"

definition scan_inv :: "http_method \<Rightarrow> string \<Rightarrow> compiled_api \<Rightarrow> api_match_state \<Rightarrow> bool" where
  "scan_inv q path api st \<longleftrightarrow> flags_inv q path api st \<and>
     (st_has_method_match st \<longrightarrow> best_inv q path api st (am_endpoint_index (st_result st)))"

lemma consider_routes_append:
  "consider_routes q path i (xs @ ys) st =
     consider_routes q path (i + length xs) ys (consider_routes q path i xs st)"
  by (induction xs arbitrary: i st) auto

lemma scan_inv_initial: "scan_inv q path [] initial_state"
  by (simp add: scan_inv_def flags_inv_def initial_state_def)

lemma selects_keep:
  "selects q path api i \<Longrightarrow> \<not> (eligible q path e \<and> beats q e (api ! i)) \<Longrightarrow> selects q path (api @ [e]) i"
  by (auto simp: selects_def nth_append)

lemma selects_replace:
  "eligible q path e \<Longrightarrow> (\<forall>d \<in> set api. eligible q path d \<longrightarrow> \<not> beats q d e) \<Longrightarrow>
   selects q path (api @ [e]) (length api)"
  by (auto simp: selects_def)

lemma consider_route_skip:
  "\<not> path_matches path e \<Longrightarrow> consider_route q path i e st = st"
  by (simp add: consider_route_def path_matches_def Let_def)

lemma record_path_match_simps [simp]:
  "st_best_pattern (record_path_match q m st) = st_best_pattern st"
  "st_has_method_match (record_path_match q m st) = st_has_method_match st"
  "st_best_is_exact_method (record_path_match q m st) = st_best_is_exact_method st"
  "st_has_path_match (record_path_match q m st)"
  "st_explicit_options (record_path_match q m st) \<longleftrightarrow> st_explicit_options st \<or> (q = Options \<and> m = q)"
  "am_endpoint_index (st_result (record_path_match q m st)) = am_endpoint_index (st_result st)"
  "am_route (st_result (record_path_match q m st)) = am_route (st_result st)"
  "am_head_fallback (st_result (record_path_match q m st)) = am_head_fallback (st_result st)"
  "am_allow_mask (st_result (record_path_match q m st)) =
     (if m = Get then (am_allow_mask (st_result st) OR method_mask m) OR method_mask Head
      else am_allow_mask (st_result st) OR method_mask m) OR method_mask Options"
  by (auto simp: record_path_match_def Let_def)

lemma selects_less: "selects q path api i \<Longrightarrow> i < length api"
  by (simp add: selects_def)

lemma scan_inv_step:
  assumes inv: "scan_inv q path api st"
  shows "scan_inv q path (api @ [e]) (consider_route q path (length api) e st)"
proof (cases "path_matches path e")
  case False
  then have "\<not> eligible q path e" by (simp add: eligible_def)
  then have "best_inv q path (api @ [e]) st i" if "best_inv q path api st i" for i
    using that selects_keep [of q path api i e] selects_less [of q path api i]
    by (auto simp: best_inv_def nth_append)
  moreover have "flags_inv q path (api @ [e]) st"
    using inv False \<open>\<not> eligible q path e\<close> by (simp add: scan_inv_def flags_inv_def)
  ultimately show ?thesis using inv False by (simp add: consider_route_skip scan_inv_def)
next
  case pm: True
  define i where "i = am_endpoint_index (st_result st)"
  define rep where "rep \<longleftrightarrow> eligible q path e \<and> (\<not> st_has_method_match st \<or> beats q e (api ! i))"
  let ?st' = "consider_route q path (length api) e st"
  let ?st2 = "record_path_match q (fst e) st"
  have flags: "flags_inv q path api st" using inv by (simp add: scan_inv_def)
  have best: "st_has_method_match st \<Longrightarrow> best_inv q path api st i"
    using inv by (simp add: scan_inv_def i_def)
  have "st_has_method_match st \<Longrightarrow> should_replace (fst e = q) (snd e) ?st2 \<longleftrightarrow> beats q e (api ! i)"
    using best by (auto simp: should_replace_def best_inv_def beats_def)
  then have rep_iff: "eligible q path e \<and> should_replace (fst e = q) (snd e) ?st2 \<longleftrightarrow> rep"
    unfolding rep_def by (cases "st_has_method_match st") (auto simp: should_replace_def)
  have eq: "?st' = (if rep then record_best (fst e = q) (q = Head \<and> fst e = Get) (length api)
      (snd e) (match_route (snd e) path) ?st2 else ?st2)"
    using pm rep_iff by (auto simp: consider_route_def eligible_def path_matches_def Let_def)
  have has: "st_has_method_match ?st' \<longleftrightarrow> st_has_method_match st \<or> eligible q path e"
    by (cases rep) (auto simp: eq record_best_def rep_def)
  have "flags_inv q path (api @ [e]) ?st'"
    using flags pm has by (auto simp: flags_inv_def eq record_best_def)
  moreover have "best_inv q path (api @ [e]) ?st' (am_endpoint_index (st_result ?st'))"
    if m: "st_has_method_match ?st'"
  proof (cases rep)
    case True
    have "\<not> beats q d e" if "d \<in> set api" "eligible q path d" for d
    proof
      assume b: "beats q d e"
      have m: "st_has_method_match st" using flags that by (auto simp: flags_inv_def)
      then have "beats q e (api ! i)" using True by (simp add: rep_def)
      with b have "beats q d (api ! i)" by (rule beats_trans)
      then show False using best [OF m] that by (auto simp: best_inv_def selects_def)
    qed
    then have "selects q path (api @ [e]) (length api)"
      using True selects_replace by (auto simp: rep_def)
    then show ?thesis using True by (simp add: eq best_inv_def record_best_def)
  next
    case False
    then have "st_has_method_match st" using m has by (auto simp: rep_def)
    note b = best [OF this]
    have "selects q path (api @ [e]) i" "i < length api"
      using b False \<open>st_has_method_match st\<close> selects_keep [of q path api i e]
      by (auto simp: best_inv_def rep_def dest: selects_less)
    then show ?thesis using b False by (simp add: eq best_inv_def i_def [symmetric] nth_append)
  qed
  ultimately show ?thesis by (simp add: scan_inv_def)
qed

lemma scan_inv_final: "scan_inv q path api (consider_routes q path 0 api initial_state)"
proof (induction api rule: rev_induct)
  case (snoc e api)
  then show ?case using scan_inv_step by (simp add: consider_routes_append)
qed (simp add: scan_inv_initial)

end
