(* ===== verification/Flash_Routing.thy ===== *)
theory Flash_Routing
  imports Flash_Matcher "HOL-Library.Multiset"
begin

text \<open>
  What \<open>match_api\<close> promises: the chosen endpoint is the best of those that serve the request, the
  conflict check makes it unique and independent of the declaration order, the hash prefilter of the
  check loses nothing, and the \<open>Allow\<close> mask lists exactly the methods that would be served.
\<close>

section \<open>Choosing by a strict order\<close>

text \<open>
  The contract between the scan and its order: a strict order. Where it decides between any two
  candidates, a candidate nothing beats is the only one.
\<close>

locale selection_order =
  fixes better :: "'q \<Rightarrow> 'e \<Rightarrow> 'e \<Rightarrow> bool"
  assumes better_trans: "better q a b \<Longrightarrow> better q b c \<Longrightarrow> better q a c"
    and better_irrefl: "\<not> better q a a"
begin

lemma better_asym: "better q a b \<Longrightarrow> \<not> better q b a"
  using better_trans better_irrefl by blast

lemma maximal_unique:
  assumes "\<And>a b. a \<in> S \<Longrightarrow> b \<in> S \<Longrightarrow> a \<noteq> b \<Longrightarrow> better q a b \<or> better q b a"
    and "a \<in> S" "\<forall>e \<in> S. \<not> better q e a" and "b \<in> S" "\<forall>e \<in> S. \<not> better q e b"
  shows "a = b"
  using assms by blast

lemma maximal_beats:
  assumes "\<And>a b. a \<in> S \<Longrightarrow> b \<in> S \<Longrightarrow> a \<noteq> b \<Longrightarrow> better q a b \<or> better q b a"
    and "a \<in> S" "\<forall>e \<in> S. \<not> better q e a" and "b \<in> S" "b \<noteq> a"
  shows "better q a b"
  using assms by blast

end

interpretation sel: selection_order beats
  by unfold_locales (auto intro: beats_trans)

section \<open>Routes without conflicts\<close>

definition api_wf :: "compiled_api \<Rightarrow> bool" where
  "api_wf api \<longleftrightarrow> (\<forall>e \<in> set api. \<exists>path. wf_fixed_string path \<and> snd e = parse_route path \<and> route_valid (snd e))"

definition conflict_free :: "compiled_api \<Rightarrow> bool" where
  "conflict_free api \<longleftrightarrow> (\<forall>i < length api. \<forall>j < length api. i \<noteq> j \<longrightarrow>
     \<not> (fst (api ! i) = fst (api ! j) \<and> same_route_shape (snd (api ! i)) (snd (api ! j))))"

lemma same_route_shape_sym: "same_route_shape a b \<Longrightarrow> same_route_shape b a"
  by (simp add: same_route_shape_iff)

lemma conflict_free_lessI:
  assumes "\<And>i j. i < j \<Longrightarrow> j < length api \<Longrightarrow>
     \<not> (fst (api ! i) = fst (api ! j) \<and> same_route_shape (snd (api ! i)) (snd (api ! j)))"
  shows "conflict_free api"
  unfolding conflict_free_def
  by (metis assms linorder_neqE_nat same_route_shape_sym)

text \<open>The hash comparison in the conflict check is only a prefilter.\<close>

lemma route_pairs_ok_iff:
  assumes "length methods = length routes"
  shows "route_pairs_ok routes methods (map route_shape_hash routes) \<longleftrightarrow> conflict_free (zip methods routes)"
proof
  assume ok: "route_pairs_ok routes methods (map route_shape_hash routes)"
  show "conflict_free (zip methods routes)"
  proof (rule conflict_free_lessI)
    fix i j
    assume "i < j" "j < length (zip methods routes)"
    then have ij: "i < j" "j < length routes" using assms by simp_all
    then have "\<not> (methods ! i = methods ! j \<and>
       map route_shape_hash routes ! i = map route_shape_hash routes ! j \<and>
       same_route_shape (routes ! i) (routes ! j))"
      using ok by (simp add: route_pairs_ok_def list_all_iff)
    then have "\<not> (methods ! i = methods ! j \<and> same_route_shape (routes ! i) (routes ! j))"
      using ij same_shape_same_hash [of "routes ! i" "routes ! j"] by auto
    with ij assms show "\<not> (fst (zip methods routes ! i) = fst (zip methods routes ! j) \<and>
       same_route_shape (snd (zip methods routes ! i)) (snd (zip methods routes ! j)))" by simp
  qed
next
  assume cf: "conflict_free (zip methods routes)"
  have "\<not> (methods ! i = methods ! j \<and> same_route_shape (routes ! i) (routes ! j))"
    if "i < j" "j < length routes" for i j
  proof -
    have "i < length (zip methods routes)" "j < length (zip methods routes)" "i \<noteq> j"
      using that assms by simp_all
    then have "\<not> (fst (zip methods routes ! i) = fst (zip methods routes ! j) \<and>
       same_route_shape (snd (zip methods routes ! i)) (snd (zip methods routes ! j)))"
      using cf unfolding conflict_free_def by blast
    with that assms show ?thesis by simp
  qed
  then show "route_pairs_ok routes methods (map route_shape_hash routes)"
    by (auto simp: route_pairs_ok_def list_all_iff)
qed

lemma conflict_free_distinct: "conflict_free api \<Longrightarrow> distinct api"
  unfolding conflict_free_def distinct_conv_nth same_route_shape_iff by metis

lemma segment_keys_catch_all:
  "(\<forall>k \<in> set (butlast (segment_keys ss)). fst k \<noteq> Catch_all) \<longleftrightarrow> catch_all_last ss"
  by (simp add: segment_keys_def catch_all_last_def map_butlast [symmetric])

lemma api_wf_catch_all:
  assumes "api_wf api" "e \<in> set api"
  shows "catch_all_last (rp_segments (snd e))"
proof -
  obtain path where p: "wf_fixed_string path" "snd e = parse_route path" "route_valid (snd e)"
    using assms by (auto simp: api_wf_def)
  then obtain ks where ks: "route_grammar (view path) ks"
    using parse_route_valid_iff [OF p(1)] by auto
  have "segment_keys (rp_segments (snd e)) = ks"
    using parse_route_keys(2) [OF p(1) ks] p(2) by simp
  with grammar_bounds(4) [OF ks] segment_keys_catch_all show ?thesis by blast
qed

lemma matched_segments:
  assumes "matched (match_route p path)"
  shows "rp_segments p = [] \<or> (\<exists>cs. spec_match (rp_segments p) (split_on (CHR ''/'') (tl path)) = Some cs)"
proof (cases "rp_segments p = []")
  case False
  show ?thesis
    using assms match_route_spec [OF False, of path]
    by (cases "spec_match (rp_segments p) (split_on (CHR ''/'') (tl path))")
      (auto simp: no_match_def split: if_splits)
qed simp

lemma matching_ranks_shape:
  assumes "api_wf api" "a \<in> set api" "b \<in> set api" "path_matches path a" "path_matches path b"
    "ranks (snd a) = ranks (snd b)"
  shows "same_route_shape (snd a) (snd b)"
proof -
  have len: "length (rp_segments (snd a)) = length (rp_segments (snd b))"
    using assms(6) unfolding ranks_def by (metis length_map)
  show ?thesis
  proof (cases "rp_segments (snd a) = []")
    case True
    with len show ?thesis by (simp add: same_route_shape_iff)
  next
    case False
    obtain cs where "spec_match (rp_segments (snd a)) (split_on (CHR ''/'') (tl path)) = Some cs"
      using matched_segments assms(4) False unfolding path_matches_def by blast
    moreover obtain ds where "spec_match (rp_segments (snd b)) (split_on (CHR ''/'') (tl path)) = Some ds"
      using matched_segments assms(5) False len unfolding path_matches_def by fastforce
    ultimately show ?thesis
      using assms(6) api_wf_catch_all [OF assms(1)] assms(2,3) spec_match_rank_shape
      unfolding same_route_shape_iff ranks_def by blast
  qed
qed

text \<open>Between two different endpoints that serve a request the order always decides.\<close>

lemma eligible_total:
  assumes "api_wf api" "conflict_free api" "a \<in> set api" "b \<in> set api" "a \<noteq> b"
    "eligible q path a" "eligible q path b"
  shows "beats q a b \<or> beats q b a"
proof (rule ccontr)
  assume "\<not> (beats q a b \<or> beats q b a)"
  then have ex: "(fst a = q) = (fst b = q)" and rk: "ranks (snd a) = ranks (snd b)"
    by (auto simp: beats_def more_specific_iff)
  have m: "fst a = fst b" using ex assms(6,7) by (auto simp: eligible_def)
  have "same_route_shape (snd a) (snd b)"
    using matching_ranks_shape [OF assms(1,3,4) _ _ rk] assms(6,7) unfolding eligible_def by blast
  moreover obtain i j where "i < length api" "j < length api" "a = api ! i" "b = api ! j"
    using assms(3,4) by (auto simp: in_set_conv_nth)
  ultimately show False using assms(2,5) m unfolding conflict_free_def by metis
qed

section \<open>Results of the scan\<close>

lemma match_routes_fields:
  assumes "st = consider_routes q path 0 api initial_state"
  shows "am_outcome (match_routes api q path) = outcome_of q st"
    "am_endpoint_index (match_routes api q path) = am_endpoint_index (st_result st)"
    "am_route (match_routes api q path) = am_route (st_result st)"
    "am_allow_mask (match_routes api q path) = am_allow_mask (st_result st)"
    "am_head_fallback (match_routes api q path) = am_head_fallback (st_result st)"
  by (simp_all add: match_routes_def assms Let_def)

lemma outcome_iff:
  "am_outcome (match_routes api q path) =
     (if \<not> (\<exists>e \<in> set api. path_matches path e) then Not_found
      else if q = Options \<and> \<not> (\<exists>e \<in> set api. path_matches path e \<and> fst e = Options) then Automatic_options
      else if (\<exists>e \<in> set api. eligible q path e) then Found
      else Method_not_allowed)"
  using scan_inv_final [of q path api]
  by (auto simp: match_routes_fields(1) [OF refl] outcome_of_def scan_inv_def flags_inv_def eligible_def)

lemma found_selects:
  assumes "am_outcome (match_routes api q path) = Found"
  shows "selects q path api (am_endpoint_index (match_routes api q path))"
    and "am_route (match_routes api q path) =
       match_route (snd (api ! am_endpoint_index (match_routes api q path))) path"
    and "am_head_fallback (match_routes api q path) \<longleftrightarrow>
       q = Head \<and> fst (api ! am_endpoint_index (match_routes api q path)) = Get"
proof -
  let ?st = "consider_routes q path 0 api initial_state"
  have "st_has_method_match ?st"
    using assms scan_inv_final [of q path api]
    by (auto simp: match_routes_fields(1) [OF refl] outcome_of_def split: if_splits)
  then have "best_inv q path api ?st (am_endpoint_index (st_result ?st))"
    using scan_inv_final [of q path api] by (simp add: scan_inv_def)
  then show "selects q path api (am_endpoint_index (match_routes api q path))"
    "am_route (match_routes api q path) =
       match_route (snd (api ! am_endpoint_index (match_routes api q path))) path"
    "am_head_fallback (match_routes api q path) \<longleftrightarrow>
       q = Head \<and> fst (api ! am_endpoint_index (match_routes api q path)) = Get"
    by (simp_all add: match_routes_fields [OF refl] best_inv_def)
qed

lemma selected_beats_rest:
  assumes "api_wf api" "conflict_free api" "selects q path api i"
    "e \<in> set api" "eligible q path e" "e \<noteq> api ! i"
  shows "beats q (api ! i) e"
proof -
  let ?S = "{e \<in> set api. eligible q path e}"
  have "api ! i \<in> ?S" "\<forall>e \<in> ?S. \<not> beats q e (api ! i)" "e \<in> ?S"
    using assms(3-5) by (auto simp: selects_def)
  then show ?thesis
    using sel.maximal_beats [of ?S q "api ! i" e] eligible_total [OF assms(1,2)] assms(6) by blast
qed

lemma selected_unique:
  assumes "api_wf api" "conflict_free api" "set api = set api'"
    "selects q path api i" "selects q path api' j"
  shows "api ! i = api' ! j"
proof -
  let ?S = "{e \<in> set api. eligible q path e}"
  have "api ! i \<in> ?S" "\<forall>e \<in> ?S. \<not> beats q e (api ! i)"
    "api' ! j \<in> ?S" "\<forall>e \<in> ?S. \<not> beats q e (api' ! j)"
    using assms(3-5) by (auto simp: selects_def)
  then show ?thesis
    using sel.maximal_unique [of ?S q "api ! i" "api' ! j"] eligible_total [OF assms(1,2)] by blast
qed

section \<open>The Allow mask\<close>

definition allowed :: "string \<Rightarrow> compiled_api \<Rightarrow> http_method \<Rightarrow> bool" where
  "allowed path api m \<longleftrightarrow> (\<exists>e \<in> set api. path_matches path e \<and>
     (fst e = m \<or> (m = Head \<and> fst e = Get) \<or> m = Options))"

lemma bit_method_mask_nat: "bit (method_mask a) n \<longleftrightarrow> n = method_index a"
  using method_index_less [of a] by (auto simp: method_mask_def bit_exp_iff)

lemma bit_method_mask: "bit (method_mask a) (method_index b) \<longleftrightarrow> a = b"
  by (auto simp: bit_method_mask_nat)

lemma allow_mask_step:
  "bit (am_allow_mask (st_result (consider_route q path i e st))) n \<longleftrightarrow>
     bit (am_allow_mask (st_result st)) n \<or>
     (path_matches path e \<and>
       (n = method_index (fst e) \<or> (fst e = Get \<and> n = method_index Head) \<or> n = method_index Options))"
  by (auto simp: consider_route_def path_matches_def record_best_def bit_or_iff bit_method_mask_nat Let_def)

lemma allowed_Cons_index:
  "(\<exists>m. n = method_index m \<and> allowed path (e # api) m) \<longleftrightarrow>
     (path_matches path e \<and>
       (n = method_index (fst e) \<or> (fst e = Get \<and> n = method_index Head) \<or> n = method_index Options)) \<or>
     (\<exists>m. n = method_index m \<and> allowed path api m)"
  unfolding allowed_def list.set bex_simps by blast

lemma allow_mask_scan:
  "bit (am_allow_mask (st_result (consider_routes q path i api st))) n \<longleftrightarrow>
     bit (am_allow_mask (st_result st)) n \<or> (\<exists>m. n = method_index m \<and> allowed path api m)"
proof (induction api arbitrary: i st)
  case (Cons e api)
  show ?case by (simp only: consider_routes.simps Cons.IH allow_mask_step allowed_Cons_index disj_assoc)
qed (simp add: allowed_def)

lemma allow_mask_bits:
  "bit (am_allow_mask (match_routes api q path)) n \<longleftrightarrow> (\<exists>m. n = method_index m \<and> allowed path api m)"
  by (simp add: match_routes_fields(4) [OF refl] allow_mask_scan initial_state_def)

lemma allow_mask_iff:
  "bit (am_allow_mask (match_routes api q path)) (method_index m) \<longleftrightarrow> allowed path api m"
  by (auto simp: allow_mask_bits)

lemma allow_mask_cong:
  "set api = set api' \<Longrightarrow> am_allow_mask (match_routes api q path) = am_allow_mask (match_routes api' q path)"
  by (rule bit_word_eqI) (simp add: allow_mask_bits allowed_def)

lemma allowed_outcome:
  "allowed path api q \<longleftrightarrow> am_outcome (match_routes api q path) \<in> {Found, Automatic_options}"
  by (auto simp: outcome_iff allowed_def eligible_def)

fun comma_join :: "string list \<Rightarrow> string" where
  "comma_join [] = []"
| "comma_join [s] = s"
| "comma_join (s # t # ss) = s @ '', '' @ comma_join (t # ss)"

lemma comma_join_snoc: "comma_join (ss @ [s]) = (if ss = [] then s else comma_join ss @ '', '' @ s)"
proof (induction ss)
  case (Cons a ss)
  then show ?case by (cases ss) auto
qed simp

lemma comma_join_Nil_iff: "\<forall>s \<in> set ss. s \<noteq> [] \<Longrightarrow> comma_join ss = [] \<longleftrightarrow> ss = []"
  by (induction ss rule: comma_join.induct) auto

lemma mask_and_zero: "(bits::16 word) AND method_mask m = 0 \<longleftrightarrow> \<not> bit bits (method_index m)"
proof -
  have "bits AND method_mask m = (if bit bits (method_index m) then method_mask m else 0)"
    by (rule bit_word_eqI) (auto simp: bit_and_iff bit_method_mask_nat)
  moreover have "method_mask m \<noteq> 0"
    using bit_method_mask [of m m] by auto
  ultimately show ?thesis by simp
qed

lemma allow_header_fold:
  "\<forall>e \<in> set es. snd e \<noteq> [] \<Longrightarrow> \<forall>s \<in> set ss. s \<noteq> [] \<Longrightarrow>
   fold (append_allow bits) es (comma_join ss) =
     comma_join (ss @ map snd (filter (\<lambda>e. bit bits (method_index (fst e))) es))"
proof (induction es arbitrary: ss)
  case (Cons e es)
  have "append_allow bits e (comma_join ss) =
     comma_join (if bit bits (method_index (fst e)) then ss @ [snd e] else ss)"
    using comma_join_Nil_iff [OF Cons.prems(2)]
    by (auto simp: append_allow_def mask_and_zero comma_join_snoc)
  then show ?case using Cons by (cases "bit bits (method_index (fst e))") simp_all
qed simp

lemma allow_header_eq:
  "allow_header bits =
     comma_join (map snd (filter (\<lambda>e. bit bits (method_index (fst e))) allow_names))"
  using allow_header_fold [of allow_names "[]" bits] by (simp add: allow_header_def allow_names_def)

section \<open>From declarations\<close>

definition decls_wf :: "decl_info list \<Rightarrow> bool" where
  "decls_wf ns \<longleftrightarrow> (\<forall>d \<in> set ns. \<forall>r \<in> set (d_routes d). wf_fixed_string (ra_path r))"

lemma those_Some_iff: "those xs = Some ys \<longleftrightarrow> xs = map Some ys"
  by (auto dest: those_SomeD)

lemma map_endpoint_at:
  "map (\<lambda>i. Option.bind (endpoint_at ns i) f) [0..<endpoint_count ns] = map f (endpoints ns)"
  by (rule nth_equalityI) (auto simp: endpoint_at_eq endpoint_count_eq)

lemma route_step_source:
  "route_step t b r = Inl r' \<Longrightarrow> rp_source r' = rp_source r"
  "route_step t b r = Inr r' \<Longrightarrow> rp_source r' = rp_source r"
  by (auto simp: route_step_def add_segment_def Let_def split: if_splits)

lemma parse_loop_source: "rp_source (parse_loop s off r) = rp_source r"
proof (induction s off r rule: parse_loop.induct)
  case (1 s off r)
  show ?case
    by (subst parse_loop.simps)
      (use 1 in \<open>auto simp: Let_def route_step_source split: sum.splits option.splits\<close>)
qed

lemma parse_route_source: "rp_source (parse_route p) = p"
  by (simp add: parse_route_def Let_def parse_loop_source)

lemma compile_api_Some:
  assumes "compile_api ns = Some api"
  shows "length api = length (endpoints ns)" "conflict_free api"
    "i < length api \<Longrightarrow> route_of (endpoints ns ! i) =
       Some \<lparr>ra_method = fst (api ! i), ra_path = rp_source (snd (api ! i))\<rparr>
       \<and> snd (api ! i) = parse_route (rp_source (snd (api ! i))) \<and> route_valid (snd (api ! i))"
proof -
  obtain rs ms where rs: "compiled_api_routes ns = Some rs" and ms: "compiled_api_methods ns = Some ms"
    and ok: "route_pairs_ok rs ms (map route_shape_hash rs)" and api: "api = zip ms rs"
    using assms by (auto simp: compile_api_def validate_route_pairs_def compiled_api_shape_hashes_def
        bind_eq_Some_conv split: if_splits)
  have r: "map route_pattern_of (endpoints ns) = map Some rs"
    using rs unfolding compiled_api_routes_def map_endpoint_at those_Some_iff .
  have m: "map (\<lambda>f. map_option ra_method (route_of f)) (endpoints ns) = map Some ms"
    using ms unfolding compiled_api_methods_def map_endpoint_at those_Some_iff .
  have lr: "length rs = length (endpoints ns)" and lm: "length ms = length (endpoints ns)"
    using r m map_eq_imp_length_eq by metis+
  show "length api = length (endpoints ns)" by (simp add: api lr lm)
  show "conflict_free api" using ok route_pairs_ok_iff [of ms rs] by (simp add: api lr lm)
  assume i: "i < length api"
  then have ir: "i < length (endpoints ns)" by (simp add: api lr lm)
  have "route_pattern_of (endpoints ns ! i) = Some (rs ! i)"
    using arg_cong [OF r, of "\<lambda>l. l ! i"] ir lr by simp
  then obtain a where a: "route_of (endpoints ns ! i) = Some a" "parse_route (ra_path a) = rs ! i"
    "rp_error (rs ! i) = No_route_error"
    by (auto simp: route_pattern_of_def Let_def split: option.splits if_splits)
  have "map_option ra_method (route_of (endpoints ns ! i)) = Some (ms ! i)"
    using arg_cong [OF m, of "\<lambda>l. l ! i"] ir lm by simp
  with a(1) have "ra_method a = ms ! i" by simp
  moreover have "rp_source (rs ! i) = ra_path a" using parse_route_source a(2) by metis
  ultimately show "route_of (endpoints ns ! i) =
       Some \<lparr>ra_method = fst (api ! i), ra_path = rp_source (snd (api ! i))\<rparr>
       \<and> snd (api ! i) = parse_route (rp_source (snd (api ! i))) \<and> route_valid (snd (api ! i))"
    using a ir lr lm by (simp add: api route_valid_def)
qed

lemma compile_api_wf:
  assumes "compile_api ns = Some api" "decls_wf ns"
  shows "api_wf api"
  unfolding api_wf_def
proof
  fix e
  assume "e \<in> set api"
  then obtain i where i: "i < length api" "e = api ! i" by (auto simp: in_set_conv_nth)
  note c = compile_api_Some(3) [OF assms(1) i(1)]
  have mem: "endpoints ns ! i \<in> set (endpoints ns)"
    using i compile_api_Some(1) [OF assms(1)] nth_mem [of i "endpoints ns"] by simp
  then have "endpoints ns ! i \<in> set ns" by (simp add: endpoints_def)
  moreover have "\<lparr>ra_method = fst e, ra_path = rp_source (snd e)\<rparr> \<in> set (d_routes (endpoints ns ! i))"
    using c i(2) endpoint_route [OF mem] by auto
  ultimately have "wf_fixed_string (rp_source (snd e))" using assms(2) by (force simp: decls_wf_def)
  with c i(2) show "\<exists>path. wf_fixed_string path \<and> snd e = parse_route path \<and> route_valid (snd e)"
    by blast
qed

section \<open>A namespace for the witnesses\<close>

text \<open>A small namespace for the witnesses: \<open>GET /a/{id}\<close>, \<open>GET /a/new\<close> and \<open>POST /a/new\<close>.\<close>

definition sample_endpoint :: "http_method \<Rightarrow> string \<Rightarrow> decl_info" where
  "sample_endpoint m path = \<lparr>d_is_function = True, d_identifier = ''f'',
     d_routes = (case route_of_literal m path of None \<Rightarrow> [] | Some r \<Rightarrow> [r]),
     d_parameters = [], d_return = C_void, d_descriptions = [], d_deprecated = 0\<rparr>"

definition sample_namespace :: "decl_info list" where
  "sample_namespace = [sample_endpoint Get ''/a/{id}'', sample_endpoint Get ''/a/new'',
     sample_endpoint Post ''/a/new'']"

definition sample_api :: compiled_api where
  "sample_api = the (compile_api sample_namespace)"

lemma sample_api_eq: "sample_api = map (\<lambda>(m, p). (m, parse_route (the (fixed_string_lit p))))
    [(Get, ''/a/{id}''), (Get, ''/a/new''), (Post, ''/a/new'')]"
  unfolding sample_api_def by code_simp

lemma sample_compiled: "compile_api sample_namespace = Some sample_api"
proof -
  have "compile_api sample_namespace \<noteq> None" by code_simp
  then show ?thesis by (auto simp: sample_api_def)
qed

lemma sample_wf: "decls_wf sample_namespace"
  by (auto simp: decls_wf_def sample_namespace_def sample_endpoint_def route_of_literal_def
      split: option.splits intro: fixed_string_lit_wf)

section \<open>Compilation as a condition on the set of routes\<close>

definition entry_of :: "decl_info \<Rightarrow> http_method \<times> route_pattern" where
  "entry_of d = (case route_of d of None \<Rightarrow> (Get, parse_route fixed_string_empty)
     | Some r \<Rightarrow> (ra_method r, parse_route (ra_path r)))"

lemma same_route_shape_refl [simp]: "same_route_shape a a"
  by (simp add: same_route_shape_iff)

lemma conflict_free_set:
  "conflict_free api \<longleftrightarrow> distinct api \<and> (\<forall>a \<in> set api. \<forall>b \<in> set api. a \<noteq> b \<longrightarrow>
     \<not> (fst a = fst b \<and> same_route_shape (snd a) (snd b)))" (is "_ \<longleftrightarrow> _ \<and> ?P")
proof (intro iffI conjI)
  assume cf: "conflict_free api"
  then show "distinct api" by (rule conflict_free_distinct)
  show ?P using cf unfolding conflict_free_def by (metis in_set_conv_nth)
next
  assume "distinct api \<and> ?P"
  then show "conflict_free api" unfolding conflict_free_def
    by (metis nth_eq_iff_index_eq nth_mem)
qed

lemma compile_api_iff:
  "compile_api ns = Some api \<longleftrightarrow> api = map entry_of (endpoints ns) \<and>
     (\<forall>e \<in> set api. rp_error (snd e) = No_route_error) \<and> conflict_free api"
proof
  assume c: "compile_api ns = Some api"
  have "api ! i = entry_of (endpoints ns ! i) \<and> rp_error (snd (api ! i)) = No_route_error"
    if "i < length api" for i
    using compile_api_Some(3) [OF c that] by (cases "api ! i") (simp add: entry_of_def route_valid_def)
  then show "api = map entry_of (endpoints ns) \<and>
     (\<forall>e \<in> set api. rp_error (snd e) = No_route_error) \<and> conflict_free api"
    using compile_api_Some(1,2) [OF c] by (metis (no_types, lifting) in_set_conv_nth length_map nth_equalityI nth_map)
next
  assume r: "api = map entry_of (endpoints ns) \<and>
     (\<forall>e \<in> set api. rp_error (snd e) = No_route_error) \<and> conflict_free api"
  then have a: "api = map entry_of (endpoints ns)" and e: "\<forall>e \<in> set api. rp_error (snd e) = No_route_error"
    and cf: "conflict_free api" by blast+
  have "route_pattern_of d = Some (snd (entry_of d)) \<and> map_option ra_method (route_of d) = Some (fst (entry_of d))"
    if d: "d \<in> set (endpoints ns)" for d
  proof -
    obtain r where "route_of d = Some r" using endpoint_route [OF d] by blast
    moreover have "rp_error (snd (entry_of d)) = No_route_error" using a d e by simp
    ultimately show ?thesis by (simp add: route_pattern_of_def entry_of_def Let_def)
  qed
  then have "map route_pattern_of (endpoints ns) = map Some (map snd api)"
    "map (\<lambda>f. map_option ra_method (route_of f)) (endpoints ns) = map Some (map fst api)"
    using a by simp_all
  then have "compiled_api_routes ns = Some (map snd api)" "compiled_api_methods ns = Some (map fst api)"
    unfolding compiled_api_routes_def compiled_api_methods_def map_endpoint_at those_Some_iff by simp_all
  moreover have "route_pairs_ok (map snd api) (map fst api) (map route_shape_hash (map snd api))"
    using route_pairs_ok_iff [of "map fst api" "map snd api"] cf
    by (simp only: zip_map_fst_snd length_map)
  ultimately show "compile_api ns = Some api"
    by (simp add: compile_api_def validate_route_pairs_def compiled_api_shape_hashes_def zip_map_fst_snd
        del: map_map)
qed

lemma conflict_free_mset: "mset a = mset b \<Longrightarrow> conflict_free a \<Longrightarrow> conflict_free b"
  unfolding conflict_free_set by (metis mset_eq_imp_distinct_iff mset_eq_setD)

lemma endpoints_mset: "mset ns = mset ns' \<Longrightarrow> mset (endpoints ns) = mset (endpoints ns')"
  by (simp add: endpoints_def mset_filter)

lemma compile_api_mset:
  assumes "compile_api ns = Some api" "mset ns = mset ns'"
  shows "compile_api ns' = Some (map entry_of (endpoints ns'))"
    and "set (map entry_of (endpoints ns')) = set api"
proof -
  have a: "api = map entry_of (endpoints ns)" "\<forall>e \<in> set api. rp_error (snd e) = No_route_error"
    "conflict_free api" using iffD1 [OF compile_api_iff assms(1)] by blast+
  have "mset (map entry_of (endpoints ns)) = mset (map entry_of (endpoints ns'))"
    using endpoints_mset [OF assms(2)] by simp
  then have m: "mset api = mset (map entry_of (endpoints ns'))" using a(1) by simp
  then show s: "set (map entry_of (endpoints ns')) = set api" by (metis mset_eq_setD)
  show "compile_api ns' = Some (map entry_of (endpoints ns'))"
    using conflict_free_mset [OF m a(3)] a(2) s by (simp add: compile_api_iff)
qed

lemma entry_of_inj:
  assumes "compile_api ns = Some api" "d \<in> set (endpoints ns)" "d' \<in> set (endpoints ns)"
    "entry_of d = entry_of d'"
  shows "d = d'"
  using assms conflict_free_distinct [of api] by (auto simp: compile_api_iff distinct_map inj_on_def)

lemma compile_api_same_entry:
  assumes "compile_api ns = Some api" "compile_api ns' = Some api'" "mset ns = mset ns'"
    "api ! i = api' ! j" "i < length api" "j < length api'"
  shows "endpoint_at ns i = endpoint_at ns' j"
proof -
  have a: "api = map entry_of (endpoints ns)" "api' = map entry_of (endpoints ns')"
    using iffD1 [OF compile_api_iff] assms(1,2) by blast+
  have "set (endpoints ns) = set (endpoints ns')"
    using endpoints_mset [OF assms(3)] by (metis mset_eq_setD)
  then have "endpoints ns ! i = endpoints ns' ! j"
    using entry_of_inj [OF assms(1), of "endpoints ns ! i" "endpoints ns' ! j"] assms(4-6) a nth_mem
    by (metis length_map nth_map)
  with assms(5,6) a show ?thesis by (simp add: endpoint_at_eq)
qed

lemma match_api_Some:
  "compile_api ns = Some api \<Longrightarrow> match_api ns q path = Some m \<longleftrightarrow> m = match_routes api q path"
  by (auto simp: match_api_def)

section \<open>Properties\<close>

text \<open>C1. When \<open>match_api\<close> finds an endpoint, the endpoint serves the request, is the one whose
  declaration has that index, and beats every other endpoint that serves the request: an exact method
  before a GET standing in for HEAD, then the more specific path. The captures are those of its own
  pattern, and the fallback flag is set exactly for HEAD served by GET.\<close>

theorem match_api_best:
  assumes "decls_wf ns" "compile_api ns = Some api" "match_api ns q path = Some m" "am_outcome m = Found"
    and i: "i = am_endpoint_index m"
  shows "endpoint_at ns i = Some (endpoints ns ! i) \<and> api ! i = entry_of (endpoints ns ! i) \<and>
    eligible q path (api ! i) \<and>
    (\<forall>e \<in> set api. eligible q path e \<and> e \<noteq> api ! i \<longrightarrow> beats q (api ! i) e) \<and>
    am_route m = match_route (snd (api ! i)) path \<and>
    (am_head_fallback m \<longleftrightarrow> q = Head \<and> fst (api ! i) = Get)"
proof -
  have m: "m = match_routes api q path" using assms(2,3) match_api_Some by blast
  note f = found_selects [OF assms(4) [unfolded m]]
  have sel: "selects q path api i" using f(1) by (simp add: i m)
  have wf: "api_wf api" and cf: "conflict_free api"
    using compile_api_wf compile_api_Some(2) assms(1,2) by blast+
  have "api = map entry_of (endpoints ns)" using iffD1 [OF compile_api_iff assms(2)] by blast
  then have "endpoint_at ns i = Some (endpoints ns ! i) \<and> api ! i = entry_of (endpoints ns ! i)"
    using selects_less [OF sel] by (simp add: endpoint_at_eq)
  moreover have "eligible q path (api ! i)" using sel by (simp add: selects_def)
  moreover have "\<forall>e \<in> set api. eligible q path e \<and> e \<noteq> api ! i \<longrightarrow> beats q (api ! i) e"
    using selected_beats_rest [OF wf cf sel] by blast
  ultimately show ?thesis using f(2,3) by (simp add: i m)
qed

theorem match_api_best_witness:
  "endpoint_at sample_namespace 1 = Some (endpoints sample_namespace ! 1) \<and>
   am_outcome (match_routes sample_api Head ''/a/new'') = Found \<and>
   beats Head (sample_api ! 1) (sample_api ! 0)"
proof -
  have m: "match_api sample_namespace Head ''/a/new'' = Some (match_routes sample_api Head ''/a/new'')"
    by (simp add: match_api_Some [OF sample_compiled])
  have o: "am_outcome (match_routes sample_api Head ''/a/new'') = Found"
    and i: "am_endpoint_index (match_routes sample_api Head ''/a/new'') = 1"
    unfolding sample_api_eq by code_simp+
  have "eligible Head ''/a/new'' (sample_api ! 0)" "sample_api ! 0 \<in> set sample_api"
    "sample_api ! 0 \<noteq> sample_api ! 1"
    unfolding sample_api_eq by code_simp+
  then show ?thesis using match_api_best [OF sample_wf sample_compiled m o i [symmetric]] o by blast
qed

text \<open>C2. Routing does not depend on the order of the declarations: a permutation of a namespace that
  compiles also compiles, gives every request the same outcome and \<open>Allow\<close> mask, and when an endpoint
  is found, it is the same declaration.\<close>

theorem match_api_order_independent:
  assumes "decls_wf ns" "compile_api ns = Some api" "mset ns = mset ns'"
  shows "\<exists>api'. compile_api ns' = Some api' \<and>
    am_outcome (match_routes api q path) = am_outcome (match_routes api' q path) \<and>
    am_allow_mask (match_routes api q path) = am_allow_mask (match_routes api' q path) \<and>
    (am_outcome (match_routes api q path) = Found \<longrightarrow>
       endpoint_at ns (am_endpoint_index (match_routes api q path)) =
       endpoint_at ns' (am_endpoint_index (match_routes api' q path)))"
proof -
  define api' where "api' = map entry_of (endpoints ns')"
  have c': "compile_api ns' = Some api'" and s: "set api' = set api"
    using compile_api_mset [OF assms(2,3)] by (simp_all add: api'_def)
  have o: "am_outcome (match_routes api q path) = am_outcome (match_routes api' q path)"
    by (simp only: outcome_iff s)
  have mask: "am_allow_mask (match_routes api q path) = am_allow_mask (match_routes api' q path)"
    by (rule allow_mask_cong) (simp add: s)
  have "endpoint_at ns i = endpoint_at ns' j"
    if f: "am_outcome (match_routes api q path) = Found"
      and i: "i = am_endpoint_index (match_routes api q path)"
      and j: "j = am_endpoint_index (match_routes api' q path)" for i j
  proof -
    have si: "selects q path api i" using found_selects(1) [OF f] i by simp
    have sj: "selects q path api' j" using found_selects(1) [of api' q path] f o j by simp
    have "api ! i = api' ! j"
      using selected_unique [OF compile_api_wf [OF assms(2,1)] compile_api_Some(2) [OF assms(2)] s [symmetric] si sj] .
    then show ?thesis
      using compile_api_same_entry [OF assms(2) c' assms(3)] selects_less [OF si] selects_less [OF sj] by blast
  qed
  then show ?thesis using c' o mask by blast
qed

theorem match_api_order_independent_witness:
  "\<exists>api'. compile_api (rev sample_namespace) = Some api' \<and>
     endpoint_at sample_namespace 1 = endpoint_at (rev sample_namespace) (am_endpoint_index (match_routes api' Get ''/a/new''))"
proof -
  have "am_outcome (match_routes sample_api Get ''/a/new'') = Found \<and>
     am_endpoint_index (match_routes sample_api Get ''/a/new'') = 1"
    unfolding sample_api_eq by code_simp
  then show ?thesis
    using match_api_order_independent [OF sample_wf sample_compiled, of "rev sample_namespace" Get "''/a/new''"]
    by auto
qed

text \<open>The outcome of routing, for every namespace that compiles: 404 exactly when no pattern
  matches the path, the automatic OPTIONS answer exactly when one does and none of the matching
  endpoints handles OPTIONS itself, an endpoint exactly when one serves the method (HEAD is served by
  GET), and 405 otherwise.\<close>

lemma match_api_outcome:
  assumes "compile_api ns = Some api" "match_api ns q path = Some m"
    and S: "S = {entry_of d | d. d \<in> set (endpoints ns) \<and> matched (match_route (snd (entry_of d)) path)}"
  shows "am_outcome m =
    (if S = {} then Not_found
     else if q = Options \<and> Options \<notin> fst ` S then Automatic_options
     else if q \<in> fst ` S \<or> (q = Head \<and> Get \<in> fst ` S) then Found
     else Method_not_allowed)"
proof -
  have m: "m = match_routes api q path" using assms(1,2) match_api_Some by blast
  have "api = map entry_of (endpoints ns)" using iffD1 [OF compile_api_iff assms(1)] by blast
  then have "S = {e \<in> set api. path_matches path e}" by (auto simp: S path_matches_def)
  then have mem: "e \<in> S \<longleftrightarrow> e \<in> set api \<and> path_matches path e" for e by simp
  have "(\<exists>e \<in> set api. path_matches path e) \<longleftrightarrow> S \<noteq> {}" using mem by blast
  moreover have "(\<exists>e \<in> set api. path_matches path e \<and> fst e = x) \<longleftrightarrow> x \<in> fst ` S" for x
    unfolding image_iff using mem by blast
  moreover have "(\<exists>e \<in> set api. eligible q path e) \<longleftrightarrow> q \<in> fst ` S \<or> (q = Head \<and> Get \<in> fst ` S)"
    unfolding eligible_def image_iff Bex_def mem by (metis (no_types))
  ultimately show ?thesis by (simp only: m outcome_iff not_not)
qed

lemma match_api_outcome_witness:
  "am_outcome (match_routes sample_api Delete ''/a/new'') = Method_not_allowed"
proof -
  have m: "match_api sample_namespace Delete ''/a/new'' = Some (match_routes sample_api Delete ''/a/new'')"
    by (simp add: match_api_Some [OF sample_compiled])
  have e: "map entry_of (endpoints sample_namespace) = sample_api"
    using iffD1 [OF compile_api_iff sample_compiled] by simp
  have "{entry_of d | d. d \<in> set (endpoints sample_namespace) \<and> matched (match_route (snd (entry_of d)) ''/a/new'')}
      = {e \<in> set (map entry_of (endpoints sample_namespace)). matched (match_route (snd e) ''/a/new'')}" by auto
  also have "\<dots> = set (filter (\<lambda>e. matched (match_route (snd e) ''/a/new'')) sample_api)" by (simp only: e set_filter)
  also have "filter (\<lambda>e. matched (match_route (snd e) ''/a/new'')) sample_api = sample_api"
    unfolding sample_api_eq by code_simp
  finally have S: "{entry_of d | d. d \<in> set (endpoints sample_namespace) \<and>
      matched (match_route (snd (entry_of d)) ''/a/new'')} = set sample_api" .
  show ?thesis
    unfolding match_api_outcome [OF sample_compiled m S [symmetric]]
    by (simp add: sample_api_eq)
qed

text \<open>The \<open>Allow\<close> header is truthful: whatever the method of the request, it lists, in the fixed
  order, exactly those methods for which the same path would be answered by an endpoint or by the
  automatic OPTIONS answer.\<close>

lemma allow_header_truthful:
  "allow_header (am_allow_mask (match_routes api q path)) =
     comma_join (map snd (filter (\<lambda>e. am_outcome (match_routes api (fst e) path) \<in> {Found, Automatic_options})
       allow_names))"
  by (simp only: allow_header_eq allow_mask_iff allowed_outcome)

text \<open>C21. The compile-time conflict check accepts a namespace exactly when no two endpoints have the
  same method and patterns of the same shape, where a shape keeps the literals and forgets the names of
  the placeholders; comparing the shape hashes first never hides a conflict.\<close>

theorem validate_routes_conflicts:
  assumes "compiled_api_routes ns = Some rs" "compiled_api_methods ns = Some ms"
  shows "validate_route_pairs ns = Some (\<forall>i < length rs. \<forall>j < length rs. i \<noteq> j \<longrightarrow>
    \<not> (ms ! i = ms ! j \<and> shape_of (rp_segments (rs ! i)) = shape_of (rp_segments (rs ! j))))"
proof -
  have "length ms = length rs"
    using assms map_eq_imp_length_eq
    unfolding compiled_api_routes_def compiled_api_methods_def those_Some_iff by metis
  then show ?thesis
    using route_pairs_ok_iff [of ms rs] assms
    by (auto simp: validate_route_pairs_def compiled_api_shape_hashes_def conflict_free_def same_route_shape_iff)
qed

theorem validate_routes_conflicts_witness:
  "\<exists>rs ms. validate_route_pairs [sample_endpoint Get ''/a/{x}'', sample_endpoint Get ''/a/{y}''] = Some False \<and>
     compiled_api_routes [sample_endpoint Get ''/a/{x}'', sample_endpoint Get ''/a/{y}''] = Some rs \<and> ms = [Get, Get]"
proof -
  let ?ns = "[sample_endpoint Get ''/a/{x}'', sample_endpoint Get ''/a/{y}'']"
  let ?rs = "the (compiled_api_routes ?ns)"
  have "compiled_api_routes ?ns \<noteq> None" by code_simp
  then have r: "compiled_api_routes ?ns = Some ?rs" by simp
  have m: "compiled_api_methods ?ns = Some [Get, Get]" by code_simp
  have "length ?rs = 2 \<and> shape_of (rp_segments (?rs ! 0)) = shape_of (rp_segments (?rs ! 1))" by code_simp
  then have "validate_route_pairs ?ns = Some False"
    unfolding validate_routes_conflicts [OF r m] by (auto simp: less_2_cases_iff)
  with r show ?thesis by blast
qed

end
