(* ===== verification/Flash_Charconv.thy ===== *)
theory Flash_Charconv
  imports Flash_Float
begin

text \<open>
  The part of \<open><charconv>\<close> the sources use: \<open>std::from_chars\<close> in base 10 for integers of a width
  and for floating point in general format, \<open>std::to_chars\<close> of integers into a buffer, and
  \<open>std::to_string\<close> of a size. The results are those the C++ standard fixes: the error, the value
  (zero when there is an error, as the callers initialise it) and the number of characters read.
\<close>

datatype errc = Errc_none | Errc_invalid_argument | Errc_result_out_of_range

section \<open>Decimal digits\<close>

definition is_digit :: "char \<Rightarrow> bool" where
  "is_digit c \<longleftrightarrow> 48 \<le> (of_char c :: nat) \<and> (of_char c :: nat) \<le> 57"

definition digit_value :: "char \<Rightarrow> nat" where
  "digit_value c = of_char c - 48"

definition digit_char :: "nat \<Rightarrow> char" where
  "digit_char d = char_of (48 + d)"

definition dec_value :: "string \<Rightarrow> nat" where
  "dec_value s = foldl (\<lambda>n c. 10 * n + digit_value c) 0 s"

fun show_nat :: "nat \<Rightarrow> string" where
  "show_nat n = (if n < 10 then [digit_char n] else show_nat (n div 10) @ [digit_char (n mod 10)])"

declare show_nat.simps [simp del]

definition show_int :: "int \<Rightarrow> string" where
  "show_int v = (if v < 0 then CHR ''-'' # show_nat (nat (- v)) else show_nat (nat v))"

lemma digit_char_digit: "d < 10 \<Longrightarrow> is_digit (digit_char d)"
  by (simp add: is_digit_def digit_char_def)

lemma digit_value_char: "d < 10 \<Longrightarrow> digit_value (digit_char d) = d"
  by (simp add: digit_value_def digit_char_def)

lemma dec_value_snoc [simp]: "dec_value (s @ [c]) = 10 * dec_value s + digit_value c"
  by (simp add: dec_value_def)

lemma dec_value_Nil [simp]: "dec_value [] = 0"
  by (simp add: dec_value_def)

lemma show_nat_digits: "\<forall>c \<in> set (show_nat n). is_digit c"
proof (induction n rule: show_nat.induct)
  case (1 n)
  then show ?case by (subst show_nat.simps) (auto simp: digit_char_digit)
qed

lemma show_nat_not_Nil [simp]: "show_nat n \<noteq> []"
  by (subst show_nat.simps) simp

lemma dec_value_show_nat [simp]: "dec_value (show_nat n) = n"
proof (induction n rule: show_nat.induct)
  case (1 n)
  show ?case
  proof (cases "n < 10")
    case True
    then show ?thesis by (subst show_nat.simps) (simp add: dec_value_def digit_value_char)
  next
    case False
    with 1 have "dec_value (show_nat (n div 10)) = n div 10" by simp
    with False show ?thesis by (subst show_nat.simps) (simp add: digit_value_char)
  qed
qed

lemma show_nat_inj: "show_nat m = show_nat n \<Longrightarrow> m = n"
  by (metis dec_value_show_nat)

lemma length_show_nat: "0 < k \<Longrightarrow> n < 10 ^ k \<Longrightarrow> length (show_nat n) \<le> k"
proof (induction n arbitrary: k rule: show_nat.induct)
  case (1 n)
  show ?case
  proof (cases "n < 10")
    case True
    then show ?thesis using 1(2) by (subst show_nat.simps) simp
  next
    case False
    then have k: "1 < k" using 1(2,3) by (cases "k = 1") auto
    have "n div 10 < 10 ^ (k - 1)"
      using 1(3) k by (simp add: less_mult_imp_div_less power_eq_if mult.commute)
    then have "length (show_nat (n div 10)) \<le> k - 1" using 1(1) False k by simp
    with False k show ?thesis by (subst show_nat.simps) simp
  qed
qed

section \<open>Integers\<close>

definition int_in_range :: "bool \<Rightarrow> nat \<Rightarrow> int \<Rightarrow> bool" where
  "int_in_range sgnd w v =
     (if sgnd then - (2 ^ (w - 1)) \<le> v \<and> v < 2 ^ (w - 1) else 0 \<le> v \<and> v < 2 ^ w)"

definition from_chars_int :: "bool \<Rightarrow> nat \<Rightarrow> string \<Rightarrow> errc \<times> int \<times> nat" where
  "from_chars_int sgnd w s =
     (let neg = (sgnd \<and> s \<noteq> [] \<and> hd s = CHR ''-'');
          ds = takeWhile is_digit (if neg then tl s else s);
          v = (if neg then - int (dec_value ds) else int (dec_value ds));
          n = (if neg then 1 else 0) + length ds
      in if ds = [] then (Errc_invalid_argument, 0, 0)
         else if int_in_range sgnd w v then (Errc_none, v, n)
         else (Errc_result_out_of_range, 0, n))"

text \<open>\<open>to_chars\<close> into a buffer of a size: \<open>None\<close> is \<open>value_too_large\<close>.\<close>

definition to_chars_int :: "nat \<Rightarrow> int \<Rightarrow> string option" where
  "to_chars_int buffer v = (if length (show_int v) \<le> buffer then Some (show_int v) else None)"

text \<open>\<open>numeric_limits<T>::digits10\<close> for an integer type of \<open>w\<close> bits, as libstdc++ computes it.\<close>

definition digits10 :: "bool \<Rightarrow> nat \<Rightarrow> nat" where
  "digits10 sgnd w = (if sgnd then w - 1 else w) * 643 div 2136"

lemma not_digit_minus [simp]: "\<not> is_digit (CHR ''-'')"
  by (simp add: is_digit_def)

lemma takeWhile_digits: "\<forall>c \<in> set ds. is_digit c \<Longrightarrow> takeWhile is_digit (ds @ r) = ds @ takeWhile is_digit r"
  by (induction ds) auto

lemma takeWhile_show_nat: "takeWhile is_digit (show_nat n) = show_nat n"
  using takeWhile_digits [OF show_nat_digits, of n "[]"] by simp

lemma show_nat_hd: "hd (show_nat n) \<noteq> CHR ''-''"
  using show_nat_digits [of n] by (metis hd_in_set not_digit_minus show_nat_not_Nil)

lemma from_chars_show_int:
  assumes "int_in_range sgnd w v"
  shows "from_chars_int sgnd w (show_int v) = (Errc_none, v, length (show_int v))"
proof (cases "v < 0")
  case True
  with assms have "sgnd" by (auto simp: int_in_range_def split: if_splits)
  with True assms show ?thesis by (simp add: from_chars_int_def show_int_def takeWhile_show_nat)
next
  case False
  with assms show ?thesis
    by (simp add: from_chars_int_def show_int_def takeWhile_show_nat show_nat_hd)
qed

lemma from_chars_int_range:
  "from_chars_int sgnd w s = (Errc_none, v, n) \<Longrightarrow> int_in_range sgnd w v \<and> 0 < n \<and> n \<le> length s"
  using length_takeWhile_le [of is_digit s] length_takeWhile_le [of is_digit "tl s"]
  by (cases s) (auto simp: from_chars_int_def Let_def split: if_splits)

text \<open>The integers read completely are exactly the decimal numerals, with a minus if signed.\<close>

definition decimal_numeral :: "bool \<Rightarrow> string \<Rightarrow> int \<Rightarrow> bool" where
  "decimal_numeral sgnd s v \<longleftrightarrow>
     (\<exists>ds. ds \<noteq> [] \<and> (\<forall>c \<in> set ds. is_digit c) \<and>
        ((s = ds \<and> v = int (dec_value ds)) \<or> (sgnd \<and> s = CHR ''-'' # ds \<and> v = - int (dec_value ds))))"

lemma from_chars_int_numeral:
  "from_chars_int sgnd w s = (Errc_none, v, length s) \<longleftrightarrow> decimal_numeral sgnd s v \<and> int_in_range sgnd w v"
proof
  assume f: "from_chars_int sgnd w s = (Errc_none, v, length s)"
  show "decimal_numeral sgnd s v \<and> int_in_range sgnd w v"
  proof (cases "sgnd \<and> s \<noteq> [] \<and> hd s = CHR ''-''")
    case True
    then obtain t where t: "s = CHR ''-'' # t" by (cases s) auto
    let ?ds = "takeWhile is_digit t"
    from f True t have *: "?ds \<noteq> []" "length ?ds = length t" "v = - int (dec_value ?ds)" "int_in_range sgnd w v"
      by (auto simp: from_chars_int_def Let_def split: if_splits)
    have "?ds = t" using *(2) by (metis takeWhile_eq_take take_all order_refl)
    then have "\<forall>c \<in> set t. is_digit c" by (metis set_takeWhileD)
    with * \<open>?ds = t\<close> True t show ?thesis by (auto simp: decimal_numeral_def)
  next
    case False
    let ?ds = "takeWhile is_digit s"
    from f False have *: "?ds \<noteq> []" "length ?ds = length s" "v = int (dec_value ?ds)" "int_in_range sgnd w v"
      by (auto simp: from_chars_int_def Let_def split: if_splits)
    have "?ds = s" using *(2) by (metis takeWhile_eq_take take_all order_refl)
    then have "\<forall>c \<in> set s. is_digit c" by (metis set_takeWhileD)
    with * \<open>?ds = s\<close> show ?thesis by (auto simp: decimal_numeral_def)
  qed
next
  assume r: "decimal_numeral sgnd s v \<and> int_in_range sgnd w v"
  then obtain ds where ds: "ds \<noteq> []" "\<forall>c \<in> set ds. is_digit c"
    "(s = ds \<and> v = int (dec_value ds)) \<or> (sgnd \<and> s = CHR ''-'' # ds \<and> v = - int (dec_value ds))"
    by (auto simp: decimal_numeral_def)
  have tw: "takeWhile is_digit ds = ds" using takeWhile_digits [OF ds(2), of "[]"] by simp
  have hd: "hd ds \<noteq> CHR ''-''" using ds(1,2) by (metis hd_in_set not_digit_minus)
  from ds(3) show "from_chars_int sgnd w s = (Errc_none, v, length s)"
  proof
    assume "s = ds \<and> v = int (dec_value ds)"
    with r ds(1) hd show ?thesis by (simp add: from_chars_int_def tw)
  next
    assume "sgnd \<and> s = CHR ''-'' # ds \<and> v = - int (dec_value ds)"
    with r ds(1) show ?thesis by (simp add: from_chars_int_def tw)
  qed
qed

text \<open>The buffer \<open>char buffer[digits10 + 4]\<close> of the writer is large enough for every type.\<close>

lemma to_chars_int_fits:
  assumes "w \<in> {8, 16, 32, 64}" "int_in_range sgnd w v"
  shows "to_chars_int (digits10 sgnd w + 4) v = Some (show_int v)"
proof -
  have "\<bar>v\<bar> \<le> 2 ^ (if sgnd then w - 1 else w)"
    using assms(2) by (auto simp: int_in_range_def split: if_splits)
  moreover have "(2::int) ^ (if sgnd then w - 1 else w) < 10 ^ (digits10 sgnd w + 1)"
    using assms(1) by (auto simp: digits10_def)
  ultimately have "nat \<bar>v\<bar> < 10 ^ (digits10 sgnd w + 1)" by (simp add: nat_less_iff)
  then have "length (show_nat (nat \<bar>v\<bar>)) \<le> digits10 sgnd w + 1" by (rule length_show_nat [rotated]) simp
  then show ?thesis by (auto simp: to_chars_int_def show_int_def abs_if split: if_splits)
qed

section \<open>Floating point\<close>

definition lower :: "char \<Rightarrow> char" where
  "lower c = (if 65 \<le> (of_char c :: nat) \<and> (of_char c :: nat) \<le> 90 then char_of (of_char c + 32 :: nat) else c)"

text \<open>
  The longest exponent part \<open>e[+-]digits\<close> at the start, with its length; an exponent without
  digits is not part of the number.
\<close>

definition scan_exponent :: "string \<Rightarrow> int \<times> nat" where
  "scan_exponent s =
     (if s \<noteq> [] \<and> lower (hd s) = CHR ''e'' then
        (let t = tl s;
             sgn = (t \<noteq> [] \<and> (hd t = CHR ''+'' \<or> hd t = CHR ''-''));
             neg = (t \<noteq> [] \<and> hd t = CHR ''-'');
             ds = takeWhile is_digit (if sgn then tl t else t)
         in if ds = [] then (0, 0)
            else ((if neg then - int (dec_value ds) else int (dec_value ds)),
                  1 + (if sgn then 1 else 0) + length ds))
      else (0, 0))"

text \<open>Digits with an optional point: integer digits, fraction digits, characters read.\<close>

definition scan_mantissa :: "string \<Rightarrow> string \<times> string \<times> nat" where
  "scan_mantissa s =
     (let ip = takeWhile is_digit s; r = dropWhile is_digit s
      in if r \<noteq> [] \<and> hd r = CHR ''.'' then
           (let fp = takeWhile is_digit (tl r)
            in if ip = [] \<and> fp = [] then ([], [], 0) else (ip, fp, length ip + 1 + length fp))
         else (ip, [], length ip))"

text \<open>\<open>inf\<close>, \<open>infinity\<close>, \<open>nan\<close> and \<open>nan(chars)\<close>, in any case.\<close>

definition scan_special :: "string \<Rightarrow> (fp \<times> nat) option" where
  "scan_special s =
     (let l = map lower s
      in if starts_with l ''infinity'' then Some (Infinite False, 8)
         else if starts_with l ''inf'' then Some (Infinite False, 3)
         else if starts_with l ''nan'' then
           (let r = drop 3 s;
                cs = takeWhile (\<lambda>c. is_digit c \<or> c = CHR ''_'' \<or>
                       (97 \<le> (of_char (lower c) :: nat) \<and> (of_char (lower c) :: nat) \<le> 122)) (tl r)
            in if r \<noteq> [] \<and> hd r = CHR ''('' \<and> starts_with (drop (1 + length cs) r) '')''
               then Some (NaN, 5 + length cs) else Some (NaN, 3))
         else None)"

definition negate :: "bool \<Rightarrow> fp \<Rightarrow> fp" where
  "negate s x = (case x of Infinite t \<Rightarrow> Infinite (s \<noteq> t) | Finite t m e \<Rightarrow> Finite (s \<noteq> t) m e | NaN \<Rightarrow> NaN)"

text \<open>
  The value is the decimal rounded to the nearest float; one too large, and a non-zero one that
  rounds to zero, is out of range.
\<close>

definition from_chars_float :: "float_format \<Rightarrow> string \<Rightarrow> errc \<times> fp \<times> nat" where
  "from_chars_float f s =
     (let neg = (s \<noteq> [] \<and> hd s = CHR ''-'');
          t = (if neg then tl s else s);
          k = (if neg then 1 else 0);
          zero = Finite False 0 (min_exponent f)
      in case scan_special t of
           Some (x, n) \<Rightarrow> (Errc_none, negate neg x, k + n)
         | None \<Rightarrow>
             (let (ip, fp, n) = scan_mantissa t;
                  (ex, n') = scan_exponent (drop n t);
                  num = dec_value (ip @ fp);
                  d = ex - int (length fp);
                  x = (if 0 \<le> d then round_ratio f neg (num * 10 ^ nat d) 1
                       else round_ratio f neg num (10 ^ nat (- d)))
              in if n = 0 then (Errc_invalid_argument, zero, 0)
                 else (case x of
                     Finite s m e \<Rightarrow>
                       (if m = 0 \<and> num \<noteq> 0 then (Errc_result_out_of_range, zero, k + n + n')
                        else (Errc_none, x, k + n + n'))
                   | _ \<Rightarrow> (Errc_result_out_of_range, zero, k + n + n'))))"

lemma from_chars_float_len:
  "from_chars_float f s = (Errc_none, x, n) \<Longrightarrow> 0 < n"
  by (auto simp: from_chars_float_def scan_special_def Let_def split: if_splits fp.splits option.splits prod.splits)

end
