(* ===== verification/Flash_Scalar.thy ===== *)
theory Flash_Scalar
  imports Flash_Charconv Flash_Reflection
begin

text \<open>
  \<open>include/flash/binding/scalar.hpp\<close>: percent decoding with its borrowed fast path, and the parser
  of scalar values for every bindable type. A type without a codec is \<open>None\<close>: the program is not
  compiled (\<open>FLASH-E300\<close>).
\<close>

record scalar_error =
  se_code :: string
  se_message :: string

definition scalar_error :: "string \<Rightarrow> string \<Rightarrow> scalar_error" where
  "scalar_error c m = \<lparr>se_code = c, se_message = m\<rparr>"

record decoded_value =
  dv_owned :: string
  dv_borrowed :: string
  dv_owns :: bool

definition dv_view :: "decoded_value \<Rightarrow> string" where
  "dv_view d = (if dv_owns d then dv_owned d else dv_borrowed d)"

definition hex_value :: "char \<Rightarrow> int" where
  "hex_value c =
     (let n = of_char c :: int in
      if 48 \<le> n \<and> n \<le> 57 then n - 48
      else if 97 \<le> n \<and> n \<le> 102 then n - 97 + 10
      else if 65 \<le> n \<and> n \<le> 70 then n - 65 + 10
      else -1)"

definition percent_error_short :: scalar_error where
  "percent_error_short = scalar_error ''invalid_percent_encoding''
     ''Percent escape must contain two hexadecimal digits.''"

definition percent_error_digit :: scalar_error where
  "percent_error_digit = scalar_error ''invalid_percent_encoding''
     ''Percent escape contains a non-hexadecimal digit.''"

text \<open>The loop over \<open>index\<close>; every read is below the size by the guards.\<close>

function percent_loop :: "string \<Rightarrow> bool \<Rightarrow> nat \<Rightarrow> string \<Rightarrow> scalar_error + string" where
  "percent_loop input sp index owned =
     (if index < length input then
        (let character = input ! index in
         if character = CHR ''+'' \<and> sp then percent_loop input sp (index + 1) (owned @ '' '')
         else if character \<noteq> CHR ''%''
         then percent_loop input sp (index + 1) (owned @ [character])
         else if index + 2 \<ge> length input then Inl percent_error_short
         else
           (let high = hex_value (input ! (index + 1)); low = hex_value (input ! (index + 2)) in
            if high < 0 \<or> low < 0 then Inl percent_error_digit
            else percent_loop input sp (index + 2 + 1)
                   (owned @ [char_of (push_bit 4 high OR low)])))
      else Inr owned)"
  by pat_completeness auto
termination
  by (relation "measure (\<lambda>(input, sp, index, owned). length input - index)") auto

declare percent_loop.simps [simp del]

definition percent_decode :: "string \<Rightarrow> bool \<Rightarrow> scalar_error + decoded_value" where
  "percent_decode input plus_as_space =
     (let requires_decoding = (str_find input (CHR ''%'') 0 \<noteq> None \<or>
            (plus_as_space \<and> str_find input (CHR ''+'') 0 \<noteq> None))
      in if \<not> requires_decoding
         then Inr \<lparr>dv_owned = [], dv_borrowed = input, dv_owns = False\<rparr>
         else (case percent_loop input plus_as_space 0 [] of
             Inl e \<Rightarrow> Inl e
           | Inr s \<Rightarrow> Inr \<lparr>dv_owned = s, dv_borrowed = [], dv_owns = True\<rparr>))"

fun parse_enum :: "(string \<times> int) list \<Rightarrow> string \<Rightarrow> int option" where
  "parse_enum [] input = None"
| "parse_enum (e # es) input = (if fst e = input then Some (snd e) else parse_enum es input)"

fun scalar_bindable :: "ctype \<Rightarrow> bool" where
  "scalar_bindable C_string = True"
| "scalar_bindable C_string_view = True"
| "scalar_bindable C_bool = True"
| "scalar_bindable (C_int _ _) = True"
| "scalar_bindable (C_float _) = True"
| "scalar_bindable (C_enum _) = True"
| "scalar_bindable _ = False"

fun parse_scalar :: "ctype \<Rightarrow> string \<Rightarrow> (scalar_error + jvalue) option" where
  "parse_scalar C_string input = Some (Inr (V_string input))"
| "parse_scalar C_string_view input = Some (Inr (V_string input))"
| "parse_scalar C_bool input = Some
     (if input = ''true'' \<or> input = ''1'' then Inr (V_bool True)
      else if input = ''false'' \<or> input = ''0'' then Inr (V_bool False)
      else Inl (scalar_error ''invalid_boolean'' ''Expected true, false, 1, or 0.''))"
| "parse_scalar (C_int sgnd w) input = Some
     (case from_chars_int sgnd w input of (ec, result, ptr) \<Rightarrow>
        if ec = Errc_result_out_of_range
        then Inl (scalar_error ''integer_out_of_range'' ''Integer is outside the target type's range.'')
        else if ec \<noteq> Errc_none \<or> ptr \<noteq> length input \<or> input = []
        then Inl (scalar_error ''invalid_integer'' ''Expected a base-10 integer.'')
        else Inr (V_int result))"
| "parse_scalar (C_float f) input = Some
     (case from_chars_float f input of (ec, result, ptr) \<Rightarrow>
        if ec = Errc_result_out_of_range
        then Inl (scalar_error ''number_out_of_range'' ''Number is outside the target type's range.'')
        else if ec \<noteq> Errc_none \<or> ptr \<noteq> length input \<or> input = [] \<or> \<not> is_finite result
        then Inl (scalar_error ''invalid_number'' ''Expected a finite floating-point number.'')
        else Inr (V_float result))"
| "parse_scalar (C_enum e) input = Some
     (case parse_enum (en_enumerators e) input of
        Some v \<Rightarrow> Inr (V_enum v)
      | None \<Rightarrow> Inl (scalar_error ''invalid_enum''
                  ''Value is not one of the enum's reflected names.''))"
| "parse_scalar _ input = None"

section \<open>Percent decoding against its grammar\<close>

text \<open>
  The value of a hexadecimal digit, from the table of the digits (RFC 3986, section 2.1) and not from
  the code's arithmetic, and the decoded text of a string of characters and escapes, if every percent
  sign is followed by two such digits.
\<close>

definition hex_digit_value :: "char \<Rightarrow> nat option" where
  "hex_digit_value c = map_of
     [(CHR ''0'', 0), (CHR ''1'', 1), (CHR ''2'', 2), (CHR ''3'', 3), (CHR ''4'', 4),
      (CHR ''5'', 5), (CHR ''6'', 6), (CHR ''7'', 7), (CHR ''8'', 8), (CHR ''9'', 9),
      (CHR ''A'', 10), (CHR ''B'', 11), (CHR ''C'', 12), (CHR ''D'', 13), (CHR ''E'', 14), (CHR ''F'', 15),
      (CHR ''a'', 10), (CHR ''b'', 11), (CHR ''c'', 12), (CHR ''d'', 13), (CHR ''e'', 14), (CHR ''f'', 15)] c"

fun percent_spec :: "bool \<Rightarrow> string \<Rightarrow> string option" where
  "percent_spec sp [] = Some []"
| "percent_spec sp (c # cs) =
     (if c = CHR ''+'' \<and> sp then map_option ((#) (CHR '' '')) (percent_spec sp cs)
      else if c \<noteq> CHR ''%'' then map_option ((#) c) (percent_spec sp cs)
      else (case cs of
          h # l # r \<Rightarrow>
            (case (hex_digit_value h, hex_digit_value l) of
              (Some x, Some y) \<Rightarrow> map_option ((#) (char_of (16 * x + y))) (percent_spec sp r)
            | _ \<Rightarrow> None)
        | _ \<Rightarrow> None))"

text \<open>The code's arithmetic agrees with the table on all 256 characters.\<close>

lemma hex_value_table: "hex_value c = (case hex_digit_value c of None \<Rightarrow> - 1 | Some n \<Rightarrow> int n)"
proof (cases c)
  case (Char b0 b1 b2 b3 b4 b5 b6 b7)
  show ?thesis unfolding Char
    by (cases b0; cases b1; cases b2; cases b3; cases b4; cases b5; cases b6; cases b7;
        simp add: hex_value_def hex_digit_value_def)
qed

lemma hex_value_digits:
  "hex_digit_value h = Some x \<Longrightarrow> hex_digit_value l = Some y \<Longrightarrow>
   \<not> (hex_value h < 0 \<or> hex_value l < 0) \<and>
   nat (hex_value h) = x \<and> nat (hex_value l) = y"
  by (simp add: hex_value_table)

lemma hex_value_no_digit:
  "hex_digit_value h = None \<or> hex_digit_value l = None \<longleftrightarrow> hex_value h < 0 \<or> hex_value l < 0"
  by (auto simp: hex_value_table split: option.splits)

lemma hex_value_range: "hex_value c < 16"
  by (simp add: hex_value_def Let_def)

lemma push_bit_or_add:
  assumes "0 \<le> l" "l < 2 ^ n"
  shows "push_bit n h OR l = h * 2 ^ n + (l::int)"
  using concat_bit_eq [of n l h] assms
  by (simp add: concat_bit_def push_bit_eq_mult take_bit_int_eq_self or.commute)

lemma hex_join:
  assumes "\<not> h < 0" "\<not> l < 0" "l < 16"
  shows "(char_of (push_bit 4 h OR l) :: char) = char_of (16 * nat h + nat l)"
proof -
  have "push_bit 4 h OR l = 16 * h + l" using push_bit_or_add [of l 4 h] assms by simp
  also have "\<dots> = int (16 * nat h + nat l)" using assms by simp
  finally show ?thesis by (metis char_of_nat)
qed

lemma drop_Cons_nth: "i < length s \<Longrightarrow> drop i s = s ! i # drop (Suc i) s"
  by (simp add: Cons_nth_drop_Suc)

lemma percent_loop_end: "\<not> i < length s \<Longrightarrow> percent_loop s sp i owned = Inr owned"
  by (subst percent_loop.simps) simp

lemma percent_loop_space:
  "i < length s \<Longrightarrow> s ! i = CHR ''+'' \<Longrightarrow> sp \<Longrightarrow>
   percent_loop s sp i owned = percent_loop s sp (Suc i) (owned @ '' '')"
  by (subst percent_loop.simps) simp

lemma percent_loop_plain:
  "i < length s \<Longrightarrow> \<not> (s ! i = CHR ''+'' \<and> sp) \<Longrightarrow> s ! i \<noteq> CHR ''%'' \<Longrightarrow>
   percent_loop s sp i owned = percent_loop s sp (Suc i) (owned @ [s ! i])"
  by (subst percent_loop.simps) (auto simp: Let_def)

lemma percent_loop_short:
  "i < length s \<Longrightarrow> s ! i = CHR ''%'' \<Longrightarrow> i + 2 \<ge> length s \<Longrightarrow>
   percent_loop s sp i owned = Inl percent_error_short"
  by (subst percent_loop.simps) simp

lemma percent_loop_escape:
  "i + 2 < length s \<Longrightarrow> s ! i = CHR ''%'' \<Longrightarrow>
   percent_loop s sp i owned =
     (if hex_value (s ! (i + 1)) < 0 \<or> hex_value (s ! (i + 2)) < 0 then Inl percent_error_digit
      else percent_loop s sp (i + 3) (owned @
        [char_of (16 * nat (hex_value (s ! (i + 1))) + nat (hex_value (s ! (i + 2))))]))"
  by (subst percent_loop.simps) (auto simp: Let_def numeral_3_eq_3 hex_join hex_value_range)

definition percent_agrees :: "string \<Rightarrow> bool \<Rightarrow> nat \<Rightarrow> string \<Rightarrow> bool" where
  "percent_agrees s sp i owned \<longleftrightarrow> (case percent_spec sp (drop i s) of
      Some r \<Rightarrow> percent_loop s sp i owned = Inr (owned @ r)
    | None \<Rightarrow> percent_loop s sp i owned \<in> {Inl percent_error_short, Inl percent_error_digit})"

lemma percent_agrees_Cons:
  "percent_agrees s sp j (owned @ [c]) \<Longrightarrow>
   percent_spec sp (drop i s) = map_option ((#) c) (percent_spec sp (drop j s)) \<Longrightarrow>
   percent_loop s sp i owned = percent_loop s sp j (owned @ [c]) \<Longrightarrow> percent_agrees s sp i owned"
  by (cases "percent_spec sp (drop j s)") (auto simp: percent_agrees_def)

lemma percent_loop_spec: "percent_agrees s sp i owned"
proof (induction "length s - i" arbitrary: i owned rule: less_induct)
  case (less i owned)
  show ?case
  proof (cases "i < length s")
    case False
    then show ?thesis by (simp add: percent_agrees_def percent_loop_end)
  next
    case True
    note d = drop_Cons_nth [OF True]
    consider (space) "s ! i = CHR ''+''" sp
      | (plain) "\<not> (s ! i = CHR ''+'' \<and> sp)" "s ! i \<noteq> CHR ''%''"
      | (short) "s ! i = CHR ''%''" "i + 2 \<ge> length s"
      | (esc) "s ! i = CHR ''%''" "i + 2 < length s"
      by fastforce
    then show ?thesis
    proof cases
      case space
      show ?thesis
        by (rule percent_agrees_Cons [OF less.hyps [of "Suc i"]])
          (use True space d in \<open>simp_all add: percent_loop_space\<close>)
    next
      case plain
      show ?thesis
        by (rule percent_agrees_Cons [OF less.hyps [of "Suc i"]])
          (use True plain d in \<open>auto simp: percent_loop_plain\<close>)
    next
      case short
      then have "length (drop (Suc i) s) < 2" by simp
      then have "drop (Suc i) s = [] \<or> (\<exists>x. drop (Suc i) s = [x])"
        by (cases "drop (Suc i) s"; cases "tl (drop (Suc i) s)") auto
      then show ?thesis using short True d by (auto simp: percent_loop_short percent_agrees_def)
    next
      case esc
      have d2: "drop (Suc i) s = s ! (i + 1) # s ! (i + 2) # drop (i + 3) s"
        using esc(2) drop_Cons_nth [of "Suc i" s] drop_Cons_nth [of "i + 2" s]
        by (simp add: numeral_3_eq_3)
      show ?thesis
      proof (cases "hex_value (s ! (i + 1)) < 0 \<or> hex_value (s ! (i + 2)) < 0")
        case True
        then show ?thesis using esc d d2 hex_value_no_digit [of "s ! (i + 1)" "s ! (i + 2)"]
          by (auto simp: percent_agrees_def percent_loop_escape [OF esc(2,1)] split: option.splits)
      next
        case False
        then obtain x y where xy: "hex_digit_value (s ! (i + 1)) = Some x" "hex_digit_value (s ! (i + 2)) = Some y"
          using hex_value_no_digit [of "s ! (i + 1)" "s ! (i + 2)"] by auto
        show ?thesis
          by (rule percent_agrees_Cons [where owned = owned, OF less.hyps [of "i + 3"]])
            (use esc(2) False d d2 esc(1) percent_loop_escape [OF esc(2,1), of sp owned] xy
              hex_value_digits [OF xy] in simp_all)
      qed
    qed
  qed
qed

lemma percent_spec_id:
  "CHR ''%'' \<notin> set s \<Longrightarrow> \<not> (sp \<and> CHR ''+'' \<in> set s) \<Longrightarrow> percent_spec sp s = Some s"
  by (induction s) auto

lemma percent_decode_spec:
  "(case percent_spec sp s of
      Some r \<Rightarrow> \<exists>d. percent_decode s sp = Inr d \<and> dv_view d = r
    | None \<Rightarrow> \<exists>e. percent_decode s sp = Inl e \<and> se_code e = ''invalid_percent_encoding'')"
proof (cases "str_find s (CHR ''%'') 0 \<noteq> None \<or> (sp \<and> str_find s (CHR ''+'') 0 \<noteq> None)")
  case True
  then show ?thesis using percent_loop_spec [of s sp 0 "[]"]
    by (auto simp: percent_agrees_def percent_decode_def dv_view_def percent_error_short_def percent_error_digit_def
        scalar_error_def split: option.splits)
next
  case False
  then have "CHR ''%'' \<notin> set s" "\<not> (sp \<and> CHR ''+'' \<in> set s)"
    by (auto simp: str_find_None_iff)
  then have "percent_spec sp s = Some s" by (rule percent_spec_id)
  with False show ?thesis by (auto simp: percent_decode_def dv_view_def)
qed

lemma percent_decode_borrows:
  "percent_decode s sp = Inr d \<Longrightarrow>
   (dv_owns d \<longleftrightarrow> CHR ''%'' \<in> set s \<or> (sp \<and> CHR ''+'' \<in> set s)) \<and>
   (\<not> dv_owns d \<longrightarrow> dv_borrowed d = s \<and> dv_owned d = []) \<and>
   (dv_owns d \<longrightarrow> dv_borrowed d = [])"
  by (auto simp: percent_decode_def Let_def str_find_None_iff split: if_splits sum.splits)

lemma percent_spec_length: "percent_spec sp s = Some r \<Longrightarrow> length r \<le> length s"
proof (induction sp s arbitrary: r rule: percent_spec.induct)
  case (2 sp c cs)
  then show ?case by (fastforce split: if_splits list.splits option.splits)
qed simp

text \<open>Encoding every byte as an escape is always read back.\<close>

definition hex_digit :: "nat \<Rightarrow> char" where
  "hex_digit n = (if n < 10 then char_of (48 + n) else char_of (55 + n))"

definition percent_encode :: "string \<Rightarrow> string" where
  "percent_encode s = concat (map (\<lambda>c. [CHR ''%'', hex_digit (of_char c div 16), hex_digit (of_char c mod 16)]) s)"

lemma hex_digit_value_digit: "n < 16 \<Longrightarrow> hex_digit_value (hex_digit n) = Some n"
proof -
  assume n: "n < 16"
  have "list_all (\<lambda>n. hex_digit_value (hex_digit n) = Some n) [0..<16]" by code_simp
  with n show ?thesis by (simp add: list_all_iff)
qed

lemma percent_spec_encode: "percent_spec sp (percent_encode s) = Some s"
proof (induction s)
  case (Cons c s)
  have "(of_char c :: nat) < 256" by (rule nat_of_char_less_256)
  then have "(of_char c :: nat) div 16 < 16" "(of_char c :: nat) mod 16 < 16" by linarith+
  moreover have "char_of (16 * (of_char c div 16) + of_char c mod (16::nat)) = c"
    by (simp add: mult_div_mod_eq)
  ultimately show ?case using Cons by (simp add: percent_encode_def hex_digit_value_digit)
qed (simp add: percent_encode_def)

section \<open>Scalar values have their type\<close>

fun scalar_value_ok :: "ctype \<Rightarrow> jvalue \<Rightarrow> bool" where
  "scalar_value_ok C_string (V_string _) = True"
| "scalar_value_ok C_string_view (V_string _) = True"
| "scalar_value_ok C_bool (V_bool _) = True"
| "scalar_value_ok (C_int sgnd w) (V_int v) = int_in_range sgnd w v"
| "scalar_value_ok (C_float _) (V_float x) = is_finite x"
| "scalar_value_ok (C_enum e) (V_enum v) = (v \<in> snd ` set (en_enumerators e))"
| "scalar_value_ok _ _ = False"

lemma parse_enum_Some: "parse_enum es s = Some v \<Longrightarrow> (s, v) \<in> set es"
  by (induction es) (auto split: if_splits)

lemma parse_enum_None: "parse_enum es s = None \<longleftrightarrow> s \<notin> fst ` set es"
  by (induction es) auto

lemma parse_scalar_ok:
  "parse_scalar t s = Some (Inr v) \<Longrightarrow> scalar_value_ok t v"
proof (cases t)
  case (C_int sgnd w)
  moreover assume "parse_scalar t s = Some (Inr v)"
  ultimately show ?thesis
    by (auto split: prod.splits if_splits dest: from_chars_int_range)
next
  case (C_enum e)
  moreover assume "parse_scalar t s = Some (Inr v)"
  ultimately show ?thesis
    by (force split: option.splits dest: parse_enum_Some)
qed (auto split: prod.splits if_splits)

lemma parse_scalar_bindable: "scalar_bindable t \<longleftrightarrow> parse_scalar t s \<noteq> None"
  by (cases t) auto

lemma parse_scalar_int_iff:
  "parse_scalar (C_int sgnd w) s = Some (Inr (V_int v)) \<longleftrightarrow>
     decimal_numeral sgnd s v \<and> int_in_range sgnd w v"
proof
  assume "parse_scalar (C_int sgnd w) s = Some (Inr (V_int v))"
  then have "from_chars_int sgnd w s = (Errc_none, v, length s)"
    by (auto split: prod.splits if_splits)
  then show "decimal_numeral sgnd s v \<and> int_in_range sgnd w v"
    by (simp add: from_chars_int_numeral)
next
  assume "decimal_numeral sgnd s v \<and> int_in_range sgnd w v"
  then have "from_chars_int sgnd w s = (Errc_none, v, length s)" "s \<noteq> []"
    by (auto simp: from_chars_int_numeral decimal_numeral_def)
  then show "parse_scalar (C_int sgnd w) s = Some (Inr (V_int v))" by simp
qed

section \<open>Properties\<close>

text \<open>C30. \<open>percent_decode\<close> computes the decoding grammar, whose hexadecimal digits are a table of
  their own: it fails exactly when a percent sign is not followed by two of the digits, decodes every
  escape to the byte its digits name and, in form mode, every plus sign to a space, and never returns
  more characters than it was given. It owns a buffer exactly when the input has a percent sign or, in
  form mode, a plus sign; otherwise it borrows: the result is the input itself and nothing is copied.\<close>

theorem percent_decode_correct:
  "(case percent_decode s sp of
      Inl e \<Rightarrow> percent_spec sp s = None \<and> se_code e = ''invalid_percent_encoding''
    | Inr d \<Rightarrow> percent_spec sp s = Some (dv_view d) \<and> length (dv_view d) \<le> length s \<and>
        (if CHR ''%'' \<in> set s \<or> (sp \<and> CHR ''+'' \<in> set s)
         then dv_owns d \<and> dv_borrowed d = []
         else \<not> dv_owns d \<and> dv_borrowed d = s \<and> dv_owned d = []))"
  using percent_decode_spec [of s sp] percent_decode_borrows [of s sp] percent_spec_length [of sp s]
  by (auto split: option.splits sum.splits)

text \<open>Percent encoding round trips: the encoding of any byte string decodes to that string, in path
  mode and in form mode.\<close>

lemma percent_decode_encode:
  "map_option dv_view (case percent_decode (percent_encode s) sp of Inl e \<Rightarrow> None | Inr d \<Rightarrow> Some d) = Some s"
  using percent_decode_spec [of "percent_encode s" sp]
  by (auto simp: percent_spec_encode)

text \<open>Integer parameters: an input is accepted with a value exactly when it is a decimal numeral of
  that value (a minus sign only for signed types, no plus sign, no spaces) and the value is in the range
  of the type; a numeral out of range and a text that is no numeral are told apart.\<close>

lemma parse_scalar_integer:
  "parse_scalar (C_int sgnd w) s = Some (Inr v) \<longleftrightarrow>
     (\<exists>i. v = V_int i \<and> decimal_numeral sgnd s i \<and> int_in_range sgnd w i)"
proof
  assume p: "parse_scalar (C_int sgnd w) s = Some (Inr v)"
  then obtain i where "v = V_int i" by (auto split: prod.splits if_splits)
  with p show "\<exists>i. v = V_int i \<and> decimal_numeral sgnd s i \<and> int_in_range sgnd w i"
    using parse_scalar_int_iff by blast
qed (use parse_scalar_int_iff in blast)

text \<open>Printing and parsing an integer are inverse at every width, and the buffer the writer
  provides, \<open>digits10 + 4\<close> characters, always holds the text.\<close>

lemma integer_text_roundtrip:
  assumes "w \<in> {8, 16, 32, 64}" "int_in_range sgnd w v"
  shows "\<exists>s. to_chars_int (digits10 sgnd w + 4) v = Some s \<and>
    parse_scalar (C_int sgnd w) s = Some (Inr (V_int v))"
  using to_chars_int_fits [OF assms] from_chars_show_int [OF assms(2)]
  by (auto simp: show_int_def)

lemma integer_text_roundtrip_witness:
  "\<exists>s. to_chars_int (digits10 True 8 + 4) (- 128) = Some s \<and>
    parse_scalar (C_int True 8) s = Some (Inr (V_int (- 128)))"
  by (rule integer_text_roundtrip) (simp_all add: int_in_range_def)

text \<open>C31. Scalar parsing is typed: what it returns for a type is a value of that type, in the range of
  the integer type, finite for a floating-point type, a reflected enumerator for an enum; and it is
  defined exactly for the types \<open>scalar_bindable\<close> admits.\<close>

theorem parse_scalar_typed:
  "(scalar_bindable t \<longleftrightarrow> parse_scalar t s \<noteq> None) \<and>
   (\<forall>v. parse_scalar t s = Some (Inr v) \<longrightarrow> scalar_value_ok t v)"
  using parse_scalar_bindable parse_scalar_ok by blast

theorem parse_scalar_typed_witness:
  "scalar_value_ok (C_int False 8) (V_int 255)"
proof -
  have "parse_scalar (C_int False 8) ''255'' = Some (Inr (V_int 255))" by code_simp
  then show ?thesis using parse_scalar_typed by blast
qed

end
