(* ===== verification/Flash_Binding_Request.thy ===== *)
theory Flash_Binding_Request
  imports Flash_Scalar Flash_Http
begin

text \<open>
  \<open>include/flash/binding/request.hpp\<close>: the lookup of a scalar in the query string, the headers and
  the cookies. Each refuses a second occurrence. The two loops over separated pieces obey
  \<open>separator_scan\<close>, all three lookups obey \<open>unique_lookup\<close>.
\<close>

section \<open>Query parameters\<close>

definition duplicate_query :: scalar_error where
  "duplicate_query = scalar_error ''duplicate_query_parameter''
     ''A scalar query parameter occurred more than once.''"

definition visit_query_pair ::
    "string \<Rightarrow> string \<Rightarrow> bool \<Rightarrow> string option
      \<Rightarrow> (scalar_error + string option) + string option" where
  "visit_query_pair expected_name pair has_next result =
     (let equals = str_find pair (CHR ''='') 0;
          raw_name = before_index pair equals;
          raw_value = (case equals of None \<Rightarrow> [] | Some k \<Rightarrow> drop (k + 1) pair)
      in case percent_decode raw_name True of
           Inl e \<Rightarrow> Inl (Inl e)
         | Inr decoded_name \<Rightarrow>
             (if dv_view decoded_name = expected_name then
                (if result \<noteq> None then Inl (Inl duplicate_query) else Inr (Some raw_value))
              else Inr result))"

function query_loop ::
    "string \<Rightarrow> string \<Rightarrow> nat \<Rightarrow> string option \<Rightarrow> scalar_error + string option" where
  "query_loop expected_name query off result =
     (if off \<le> length query then
        (let separator = str_find query (CHR ''&'') off;
             e = (case separator of None \<Rightarrow> length query | Some k \<Rightarrow> k)
         in case visit_query_pair expected_name (substr query off (e - off)) (separator \<noteq> None) result of
              Inl r \<Rightarrow> r
            | Inr result' \<Rightarrow>
                (case separator of None \<Rightarrow> Inr result'
                 | Some k \<Rightarrow> query_loop expected_name query (k + 1) result'))
      else Inr result)"
  by pat_completeness auto
termination
  by (relation "measure (\<lambda>(n, query, off, result). Suc (length query) - off)")
     (auto dest: str_find_bound [OF sym])

declare query_loop.simps [simp del]

text \<open>The loop guard also tests that the query is not empty, which the loop does not change.\<close>

definition find_query_value :: "request_view \<Rightarrow> string \<Rightarrow> scalar_error + string option" where
  "find_query_value request expected_name =
     (if rv_query request = [] then Inr None
      else query_loop expected_name (rv_query request) 0 None)"

section \<open>Headers\<close>

definition duplicate_header :: scalar_error where
  "duplicate_header = scalar_error ''duplicate_header'' ''A scalar header occurred more than once.''"

fun header_loop ::
    "string \<Rightarrow> header_view list \<Rightarrow> string option \<Rightarrow> scalar_error + string option" where
  "header_loop expected_name [] result = Inr result"
| "header_loop expected_name (h # hs) result =
     (if \<not> ascii_iequals (hv_name h) expected_name then header_loop expected_name hs result
      else if result \<noteq> None then Inl duplicate_header
      else header_loop expected_name hs (Some (hv_value h)))"

definition find_header_value :: "request_view \<Rightarrow> string \<Rightarrow> scalar_error + string option" where
  "find_header_value request expected_name = header_loop expected_name (rv_headers request) None"

section \<open>Cookies\<close>

definition is_ows :: "char \<Rightarrow> bool" where
  "is_ows c \<longleftrightarrow> c = CHR '' '' \<or> c = CHR 0x09"

fun trim_front :: "string \<Rightarrow> string" where
  "trim_front [] = []"
| "trim_front (c # cs) = (if is_ows c then trim_front cs else c # cs)"

function trim_back :: "string \<Rightarrow> string" where
  "trim_back s = (if s \<noteq> [] \<and> is_ows (last s) then trim_back (butlast s) else s)"
  by pat_completeness auto
termination
  by (relation "measure length") auto

declare trim_back.simps [simp del]

definition trim_optional_whitespace :: "string \<Rightarrow> string" where
  "trim_optional_whitespace value = trim_back (trim_front value)"

definition duplicate_cookie :: scalar_error where
  "duplicate_cookie = scalar_error ''duplicate_cookie'' ''A scalar cookie occurred more than once.''"

definition visit_cookie_pair ::
    "string \<Rightarrow> string \<Rightarrow> bool \<Rightarrow> string option
      \<Rightarrow> (scalar_error + string option) + string option" where
  "visit_cookie_pair expected_name piece has_next result =
     (let pair = trim_optional_whitespace piece;
          equals = str_find pair (CHR ''='') 0
      in case equals of None \<Rightarrow> Inr result
         | Some k \<Rightarrow>
             (let name = trim_optional_whitespace (substr pair 0 k);
                  value = trim_optional_whitespace (drop (k + 1) pair)
              in if name = expected_name then
                   (if result \<noteq> None then Inl (Inl duplicate_cookie) else Inr (Some value))
                 else Inr result))"

function cookie_loop ::
    "string \<Rightarrow> string \<Rightarrow> nat \<Rightarrow> string option \<Rightarrow> scalar_error + string option" where
  "cookie_loop expected_name cookies off result =
     (if off \<le> length cookies then
        (let separator = str_find cookies (CHR '';'') off;
             e = (case separator of None \<Rightarrow> length cookies | Some k \<Rightarrow> k)
         in case visit_cookie_pair expected_name (substr cookies off (e - off)) (separator \<noteq> None) result of
              Inl r \<Rightarrow> r
            | Inr result' \<Rightarrow>
                (case separator of None \<Rightarrow> Inr result'
                 | Some k \<Rightarrow> cookie_loop expected_name cookies (k + 1) result'))
      else Inr result)"
  by pat_completeness auto
termination
  by (relation "measure (\<lambda>(n, cookies, off, result). Suc (length cookies) - off)")
     (auto dest: str_find_bound [OF sym])

declare cookie_loop.simps [simp del]

definition find_cookie_value :: "request_view \<Rightarrow> string \<Rightarrow> scalar_error + string option" where
  "find_cookie_value request expected_name =
     (case find_header_value request ''Cookie'' of
        Inl e \<Rightarrow> Inl e
      | Inr None \<Rightarrow> Inr None
      | Inr (Some cookies) \<Rightarrow>
          (if cookies = [] then Inr None else cookie_loop expected_name cookies 0 None))"

section \<open>The loops as scans over pieces\<close>

interpretation query_scan: separator_scan "CHR ''&''" "visit_query_pair n" Inr "query_loop n" for n
  by unfold_locales (auto simp: query_loop.simps split: sum.splits option.splits)

interpretation cookie_scan: separator_scan "CHR '';''" "visit_cookie_pair n" Inr "cookie_loop n" for n
  by unfold_locales (auto simp: cookie_loop.simps split: sum.splits option.splits)

section \<open>The lookups as unique lookups\<close>

text \<open>What one piece contributes: an error, nothing, or a value for the name.\<close>

definition query_probe :: "string \<Rightarrow> string \<Rightarrow> scalar_error + string option" where
  "query_probe n pair =
     (let equals = str_find pair (CHR ''='') 0 in
      case percent_decode (before_index pair equals) True of
        Inl e \<Rightarrow> Inl e
      | Inr d \<Rightarrow> Inr (if dv_view d = n then Some (after_index pair equals) else None))"

definition cookie_probe :: "string \<Rightarrow> string \<Rightarrow> scalar_error + string option" where
  "cookie_probe n piece =
     (let pair = trim_optional_whitespace piece in
      case str_find pair (CHR ''='') 0 of None \<Rightarrow> Inr None
      | Some k \<Rightarrow> Inr (if trim_optional_whitespace (take k pair) = n
                      then Some (trim_optional_whitespace (drop (Suc k) pair)) else None))"

definition header_probe :: "string \<Rightarrow> header_view \<Rightarrow> scalar_error + string option" where
  "header_probe n h = Inr (if ascii_iequals (hv_name h) n then Some (hv_value h) else None)"

interpretation query_lookup: unique_lookup "query_probe n" duplicate_query
  "scan_pieces (visit_query_pair n) Inr" for n
  by unfold_locales
    (auto simp: visit_query_pair_def query_probe_def after_index_def Let_def
      split: sum.splits option.splits)

interpretation cookie_lookup: unique_lookup "cookie_probe n" duplicate_cookie
  "scan_pieces (visit_cookie_pair n) Inr" for n
  by unfold_locales
    (auto simp: visit_cookie_pair_def cookie_probe_def substr_def Let_def
      split: sum.splits option.splits)

interpretation header_lookup: unique_lookup "header_probe n" duplicate_header "header_loop n" for n
  by unfold_locales (auto simp: header_probe_def)

lemma find_query_value_eq:
  "find_query_value r n = (if rv_query r = [] then Inr None
     else scan_pieces (visit_query_pair n) Inr (split_on (CHR ''&'') (rv_query r)) None)"
  by (simp add: find_query_value_def query_scan.scan_all)

lemma find_cookie_value_eq:
  "find_cookie_value r n = (case find_header_value r ''Cookie'' of
        Inl e \<Rightarrow> Inl e
      | Inr None \<Rightarrow> Inr None
      | Inr (Some c) \<Rightarrow> (if c = [] then Inr None
          else scan_pieces (visit_cookie_pair n) Inr (split_on (CHR '';'') c) None))"
  by (simp add: find_cookie_value_def cookie_scan.scan_all split: sum.splits option.splits)

lemma header_probes_ok [simp]: "probes_ok (header_probe n) hs"
  by (induction hs) (auto simp: header_probe_def)

lemma cookie_probes_ok [simp]: "probes_ok (cookie_probe n) ps"
  by (induction ps) (auto simp: cookie_probe_def Let_def split: option.splits)

lemma header_hits: "probe_hits (header_probe n) hs =
    map hv_value (filter (\<lambda>h. ascii_iequals (hv_name h) n) hs)"
  by (induction hs) (auto simp: header_probe_def)

lemma find_header_value_iff:
  "find_header_value r n = Inr v \<longleftrightarrow>
     (let hits = map hv_value (filter (\<lambda>h. ascii_iequals (hv_name h) n) (rv_headers r))
      in (hits = [] \<and> v = None) \<or> (\<exists>x. hits = [x] \<and> v = Some x))"
  by (auto simp: find_header_value_def header_lookup.look_Inr_iff header_hits Let_def)

lemma find_header_value_duplicate:
  "2 \<le> length (filter (\<lambda>h. ascii_iequals (hv_name h) n) (rv_headers r)) \<Longrightarrow>
   find_header_value r n = Inl duplicate_header"
  unfolding find_header_value_def by (rule header_lookup.look_duplicate) (simp_all add: header_hits)

text \<open>Without a duplicate the strict lookup agrees with \<open>request_view::header\<close>.\<close>

lemma find_header_first:
  "find_header hs n = (case filter (\<lambda>h. ascii_iequals (hv_name h) n) hs of [] \<Rightarrow> None | h # _ \<Rightarrow> Some (hv_value h))"
  by (induction hs) auto

lemma find_header_value_header: "find_header_value r n = Inr v \<Longrightarrow> request_header r n = v"
  by (auto simp: find_header_value_iff request_header_def find_header_first Let_def split: list.splits)

section \<open>Trimming\<close>

lemma trim_front_dropWhile: "trim_front s = dropWhile is_ows s"
  by (induction s) auto

lemma trim_back_eq: "trim_back s = rev (dropWhile is_ows (rev s))"
proof (induction s rule: rev_induct)
  case Nil
  then show ?case by (simp add: trim_back.simps)
next
  case (snoc x xs)
  then show ?case by (subst trim_back.simps) auto
qed

lemma trim_decomp:
  "\<exists>l r. s = l @ trim_optional_whitespace s @ r \<and> (\<forall>c \<in> set l \<union> set r. is_ows c)"
proof -
  have "s = takeWhile is_ows s @ trim_front s" by (simp add: trim_front_dropWhile)
  moreover have "trim_front s = trim_back (trim_front s) @ rev (takeWhile is_ows (rev (trim_front s)))"
    by (metis rev_append rev_rev_ident takeWhile_dropWhile_id trim_back_eq)
  ultimately have "s = takeWhile is_ows s @ trim_optional_whitespace s @
      rev (takeWhile is_ows (rev (trim_front s)))"
    unfolding trim_optional_whitespace_def by simp
  then show ?thesis by (metis Un_iff set_rev set_takeWhileD)
qed

lemma trim_ends:
  assumes "trim_optional_whitespace s \<noteq> []"
  shows "\<not> is_ows (hd (trim_optional_whitespace s))" "\<not> is_ows (last (trim_optional_whitespace s))"
proof -
  let ?t = "dropWhile is_ows s"
  have t: "trim_optional_whitespace s = rev (dropWhile is_ows (rev ?t))"
    by (simp add: trim_optional_whitespace_def trim_front_dropWhile trim_back_eq)
  then have ne: "dropWhile is_ows (rev ?t) \<noteq> []" using assms by simp
  show "\<not> is_ows (last (trim_optional_whitespace s))"
    unfolding t using hd_dropWhile [OF ne] ne by (simp add: last_rev)
  obtain r where r: "?t = trim_optional_whitespace s @ r"
    unfolding t by (metis rev_append rev_rev_ident takeWhile_dropWhile_id)
  then have "?t \<noteq> []" "hd ?t = hd (trim_optional_whitespace s)" using assms by auto
  then show "\<not> is_ows (hd (trim_optional_whitespace s))" using hd_dropWhile by metis
qed

section \<open>Properties\<close>

text \<open>Looking up a query parameter finds the only one: a value is returned exactly when every key of
  the query decodes and the raw values whose decoded key is the name are that one value; with two of them
  the request is refused as a duplicate.\<close>

lemma find_query_value_unique:
  "find_query_value r n = Inr (Some v) \<longleftrightarrow> rv_query r \<noteq> [] \<and>
     probes_ok (query_probe n) (split_on (CHR ''&'') (rv_query r)) \<and>
     probe_hits (query_probe n) (split_on (CHR ''&'') (rv_query r)) = [v]"
  by (simp add: find_query_value_eq query_lookup.look_found)

text \<open>Duplicates are refused wherever they could smuggle a second value: two query keys with the
  same decoded name, two headers whose names differ only in case, two cookies of one name.\<close>

lemma duplicates_refused:
  assumes "probes_ok (query_probe n) (split_on (CHR ''&'') (rv_query r))"
    "2 \<le> length (probe_hits (query_probe n) (split_on (CHR ''&'') (rv_query r)))"
    "2 \<le> length (filter (\<lambda>h. ascii_iequals (hv_name h) k) (rv_headers r))"
    "find_header_value r ''Cookie'' = Inr (Some cookies)"
    "2 \<le> length (probe_hits (cookie_probe c) (split_on (CHR '';'') cookies))"
  shows "find_query_value r n = Inl duplicate_query \<and> find_header_value r k = Inl duplicate_header \<and>
    find_cookie_value r c = Inl duplicate_cookie"
proof -
  have "rv_query r \<noteq> []" using assms(2) by (auto simp: query_probe_def split: sum.splits option.splits)
  then have "find_query_value r n = Inl duplicate_query"
    using query_lookup.look_duplicate [OF assms(1,2)] by (simp add: find_query_value_eq)
  moreover have "cookies \<noteq> []" using assms(5) by (auto split: sum.splits option.splits)
  then have "find_cookie_value r c = Inl duplicate_cookie"
    using cookie_lookup.look_duplicate [OF cookie_probes_ok assms(5)] assms(4) by (simp add: find_cookie_value_eq)
  ultimately show ?thesis using find_header_value_duplicate [OF assms(3)] by simp
qed

lemma duplicates_refused_witness:
  "\<exists>r. find_query_value r ''a'' = Inl duplicate_query \<and> find_header_value r ''x'' = Inl duplicate_header \<and>
    find_cookie_value r ''s'' = Inl duplicate_cookie"
proof -
  let ?r = "make_request Get ''/p?a=1&%61=2'' [\<lparr>hv_name = ''X'', hv_value = ''1''\<rparr>,
     \<lparr>hv_name = ''x'', hv_value = ''2''\<rparr>, \<lparr>hv_name = ''cookie'', hv_value = ''s=1; s=2''\<rparr>] [] True None"
  have "probes_ok (query_probe ''a'') (split_on (CHR ''&'') (rv_query ?r))"
    "2 \<le> length (probe_hits (query_probe ''a'') (split_on (CHR ''&'') (rv_query ?r)))"
    "2 \<le> length (filter (\<lambda>h. ascii_iequals (hv_name h) ''x'') (rv_headers ?r))"
    "find_header_value ?r ''Cookie'' = Inr (Some ''s=1; s=2'')"
    "2 \<le> length (probe_hits (cookie_probe ''s'') (split_on (CHR '';'') ''s=1; s=2''))"
    by code_simp+
  then show ?thesis using duplicates_refused by blast
qed

end
