(* ===== verification/Flash_Json_Cursor.thy ===== *)
theory Flash_Json_Cursor
  imports Flash_Scalar
begin

text \<open>
  \<open>include/flash/json/read.hpp\<close>, first half: the limits, the errors and the class \<open>cursor\<close> with its
  lexical operations. A method takes the cursor and returns its result with the cursor after it; a
  failed call ends the reading, so an error carries no cursor. \<open>Out_of_fuel\<close> is the outcome of a loop
  whose bound was too small; it never is, which the theory on totality shows.
\<close>

unbundle bit_operations_syntax

section \<open>Limits, errors, outcomes\<close>

record read_limits =
  maximum_input_bytes :: nat
  maximum_depth :: nat
  maximum_string_bytes :: nat
  maximum_array_elements :: nat
  maximum_object_members :: nat
  reject_unknown_fields :: bool

definition default_limits :: read_limits where
  "default_limits = \<lparr>maximum_input_bytes = 1024 * 1024, maximum_depth = 64,
     maximum_string_bytes = 1024 * 1024, maximum_array_elements = 100000,
     maximum_object_members = 100000, reject_unknown_fields = True\<rparr>"

record read_error =
  re_code :: string
  re_message :: string
  re_path :: string
  re_offset :: nat

record parsed_string =
  ps_owned :: string
  ps_borrowed :: string
  ps_owns :: bool

definition ps_view :: "parsed_string \<Rightarrow> string" where
  "ps_view p = (if ps_owns p then ps_owned p else ps_borrowed p)"

record cursor =
  cu_input :: string
  cu_limits :: read_limits
  cu_position :: nat

datatype 'a outcome = Done 'a cursor | Fail read_error | Out_of_fuel

fun obind :: "'a outcome \<Rightarrow> ('a \<Rightarrow> cursor \<Rightarrow> 'b outcome) \<Rightarrow> 'b outcome" where
  "obind (Done x cu) f = f x cu"
| "obind (Fail e) f = Fail e"
| "obind Out_of_fuel f = Out_of_fuel"

section \<open>Characters\<close>

definition advance :: "nat \<Rightarrow> cursor \<Rightarrow> cursor" where
  "advance n cu = cu\<lparr>cu_position := cu_position cu + n\<rparr>"

definition at_end :: "cursor \<Rightarrow> bool" where
  "at_end cu \<longleftrightarrow> cu_position cu = length (cu_input cu)"

definition peek :: "cursor \<Rightarrow> char" where
  "peek cu = (if at_end cu then CHR 0x00 else cu_input cu ! cu_position cu)"

definition is_json_space :: "char \<Rightarrow> bool" where
  "is_json_space character \<longleftrightarrow> \<not> (character \<noteq> CHR '' '' \<and> character \<noteq> CHR 0x09 \<and>
     character \<noteq> CHR 0x0D \<and> character \<noteq> CHR 0x0A)"

text \<open>The position never passes the end, so \<open>!at_end()\<close> is written with \<open><\<close>, which bounds the loops.\<close>

function skip_whitespace :: "cursor \<Rightarrow> cursor" where
  "skip_whitespace cu =
     (if cu_position cu < length (cu_input cu) then
        (if \<not> is_json_space (cu_input cu ! cu_position cu) then cu
         else skip_whitespace (advance 1 cu))
      else cu)"
  by pat_completeness auto
termination
  by (relation "measure (\<lambda>cu. length (cu_input cu) - cu_position cu)") (auto simp: advance_def)

definition cursor_error :: "cursor \<Rightarrow> string \<Rightarrow> string \<Rightarrow> string \<Rightarrow> read_error" where
  "cursor_error cu code message path =
     \<lparr>re_code = code, re_message = message, re_path = path, re_offset = cu_position cu\<rparr>"

definition consume :: "char \<Rightarrow> cursor \<Rightarrow> bool \<times> cursor" where
  "consume character cu =
     (if peek cu \<noteq> character then (False, cu) else (True, advance 1 cu))"

definition cursor_starts_with :: "cursor \<Rightarrow> string \<Rightarrow> bool" where
  "cursor_starts_with cu literal = starts_with (drop (cu_position cu) (cu_input cu)) literal"

definition consume_literal :: "string \<Rightarrow> string \<Rightarrow> cursor \<Rightarrow> unit outcome" where
  "consume_literal literal path cu =
     (if \<not> cursor_starts_with cu literal
      then Fail (cursor_error cu ''invalid_literal'' ''JSON literal is invalid.'' path)
      else Done () (advance (length literal) cu))"

section \<open>UTF-8\<close>

definition append_utf8 :: "string \<Rightarrow> nat \<Rightarrow> string" where
  "append_utf8 output scalar =
     (if scalar \<le> 0x7F then output @ [char_of scalar]
      else if scalar \<le> 0x7FF then
        output @ [char_of (0xC0 OR drop_bit 6 scalar), char_of (0x80 OR (scalar AND 0x3F))]
      else if scalar \<le> 0xFFFF then
        output @ [char_of (0xE0 OR drop_bit 12 scalar),
          char_of (0x80 OR (drop_bit 6 scalar AND 0x3F)), char_of (0x80 OR (scalar AND 0x3F))]
      else
        output @ [char_of (0xF0 OR drop_bit 18 scalar),
          char_of (0x80 OR (drop_bit 12 scalar AND 0x3F)),
          char_of (0x80 OR (drop_bit 6 scalar AND 0x3F)), char_of (0x80 OR (scalar AND 0x3F))])"

text \<open>The number of continuation bytes, the bits of the lead byte and the least scalar of its length.\<close>

definition utf8_lead :: "nat \<Rightarrow> (nat \<times> nat \<times> nat) option" where
  "utf8_lead lead =
     (if lead AND 0xE0 = 0xC0 then Some (1, lead AND 0x1F, 0x80)
      else if lead AND 0xF0 = 0xE0 then Some (2, lead AND 0x0F, 0x800)
      else if lead AND 0xF8 = 0xF0 then Some (3, lead AND 0x07, 0x10000)
      else None)"

text \<open>The inner loop, over \<open>offset\<close>: \<open>None\<close> is \<open>return false\<close>.\<close>

fun continuation_loop :: "string \<Rightarrow> nat \<Rightarrow> nat \<Rightarrow> nat option" where
  "continuation_loop [] n scalar = (if n = 0 then Some scalar else None)"
| "continuation_loop (c # cs) n scalar =
     (if n = 0 then Some scalar
      else
        (let continuation = of_char c :: nat in
         if continuation AND 0xC0 \<noteq> 0x80 then None
         else continuation_loop cs (n - 1) (push_bit 6 scalar OR (continuation AND 0x3F))))"

function utf8_loop :: "string \<Rightarrow> nat \<Rightarrow> bool" where
  "utf8_loop value index =
     (if index < length value then
        (let lead = of_char (value ! index) :: nat in
         if lead \<le> 0x7F then utf8_loop value (index + 1)
         else
           (case utf8_lead lead of None \<Rightarrow> False
            | Some (continuation_count, bits, minimum) \<Rightarrow>
                if length value - index - 1 < continuation_count then False
                else
                  (case continuation_loop (drop (index + 1) value) continuation_count bits of
                     None \<Rightarrow> False
                   | Some scalar \<Rightarrow>
                       if scalar < minimum \<or> scalar > 0x10FFFF \<or> (scalar \<ge> 0xD800 \<and> scalar \<le> 0xDFFF)
                       then False
                       else utf8_loop value (index + (continuation_count + 1)))))
      else True)"
  by pat_completeness auto
termination
  by (relation "measure (\<lambda>(value, index). length value - index)") auto

declare skip_whitespace.simps [simp del] utf8_loop.simps [simp del]

definition valid_utf8 :: "string \<Rightarrow> bool" where
  "valid_utf8 value = utf8_loop value 0"

section \<open>Strings\<close>

text \<open>The four digits of \<open>\\u\<close>: every digit read moves the position, also the wrong one.\<close>

primrec hex_quad_loop :: "nat \<Rightarrow> nat \<Rightarrow> string \<Rightarrow> cursor \<Rightarrow> nat outcome" where
  "hex_quad_loop 0 value path cu = Done value cu"
| "hex_quad_loop (Suc n) value path cu =
     (let digit = hex_value (cu_input cu ! cu_position cu);
          cu1 = advance 1 cu
      in if digit < 0
         then Fail (cursor_error cu1 ''invalid_unicode''
                ''Unicode escape contains a non-hexadecimal digit.'' path)
         else hex_quad_loop n (push_bit 4 value OR nat digit) path cu1)"

definition parse_hex_quad :: "string \<Rightarrow> cursor \<Rightarrow> nat outcome" where
  "parse_hex_quad path cu =
     (if length (cu_input cu) - cu_position cu < 4
      then Fail (cursor_error cu ''invalid_unicode''
             ''Unicode escape requires four hexadecimal digits.'' path)
      else hex_quad_loop 4 0 path cu)"

text \<open>The case \<open>'u'\<close>: the scalar of an escape, or of a pair of surrogates.\<close>

definition unicode_escape :: "string \<Rightarrow> cursor \<Rightarrow> nat outcome" where
  "unicode_escape path cu =
     obind (parse_hex_quad path cu) (\<lambda>scalar cu1.
       if scalar \<ge> 0xD800 \<and> scalar \<le> 0xDBFF then
         (if \<not> cursor_starts_with cu1 [CHR 0x5C, CHR ''u'']
          then Fail (cursor_error cu1 ''invalid_unicode''
                 ''High surrogate must be followed by a low surrogate.'' path)
          else
            obind (parse_hex_quad path (advance 2 cu1)) (\<lambda>low cu2.
              if low < 0xDC00 \<or> low > 0xDFFF
              then Fail (cursor_error cu2 ''invalid_unicode''
                     ''High surrogate is followed by an invalid low surrogate.'' path)
              else Done (0x10000 + push_bit 10 (scalar - 0xD800) + (low - 0xDC00)) cu2))
       else if scalar \<ge> 0xDC00 \<and> scalar \<le> 0xDFFF
       then Fail (cursor_error cu1 ''invalid_unicode''
              ''Low surrogate has no preceding high surrogate.'' path)
       else Done scalar cu1)"

text \<open>The \<open>switch\<close> on the character after a backslash: the text to append.\<close>

definition escape_step :: "string \<Rightarrow> char \<Rightarrow> cursor \<Rightarrow> string outcome" where
  "escape_step path escape cu =
     (if escape = CHR 0x22 then Done [CHR 0x22] cu
      else if escape = CHR 0x5C then Done [CHR 0x5C] cu
      else if escape = CHR ''/'' then Done ''/'' cu
      else if escape = CHR ''b'' then Done [CHR 0x08] cu
      else if escape = CHR ''f'' then Done [CHR 0x0C] cu
      else if escape = CHR ''n'' then Done [CHR 0x0A] cu
      else if escape = CHR ''r'' then Done [CHR 0x0D] cu
      else if escape = CHR ''t'' then Done [CHR 0x09] cu
      else if escape = CHR ''u''
      then obind (unicode_escape path cu) (\<lambda>scalar cu1. Done (append_utf8 [] scalar) cu1)
      else Fail (cursor_error cu ''invalid_escape''
             ''JSON string contains an unsupported escape sequence.'' path))"

text \<open>The closing quote at \<open>character_offset\<close>, with the cursor after it.\<close>

definition close_string :: "string \<Rightarrow> nat \<Rightarrow> nat \<Rightarrow> parsed_string \<Rightarrow> cursor \<Rightarrow> parsed_string outcome" where
  "close_string path segment_start character_offset result cu =
     (let segment = substr (cu_input cu) segment_start (character_offset - segment_start);
          result1 = (if ps_owns result then result\<lparr>ps_owned := ps_owned result @ segment\<rparr>
                     else result\<lparr>ps_borrowed := segment\<rparr>);
          size = (if ps_owns result then length (ps_owned result1)
                  else character_offset - segment_start)
      in if size > maximum_string_bytes (cu_limits cu)
         then Fail (cursor_error cu ''string_too_large''
                ''JSON string exceeds the configured limit.'' path)
         else if \<not> valid_utf8 (ps_view result1)
         then Fail (cursor_error cu ''invalid_utf8''
                ''JSON string contains invalid UTF-8.'' path)
         else Done result1 cu)"

lemma advance_simps [simp]:
  "cu_position (advance n cu) = cu_position cu + n"
  "cu_input (advance n cu) = cu_input cu"
  "cu_limits (advance n cu) = cu_limits cu"
  "advance m (advance n cu) = advance (n + m) cu"
  "advance 0 cu = cu"
  by (simp_all add: advance_def)

lemma obind_Done_iff:
  "obind m f = Done y cu' \<longleftrightarrow> (\<exists>x cu. m = Done x cu \<and> f x cu = Done y cu')"
  by (cases m) auto

lemma hex_quad_loop_cursor:
  "hex_quad_loop n v path cu = Done w cu' \<Longrightarrow> cu' = advance n cu"
proof (induction n arbitrary: v cu)
  case (Suc n)
  then obtain v' where "hex_quad_loop n v' path (advance 1 cu) = Done w cu'"
    by (auto simp: Let_def split: if_splits)
  then show ?case using Suc.IH by fastforce
qed simp

lemma parse_hex_quad_cursor:
  "parse_hex_quad path cu = Done w cu' \<Longrightarrow> cu' = advance 4 cu \<and> cu_position cu + 4 \<le> length (cu_input cu)"
  by (auto simp: parse_hex_quad_def dest: hex_quad_loop_cursor split: if_splits)

lemma escape_step_cursor:
  "escape_step path e cu = Done t cu' \<Longrightarrow> cu_input cu' = cu_input cu \<and> cu_limits cu' = cu_limits cu \<and>
     cu_position cu \<le> cu_position cu' \<and>
     (cu_position cu \<le> length (cu_input cu) \<longrightarrow> cu_position cu' \<le> length (cu_input cu))"
  by (auto simp: escape_step_def unicode_escape_def obind_Done_iff dest!: parse_hex_quad_cursor
      split: if_splits)

function string_loop :: "string \<Rightarrow> nat \<Rightarrow> parsed_string \<Rightarrow> cursor \<Rightarrow> parsed_string outcome" where
  "string_loop path segment_start result cu =
     (if cu_position cu < length (cu_input cu) then
        (let character_offset = cu_position cu;
             character = cu_input cu ! cu_position cu;
             cu1 = advance 1 cu
         in if character = CHR 0x22 then close_string path segment_start character_offset result cu1
            else if (of_char character :: nat) < 0x20
            then Fail (cursor_error cu1 ''invalid_string''
                   ''JSON strings cannot contain unescaped control bytes.'' path)
            else if character \<noteq> CHR 0x5C then string_loop path segment_start result cu1
            else
              (let owned1 = ps_owned result @
                     substr (cu_input cu) segment_start (character_offset - segment_start)
               in if at_end cu1
                  then Fail (cursor_error cu1 ''invalid_escape''
                         ''JSON string ends inside an escape sequence.'' path)
                  else
                    (case escape_step path (cu_input cu ! cu_position cu1) (advance 1 cu1) of
                       Fail e \<Rightarrow> Fail e
                     | Out_of_fuel \<Rightarrow> Out_of_fuel
                     | Done text cu2 \<Rightarrow>
                         if length (owned1 @ text) > maximum_string_bytes (cu_limits cu)
                         then Fail (cursor_error cu2 ''string_too_large''
                                ''JSON string exceeds the configured limit.'' path)
                         else string_loop path (cu_position cu2)
                                (result\<lparr>ps_owns := True, ps_owned := owned1 @ text\<rparr>) cu2)))
      else Fail (cursor_error cu ''unterminated_string''
             ''JSON string is missing its closing quote.'' path))"
  by pat_completeness auto
termination
  by (relation "measure (\<lambda>(path, segment_start, result, cu). length (cu_input cu) - cu_position cu)")
    (force dest: escape_step_cursor)+

declare string_loop.simps [simp del]

definition parse_string :: "string \<Rightarrow> cursor \<Rightarrow> parsed_string outcome" where
  "parse_string path cu =
     (case consume (CHR 0x22) cu of
        (False, cu1) \<Rightarrow> Fail (cursor_error cu1 ''expected_string'' ''Expected a JSON string.'' path)
      | (True, cu1) \<Rightarrow> string_loop path (cu_position cu1)
            \<lparr>ps_owned = [], ps_borrowed = [], ps_owns = False\<rparr> cu1)"

section \<open>Numbers\<close>

function skip_digits :: "cursor \<Rightarrow> cursor" where
  "skip_digits cu =
     (if cu_position cu < length (cu_input cu) \<and> is_digit (peek cu)
      then skip_digits (advance 1 cu) else cu)"
  by pat_completeness auto
termination
  by (relation "measure (\<lambda>cu. length (cu_input cu) - cu_position cu)") auto

declare skip_digits.simps [simp del]

definition integer_part :: "string \<Rightarrow> cursor \<Rightarrow> unit outcome" where
  "integer_part path cu =
     (case consume (CHR ''0'') cu of
        (True, cu1) \<Rightarrow>
          (if is_digit (peek cu1)
           then Fail (cursor_error cu1 ''invalid_number''
                  ''JSON numbers cannot contain leading zeroes.'' path)
           else Done () cu1)
      | (False, cu1) \<Rightarrow>
          (if \<not> is_digit (peek cu1) \<or> peek cu1 = CHR ''0''
           then Fail (cursor_error cu1 ''invalid_number'' ''Expected a JSON number.'' path)
           else Done () (skip_digits cu1)))"

definition fraction_part :: "string \<Rightarrow> cursor \<Rightarrow> unit outcome" where
  "fraction_part path cu =
     (case consume (CHR ''.'') cu of
        (True, cu1) \<Rightarrow>
          (if \<not> is_digit (peek cu1)
           then Fail (cursor_error cu1 ''invalid_number''
                  ''Fractional part requires at least one digit.'' path)
           else Done () (skip_digits cu1))
      | (False, cu1) \<Rightarrow> Done () cu1)"

definition exponent_part :: "string \<Rightarrow> cursor \<Rightarrow> unit outcome" where
  "exponent_part path cu =
     (if peek cu = CHR ''e'' \<or> peek cu = CHR ''E'' then
        (let cu1 = advance 1 cu;
             cu2 = (if peek cu1 = CHR ''+'' \<or> peek cu1 = CHR ''-'' then advance 1 cu1 else cu1)
         in if \<not> is_digit (peek cu2)
            then Fail (cursor_error cu2 ''invalid_number'' ''Exponent requires at least one digit.'' path)
            else Done () (skip_digits cu2))
      else Done () cu)"

definition parse_number :: "string \<Rightarrow> cursor \<Rightarrow> string outcome" where
  "parse_number path cu =
     (let start = cu_position cu;
          (minus, cu1) = consume (CHR ''-'') cu
      in obind (integer_part path cu1) (\<lambda>_ cu2.
         obind (fraction_part path cu2) (\<lambda>_ cu3.
         obind (exponent_part path cu3) (\<lambda>_ cu4.
           Done (substr (cu_input cu) start (cu_position cu4 - start)) cu4))))"

end
