(* ===== verification/Flash_Json_Schema.thy ===== *)
theory Flash_Json_Schema
  imports Flash_Reflection
begin

text \<open>
  \<open>include/flash/json/schema.hpp\<close>: the names, defaults and constraints of the fields of a reflected
  class, and the compile-time checks on it. A failed \<open>static_assert\<close> is \<open>None\<close> or \<open>False\<close>.
\<close>

section \<open>Fields\<close>

definition field_wire_name_value :: "field_info \<Rightarrow> fixed_string option" where
  "field_wire_name_value f =
     (if length (fi_names f) > 1 then None
      else if length (fi_names f) = 1 then Some (fi_names f ! 0)
      else if length (fi_identifier f) < annotation_text_capacity
      then Some (fixed_substring (fi_identifier f) 0 (length (fi_identifier f)))
      else None)"

definition field_wire_name :: "field_info \<Rightarrow> string" where
  "field_wire_name f = (case field_wire_name_value f of None \<Rightarrow> [] | Some s \<Rightarrow> view s)"

definition field_default_value :: "field_info \<Rightarrow> jvalue option" where
  "field_default_value f = (if length (fi_defaults f) = 1 then Some (fi_defaults f ! 0) else None)"

definition field_constraint :: "field_info \<Rightarrow> nat \<Rightarrow> constraint_annotation option" where
  "field_constraint f index =
     (if index < length (fi_constraints f) then Some (fi_constraints f ! index) else None)"

section \<open>Checks\<close>

fun all_fields_public :: "field_info list \<Rightarrow> bool" where
  "all_fields_public [] = True"
| "all_fields_public (f # fs) = (if \<not> fi_public f then False else all_fields_public fs)"

fun validate_field_metadata :: "field_info list \<Rightarrow> bool" where
  "validate_field_metadata [] = True"
| "validate_field_metadata (f # fs) \<longleftrightarrow>
     length (fi_names f) \<le> 1 \<and> length (fi_defaults f) \<le> 1 \<and> validate_field_metadata fs"

function field_names_unique :: "fixed_string list \<Rightarrow> nat \<Rightarrow> nat \<Rightarrow> bool" where
  "field_names_unique names left right =
     (if left \<ge> length names then True
      else if right \<ge> length names then field_names_unique names (left + 1) (left + 2)
      else if fs_eq (names ! left) (names ! right) then False
      else field_names_unique names left (right + 1))"
  by pat_completeness auto
termination
  by (relation "measures [\<lambda>(names, left, right). length names - left,
       \<lambda>(names, left, right). length names - right]") auto

declare field_names_unique.simps [simp del]

definition wire_names :: "field_info list \<Rightarrow> fixed_string list option" where
  "wire_names fs = those (map field_wire_name_value fs)"

definition validate_output_schema :: "object_info \<Rightarrow> bool" where
  "validate_output_schema ob \<longleftrightarrow> ob_aggregate ob \<and>
     validate_field_metadata (ob_fields ob) \<and> all_fields_public (ob_fields ob) \<and>
     (case wire_names (ob_fields ob) of None \<Rightarrow> False | Some names \<Rightarrow> field_names_unique names 0 1)"

definition validate_input_schema :: "object_info \<Rightarrow> bool" where
  "validate_input_schema ob \<longleftrightarrow> validate_output_schema ob \<and> ob_default_initializable ob"

section \<open>What the checks establish\<close>

lemma all_fields_public_iff: "all_fields_public fs \<longleftrightarrow> (\<forall>f \<in> set fs. fi_public f)"
  by (induction fs) auto

lemma validate_field_metadata_iff:
  "validate_field_metadata fs \<longleftrightarrow> (\<forall>f \<in> set fs. length (fi_names f) \<le> 1 \<and> length (fi_defaults f) \<le> 1)"
  by (induction fs) auto

text \<open>The recursion over \<open>Left\<close> and \<open>Right\<close> visits the pairs that remain, in lexicographic order.\<close>

lemma field_names_unique_iff:
  "left < right \<Longrightarrow> field_names_unique names left right \<longleftrightarrow>
     (\<forall>j. right \<le> j \<and> j < length names \<longrightarrow> view (names ! left) \<noteq> view (names ! j)) \<and>
     (\<forall>i j. left < i \<and> i < j \<and> j < length names \<longrightarrow> view (names ! i) \<noteq> view (names ! j))"
proof (induction names left right rule: field_names_unique.induct)
  case (1 names left right)
  consider "left \<ge> length names" | "left < length names" "right \<ge> length names"
    | "left < length names" "right < length names" by linarith
  then show ?case
  proof cases
    case 1
    then show ?thesis using "1.prems" by (subst field_names_unique.simps) auto
  next
    case 2
    have "field_names_unique names (left + 1) (left + 2) \<longleftrightarrow>
      (\<forall>i j. left < i \<and> i < j \<and> j < length names \<longrightarrow> view (names ! i) \<noteq> view (names ! j))"
      using "1.IH"(1) 2 by (auto simp: Suc_le_eq le_less_Suc_eq) (metis Suc_lessI)+
    with 2 show ?thesis by (subst field_names_unique.simps) auto
  next
    case 3
    have "field_names_unique names left right \<longleftrightarrow>
       view (names ! left) \<noteq> view (names ! right) \<and> field_names_unique names left (right + 1)"
      using 3 by (subst field_names_unique.simps) (auto simp: fs_eq_def)
    moreover have "(\<forall>j. right \<le> j \<and> j < length names \<longrightarrow> view (names ! left) \<noteq> view (names ! j)) \<longleftrightarrow>
      view (names ! left) \<noteq> view (names ! right) \<and>
      (\<forall>j. right + 1 \<le> j \<and> j < length names \<longrightarrow> view (names ! left) \<noteq> view (names ! j))"
      using 3(2) by (metis Suc_eq_plus1 Suc_leD Suc_leI le_eq_less_or_eq)
    ultimately show ?thesis
      using "1.IH"(2) 3 "1.prems" by (cases "view (names ! left) = view (names ! right)") (simp_all add: fs_eq_def)
  qed
qed

lemma field_names_unique_distinct:
  "field_names_unique names 0 1 \<longleftrightarrow> distinct (map view names)"
proof -
  have "field_names_unique names 0 1 \<longleftrightarrow>
      (\<forall>i j. i < j \<and> j < length names \<longrightarrow> view (names ! i) \<noteq> view (names ! j))"
    by (subst field_names_unique_iff) (auto simp: Suc_le_eq, metis gr0I)
  also have "\<dots> \<longleftrightarrow> distinct (map view names)"
    unfolding distinct_conv_nth by (auto, metis linorder_neqE_nat order_less_trans)
  finally show ?thesis .
qed

lemma validate_output_schema_iff:
  "validate_output_schema ob \<longleftrightarrow> ob_aggregate ob \<and>
     (\<forall>f \<in> set (ob_fields ob). fi_public f \<and> length (fi_names f) \<le> 1 \<and> length (fi_defaults f) \<le> 1 \<and>
        field_wire_name_value f \<noteq> None) \<and>
     distinct (map field_wire_name (ob_fields ob))"
proof (cases "wire_names (ob_fields ob)")
  case None
  have "\<exists>f \<in> set (ob_fields ob). field_wire_name_value f = None"
  proof (rule ccontr)
    assume "\<not> ?thesis"
    then have "map field_wire_name_value (ob_fields ob) =
        map Some (map (\<lambda>f. the (field_wire_name_value f)) (ob_fields ob))" by auto
    with None show False unfolding wire_names_def by (metis those_map_Some option.distinct(1))
  qed
  with None show ?thesis by (auto simp: validate_output_schema_def)
next
  case (Some names)
  have n: "map field_wire_name_value (ob_fields ob) = map Some names"
    using Some unfolding wire_names_def by (rule those_SomeD)
  then have w: "map field_wire_name (ob_fields ob) = map view names"
    unfolding field_wire_name_def by (metis (no_types, lifting) list.map_comp comp_def map_eq_conv option.simps(5))
  have "\<forall>f \<in> set (ob_fields ob). field_wire_name_value f \<noteq> None"
    using n by (metis (no_types, lifting) imageE image_eqI list.set_map option.distinct(1))
  then show ?thesis
    unfolding validate_output_schema_def Some option.case w field_names_unique_distinct
      validate_field_metadata_iff all_fields_public_iff by blast
qed

end
