(* ===== verification/Flash_Json_Read.thy ===== *)
theory Flash_Json_Read
  imports Flash_Json_Cursor Flash_Json_Schema
begin

text \<open>
  \<open>include/flash/json/read.hpp\<close>, second half: skipping values, and the typed reader. The recursion of
  \<open>skip_value\<close> and \<open>read_value\<close> is bounded by a number of levels, the \<open>while (true)\<close> loops by the
  length of the input that is left plus one; \<open>Out_of_fuel\<close> is what they give when a bound is used up,
  and for a type that has no reader, which does not compile. The recursive call is a parameter of the
  loops and of the readers of the containers.
\<close>

section \<open>Skipping a value\<close>

definition loop_bound :: "cursor \<Rightarrow> nat" where
  "loop_bound cu = Suc (length (cu_input cu) - cu_position cu)"

definition depth_error :: "cursor \<Rightarrow> string \<Rightarrow> read_error" where
  "depth_error cu path =
     cursor_error cu ''maximum_depth'' ''JSON nesting exceeds the configured limit.'' path"

text \<open>
  The steps every loop over members or elements shares: the colon after a key, and after an item the
  closing bracket, or a comma and the next turn.
\<close>

definition expect_colon :: "string \<Rightarrow> (cursor \<Rightarrow> 'a outcome) \<Rightarrow> cursor \<Rightarrow> 'a outcome" where
  "expect_colon path after cu =
     (case consume (CHR '':'') (skip_whitespace cu) of
        (False, cu1) \<Rightarrow> Fail (cursor_error cu1 ''expected_colon''
                           ''Expected ':' after JSON object key.'' path)
      | (True, cu1) \<Rightarrow> after cu1)"

definition close_or_comma ::
    "char \<Rightarrow> string \<Rightarrow> string \<Rightarrow> 'a \<Rightarrow> (cursor \<Rightarrow> 'a outcome) \<Rightarrow> cursor \<Rightarrow> 'a outcome" where
  "close_or_comma close message path result again cu =
     (case consume close (skip_whitespace cu) of
        (True, cu1) \<Rightarrow> Done result cu1
      | (False, cu1) \<Rightarrow>
          (case consume (CHR '','') cu1 of
             (False, cu2) \<Rightarrow> Fail (cursor_error cu2 ''expected_comma'' message path)
           | (True, cu2) \<Rightarrow> again (skip_whitespace cu2)))"

definition object_comma :: string where
  "object_comma = ''Expected ',' or '}' in JSON object.''"

definition array_comma :: string where
  "array_comma = ''Expected ',' or ']' in JSON array.''"

definition members_error :: "cursor \<Rightarrow> string \<Rightarrow> read_error" where
  "members_error cu path =
     cursor_error cu ''object_too_large'' ''JSON object exceeds the configured member limit.'' path"

definition elements_error :: "cursor \<Rightarrow> string \<Rightarrow> read_error" where
  "elements_error cu path =
     cursor_error cu ''array_too_large'' ''JSON array exceeds the configured element limit.'' path"

primrec skip_members :: "nat \<Rightarrow> (cursor \<Rightarrow> unit outcome) \<Rightarrow> nat \<Rightarrow> string \<Rightarrow> cursor \<Rightarrow> unit outcome" where
  "skip_members 0 skip members path cu = Out_of_fuel"
| "skip_members (Suc k) skip members path cu =
     (if members + 1 > maximum_object_members (cu_limits cu) then Fail (members_error cu path)
      else
        obind (parse_string path cu) (\<lambda>key.
          expect_colon path (\<lambda>cu2.
            obind (skip cu2) (\<lambda>_.
              close_or_comma (CHR ''}'') object_comma path () (skip_members k skip (members + 1) path)))))"

primrec skip_elements :: "nat \<Rightarrow> (cursor \<Rightarrow> unit outcome) \<Rightarrow> nat \<Rightarrow> string \<Rightarrow> cursor \<Rightarrow> unit outcome" where
  "skip_elements 0 skip elements path cu = Out_of_fuel"
| "skip_elements (Suc k) skip elements path cu =
     (if elements + 1 > maximum_array_elements (cu_limits cu) then Fail (elements_error cu path)
      else
        obind (skip cu) (\<lambda>_.
          close_or_comma (CHR '']'') array_comma path () (skip_elements k skip (elements + 1) path)))"

primrec skip_value :: "nat \<Rightarrow> nat \<Rightarrow> string \<Rightarrow> cursor \<Rightarrow> unit outcome" where
  "skip_value 0 depth path cu0 = Out_of_fuel"
| "skip_value (Suc n) depth path cu0 =
     (let cu = skip_whitespace cu0 in
      if peek cu = CHR 0x22 then obind (parse_string path cu) (\<lambda>_ cu1. Done () cu1)
      else if peek cu = CHR ''{'' then
        (if depth \<ge> maximum_depth (cu_limits cu) then Fail (depth_error cu path)
         else
           (case consume (CHR ''}'') (skip_whitespace (advance 1 cu)) of
              (True, cu1) \<Rightarrow> Done () cu1
            | (False, cu1) \<Rightarrow>
                skip_members (loop_bound cu1) (skip_value n (depth + 1) path) 0 path cu1))
      else if peek cu = CHR ''['' then
        (if depth \<ge> maximum_depth (cu_limits cu) then Fail (depth_error cu path)
         else
           (case consume (CHR '']'') (skip_whitespace (advance 1 cu)) of
              (True, cu1) \<Rightarrow> Done () cu1
            | (False, cu1) \<Rightarrow>
                skip_elements (loop_bound cu1) (skip_value n (depth + 1) path) 0 path cu1))
      else if cursor_starts_with cu ''true'' then consume_literal ''true'' path cu
      else if cursor_starts_with cu ''false'' then consume_literal ''false'' path cu
      else if cursor_starts_with cu ''null'' then consume_literal ''null'' path cu
      else obind (parse_number path cu) (\<lambda>_ cu1. Done () cu1))"

section \<open>Constraints\<close>

definition child_path :: "string \<Rightarrow> string \<Rightarrow> string" where
  "child_path path name = path @ ''.'' @ name"

definition element_path :: "string \<Rightarrow> nat \<Rightarrow> string" where
  "element_path path index = path @ ''['' @ show_nat index @ '']''"

text \<open>The number compared, for the arithmetic types other than \<open>bool\<close>: always a \<open>double\<close>.\<close>

fun constraint_number :: "ctype \<Rightarrow> jvalue \<Rightarrow> fp option" where
  "constraint_number (C_int _ _) (V_int i) = Some (double_of_int i)"
| "constraint_number (C_float _) (V_float x) = Some (double_of_fp x)"
| "constraint_number _ _ = None"

fun constraint_length :: "ctype \<Rightarrow> jvalue \<Rightarrow> nat option" where
  "constraint_length C_string (V_string s) = Some (length s)"
| "constraint_length C_string_view (V_string s) = Some (length s)"
| "constraint_length _ _ = None"

fun constraint_items :: "ctype \<Rightarrow> jvalue \<Rightarrow> nat option" where
  "constraint_items (C_vector _) (V_list vs) = Some (length vs)"
| "constraint_items (C_array _ _) (V_list vs) = Some (length vs)"
| "constraint_items _ _ = None"

definition constraint_valid :: "ctype \<Rightarrow> jvalue \<Rightarrow> constraint_annotation \<Rightarrow> bool" where
  "constraint_valid t v c = (case ca_kind c of
       Minimum \<Rightarrow> (case constraint_number t v of None \<Rightarrow> False | Some x \<Rightarrow> fp_le (ca_numeric c) x)
     | Exclusive_minimum \<Rightarrow> (case constraint_number t v of None \<Rightarrow> False | Some x \<Rightarrow> fp_less (ca_numeric c) x)
     | Maximum \<Rightarrow> (case constraint_number t v of None \<Rightarrow> False | Some x \<Rightarrow> fp_le x (ca_numeric c))
     | Exclusive_maximum \<Rightarrow> (case constraint_number t v of None \<Rightarrow> False | Some x \<Rightarrow> fp_less x (ca_numeric c))
     | Min_length \<Rightarrow> (case constraint_length t v of None \<Rightarrow> False | Some n \<Rightarrow> n \<ge> ca_size c)
     | Max_length \<Rightarrow> (case constraint_length t v of None \<Rightarrow> False | Some n \<Rightarrow> n \<le> ca_size c)
     | Min_items \<Rightarrow> (case constraint_items t v of None \<Rightarrow> False | Some n \<Rightarrow> n \<ge> ca_size c)
     | Max_items \<Rightarrow> (case constraint_items t v of None \<Rightarrow> False | Some n \<Rightarrow> n \<le> ca_size c))"

text \<open>\<open>None\<close> is success.\<close>

fun validate_constraint ::
    "ctype \<Rightarrow> jvalue \<Rightarrow> constraint_annotation \<Rightarrow> string \<Rightarrow> nat \<Rightarrow> read_error option" where
  "validate_constraint (C_optional t) V_null c path offset = None"
| "validate_constraint (C_optional t) (V_some v) c path offset = validate_constraint t v c path offset"
| "validate_constraint t v c path offset =
     (if \<not> constraint_valid t v c
      then Some \<lparr>re_code = ''constraint_failed'',
             re_message = ''JSON value violates a reflected field constraint.'',
             re_path = path, re_offset = offset\<rparr>
      else None)"

fun validate_constraints ::
    "ctype \<Rightarrow> jvalue \<Rightarrow> constraint_annotation list \<Rightarrow> string \<Rightarrow> nat \<Rightarrow> read_error option" where
  "validate_constraints t v [] path offset = None"
| "validate_constraints t v (c # cs) path offset =
     (case validate_constraint t v c path offset of
        Some e \<Rightarrow> Some e
      | None \<Rightarrow> validate_constraints t v cs path offset)"

definition validate_field :: "field_info \<Rightarrow> jvalue \<Rightarrow> string \<Rightarrow> nat \<Rightarrow> read_error option" where
  "validate_field f v path offset = validate_constraints (fi_type f) v (fi_constraints f) path offset"

section \<open>Objects\<close>

text \<open>
  \<open>Object object{}\<close> is a list of values, one per field, of which none is read before it is assigned,
  and \<open>seen\<close> a list of flags.
\<close>

type_synonym reader = "ctype \<Rightarrow> nat \<Rightarrow> string \<Rightarrow> cursor \<Rightarrow> jvalue outcome"
type_synonym partial_object = "jvalue list \<times> bool list"

fun read_named_field ::
    "reader \<Rightarrow> field_info list \<Rightarrow> nat \<Rightarrow> string \<Rightarrow> string \<Rightarrow> nat \<Rightarrow> partial_object \<Rightarrow> cursor \<Rightarrow>
     (bool \<times> partial_object) outcome" where
  "read_named_field rv [] index name path depth ob cu = Done (False, ob) cu"
| "read_named_field rv (f # fs) index name path depth ob cu =
     (if name = field_wire_name f then
        (let value_path = child_path path name in
         if snd ob ! index
         then Fail (cursor_error cu ''duplicate_field''
                ''JSON object contains a duplicate field.'' value_path)
         else
           obind (rv (fi_type f) depth value_path cu) (\<lambda>value cu1.
             case validate_field f value value_path (cu_position cu) of
               Some e \<Rightarrow> Fail e
             | None \<Rightarrow> Done (True, (fst ob)[index := value], (snd ob)[index := True]) cu1))
      else read_named_field rv fs (index + 1) name path depth ob cu)"

fun finish_missing_fields ::
    "field_info list \<Rightarrow> nat \<Rightarrow> partial_object \<Rightarrow> string \<Rightarrow> nat \<Rightarrow> read_error + jvalue list" where
  "finish_missing_fields [] index ob path offset = Inr (fst ob)"
| "finish_missing_fields (f # fs) index ob path offset =
     (if \<not> snd ob ! index then
        (case fi_type f of
           C_optional t \<Rightarrow>
             finish_missing_fields fs (index + 1) ((fst ob)[index := V_null], snd ob) path offset
         | _ \<Rightarrow>
             (case field_default_value f of
                Some d \<Rightarrow> finish_missing_fields fs (index + 1) ((fst ob)[index := d], snd ob) path offset
              | None \<Rightarrow> Inl \<lparr>re_code = ''missing_field'',
                    re_message = ''Required JSON object field is missing.'',
                    re_path = child_path path (field_wire_name f), re_offset = offset\<rparr>))
      else finish_missing_fields fs (index + 1) ob path offset)"

text \<open>One turn of the loop reads a member; \<open>skip\<close> is \<open>skip_value\<close> at the next depth.\<close>

definition read_member ::
    "reader \<Rightarrow> (string \<Rightarrow> cursor \<Rightarrow> unit outcome) \<Rightarrow> field_info list \<Rightarrow> nat \<Rightarrow> string \<Rightarrow>
     partial_object \<Rightarrow> cursor \<Rightarrow> partial_object outcome" where
  "read_member rv skip fs depth path ob cu =
     obind (parse_string path cu) (\<lambda>key.
       expect_colon path (\<lambda>cu2.
         obind (read_named_field rv fs 0 (ps_view key) path (depth + 1) ob (skip_whitespace cu2))
           (\<lambda>(known, ob') cu3.
             if \<not> known then
               (let unknown_path = child_path path (ps_view key) in
                if reject_unknown_fields (cu_limits cu3)
                then Fail (cursor_error cu3 ''unknown_field''
                       ''JSON object contains an unknown field.'' unknown_path)
                else obind (skip unknown_path cu3) (\<lambda>_. Done ob'))
             else Done ob' cu3)))"

primrec object_loop ::
    "nat \<Rightarrow> (partial_object \<Rightarrow> cursor \<Rightarrow> partial_object outcome) \<Rightarrow> nat \<Rightarrow> string \<Rightarrow>
     partial_object \<Rightarrow> cursor \<Rightarrow> partial_object outcome" where
  "object_loop 0 member members path ob cu = Out_of_fuel"
| "object_loop (Suc k) member members path ob cu =
     (if members + 1 > maximum_object_members (cu_limits cu) then Fail (members_error cu path)
      else
        obind (member ob cu) (\<lambda>ob1.
          close_or_comma (CHR ''}'') object_comma path ob1 (object_loop k member (members + 1) path ob1)))"

definition read_object ::
    "reader \<Rightarrow> (string \<Rightarrow> cursor \<Rightarrow> unit outcome) \<Rightarrow> field_info list \<Rightarrow> nat \<Rightarrow> string \<Rightarrow> cursor \<Rightarrow>
     jvalue outcome" where
  "read_object rv skip fs depth path cu =
     (if depth \<ge> maximum_depth (cu_limits cu) then Fail (depth_error cu path)
      else
        (case consume (CHR ''{'') cu of
           (False, cu1) \<Rightarrow> Fail (cursor_error cu1 ''expected_object'' ''Expected a JSON object.'' path)
         | (True, cu1) \<Rightarrow>
             (let object = (replicate (length fs) V_null, replicate (length fs) False) in
              obind (case consume (CHR ''}'') (skip_whitespace cu1) of
                  (True, cu2) \<Rightarrow> Done object cu2
                | (False, cu2) \<Rightarrow>
                    object_loop (loop_bound cu2) (read_member rv skip fs depth path) 0 path object cu2)
                (\<lambda>ob cu3.
                  case finish_missing_fields fs 0 ob path (cu_position cu3) of
                    Inl e \<Rightarrow> Fail e
                  | Inr values \<Rightarrow> Done (V_object values) cu3))))"

section \<open>Arrays\<close>

primrec vector_loop ::
    "nat \<Rightarrow> (nat \<Rightarrow> cursor \<Rightarrow> jvalue outcome) \<Rightarrow> string \<Rightarrow> jvalue list \<Rightarrow> cursor \<Rightarrow> jvalue list outcome"
where
  "vector_loop 0 item path result cu = Out_of_fuel"
| "vector_loop (Suc k) item path result cu =
     (if length result \<ge> maximum_array_elements (cu_limits cu) then Fail (elements_error cu path)
      else
        obind (item (length result) cu) (\<lambda>element.
          close_or_comma (CHR '']'') array_comma path (result @ [element])
            (vector_loop k item path (result @ [element]))))"

definition expected_array :: "cursor \<Rightarrow> string \<Rightarrow> read_error" where
  "expected_array cu path = cursor_error cu ''expected_array'' ''Expected a JSON array.'' path"

definition read_vector :: "reader \<Rightarrow> ctype \<Rightarrow> nat \<Rightarrow> string \<Rightarrow> cursor \<Rightarrow> jvalue outcome" where
  "read_vector rv t depth path cu =
     (if depth \<ge> maximum_depth (cu_limits cu) then Fail (depth_error cu path)
      else
        (case consume (CHR ''['') cu of
           (False, cu1) \<Rightarrow> Fail (expected_array cu1 path)
         | (True, cu1) \<Rightarrow>
             (case consume (CHR '']'') (skip_whitespace cu1) of
                (True, cu2) \<Rightarrow> Done (V_list []) cu2
              | (False, cu2) \<Rightarrow>
                  obind (vector_loop (loop_bound cu2)
                      (\<lambda>index. rv t (depth + 1) (element_path path index)) path [] cu2)
                    (\<lambda>vs cu3. Done (V_list vs) cu3))))"

text \<open>The loop over \<open>index\<close> of a fixed array: \<open>rest\<close> elements are still to come.\<close>

primrec array_loop ::
    "nat \<Rightarrow> (nat \<Rightarrow> cursor \<Rightarrow> jvalue outcome) \<Rightarrow> string \<Rightarrow> jvalue list \<Rightarrow> cursor \<Rightarrow> jvalue list outcome"
where
  "array_loop 0 item path result cu = Done result cu"
| "array_loop (Suc rest) item path result cu =
     obind (item (length result) cu) (\<lambda>element cu1.
       let cu2 = skip_whitespace cu1 in
       if rest \<noteq> 0 then
         (case consume (CHR '','') cu2 of
            (False, cu3) \<Rightarrow> Fail (cursor_error cu3 ''array_size''
                               ''JSON array has fewer elements than the fixed array size.'' path)
          | (True, cu3) \<Rightarrow> array_loop rest item path (result @ [element]) (skip_whitespace cu3))
       else array_loop rest item path (result @ [element]) cu2)"

definition read_array :: "reader \<Rightarrow> ctype \<Rightarrow> nat \<Rightarrow> nat \<Rightarrow> string \<Rightarrow> cursor \<Rightarrow> jvalue outcome" where
  "read_array rv t expected_size depth path cu =
     (if depth \<ge> maximum_depth (cu_limits cu) then Fail (depth_error cu path)
      else
        (case consume (CHR ''['') cu of
           (False, cu1) \<Rightarrow> Fail (expected_array cu1 path)
         | (True, cu1) \<Rightarrow>
             if expected_size > maximum_array_elements (cu_limits cu)
             then Fail (cursor_error cu1 ''array_too_large''
                    ''Fixed array exceeds the configured element limit.'' path)
             else
               (case consume (CHR '']'') (skip_whitespace cu1) of
                  (True, cu2) \<Rightarrow>
                    (if expected_size = 0 then Done (V_list []) cu2
                     else Fail (cursor_error cu2 ''array_size''
                            ''JSON array has fewer elements than the fixed array size.'' path))
                | (False, cu2) \<Rightarrow>
                    if expected_size = 0
                    then Fail (cursor_error cu2 ''array_size''
                           ''JSON array does not match the fixed array size.'' path)
                    else
                      obind (array_loop expected_size
                          (\<lambda>index. rv t (depth + 1) (element_path path index)) path [] cu2)
                        (\<lambda>vs cu3.
                          case consume (CHR '']'') cu3 of
                            (False, cu4) \<Rightarrow> Fail (cursor_error cu4 ''array_size''
                               ''JSON array has more elements than the fixed array size.'' path)
                          | (True, cu4) \<Rightarrow> Done (V_list vs) cu4))))"

section \<open>Values\<close>

definition read_bool :: "string \<Rightarrow> cursor \<Rightarrow> jvalue outcome" where
  "read_bool path cu =
     (if cursor_starts_with cu ''true''
      then obind (consume_literal ''true'' path cu) (\<lambda>_ cu1. Done (V_bool True) cu1)
      else if cursor_starts_with cu ''false''
      then obind (consume_literal ''false'' path cu) (\<lambda>_ cu1. Done (V_bool False) cu1)
      else Fail (cursor_error cu ''invalid_boolean'' ''Expected JSON true or false.'' path))"

definition number_range_error :: "cursor \<Rightarrow> string \<Rightarrow> read_error" where
  "number_range_error cu path = cursor_error cu ''number_out_of_range''
     ''JSON number is outside the target type's range.'' path"

definition number_type_error :: "cursor \<Rightarrow> string \<Rightarrow> read_error" where
  "number_type_error cu path = cursor_error cu ''invalid_number''
     ''JSON number cannot be represented by the target type.'' path"

definition read_integer :: "bool \<Rightarrow> nat \<Rightarrow> string \<Rightarrow> cursor \<Rightarrow> jvalue outcome" where
  "read_integer sgnd w path cu =
     obind (parse_number path cu) (\<lambda>token cu1.
       case from_chars_int sgnd w token of (ec, result, ptr) \<Rightarrow>
         if ec = Errc_result_out_of_range then Fail (number_range_error cu1 path)
         else if ec \<noteq> Errc_none \<or> ptr \<noteq> length token then Fail (number_type_error cu1 path)
         else Done (V_int result) cu1)"

definition read_float :: "float_format \<Rightarrow> string \<Rightarrow> cursor \<Rightarrow> jvalue outcome" where
  "read_float f path cu =
     obind (parse_number path cu) (\<lambda>token cu1.
       case from_chars_float f token of (ec, result, ptr) \<Rightarrow>
         if ec = Errc_result_out_of_range then Fail (number_range_error cu1 path)
         else if ec \<noteq> Errc_none \<or> ptr \<noteq> length token \<or> \<not> is_finite result
         then Fail (number_type_error cu1 path)
         else Done (V_float result) cu1)"

definition read_enum :: "enum_info \<Rightarrow> string \<Rightarrow> cursor \<Rightarrow> jvalue outcome" where
  "read_enum en path cu =
     obind (parse_string path cu) (\<lambda>parsed cu1.
       case parse_enum (en_enumerators en) (ps_view parsed) of
         None \<Rightarrow> Fail (cursor_error cu1 ''invalid_enum''
                    ''JSON string is not a reflected enumerator name.'' path)
       | Some v \<Rightarrow> Done (V_enum v) cu1)"

definition read_string :: "string \<Rightarrow> cursor \<Rightarrow> jvalue outcome" where
  "read_string path cu = obind (parse_string path cu) (\<lambda>parsed cu1. Done (V_string (ps_view parsed)) cu1)"

definition read_string_view :: "string \<Rightarrow> cursor \<Rightarrow> jvalue outcome" where
  "read_string_view path cu =
     obind (parse_string path cu) (\<lambda>parsed cu1.
       if ps_owns parsed
       then Fail (cursor_error cu1 ''escaped_borrowed_string''
              ''Escaped JSON cannot bind to string_view; use std::string for ownership.'' path)
       else Done (V_string (ps_borrowed parsed)) cu1)"

fun read_plain :: "reader \<Rightarrow> (nat \<Rightarrow> string \<Rightarrow> cursor \<Rightarrow> unit outcome) \<Rightarrow> type_table \<Rightarrow> ctype \<Rightarrow> nat \<Rightarrow>
    string \<Rightarrow> cursor \<Rightarrow> jvalue outcome" where
  "read_plain rv skip T C_string depth path cu = read_string path cu"
| "read_plain rv skip T C_string_view depth path cu = read_string_view path cu"
| "read_plain rv skip T C_bool depth path cu = read_bool path cu"
| "read_plain rv skip T (C_int sgnd w) depth path cu = read_integer sgnd w path cu"
| "read_plain rv skip T (C_float f) depth path cu = read_float f path cu"
| "read_plain rv skip T (C_enum en) depth path cu = read_enum en path cu"
| "read_plain rv skip T (C_vector t) depth path cu = read_vector rv t depth path cu"
| "read_plain rv skip T (C_array t count) depth path cu = read_array rv t count depth path cu"
| "read_plain rv skip T (C_object name) depth path cu = (case T name of
       None \<Rightarrow> Out_of_fuel
     | Some ob \<Rightarrow> read_object rv (skip (depth + 1)) (ob_fields ob) depth path cu)"
| "read_plain rv skip T _ depth path cu = Out_of_fuel"

function read_value :: "nat \<Rightarrow> type_table \<Rightarrow> ctype \<Rightarrow> nat \<Rightarrow> string \<Rightarrow> cursor \<Rightarrow> jvalue outcome" where
  "read_value n T t depth path cu0 =
     (let cu = skip_whitespace cu0 in
      case t of
        C_optional t' \<Rightarrow>
          (if cursor_starts_with cu ''null''
           then obind (consume_literal ''null'' path cu) (\<lambda>_ cu1. Done V_null cu1)
           else obind (read_value n T t' depth path cu) (\<lambda>v cu1. Done (V_some v) cu1))
      | _ \<Rightarrow>
          (if cursor_starts_with cu ''null''
           then Fail (cursor_error cu ''null_not_allowed'' ''JSON null is not allowed for this value.'' path)
           else (case n of 0 \<Rightarrow> Out_of_fuel
             | Suc m \<Rightarrow> read_plain (\<lambda>t d p c. read_value m T t d p c) (skip_value m) T t depth path cu)))"
  by pat_completeness auto
termination
  by (relation "measures [\<lambda>(n, T, t, depth, path, cu). n, \<lambda>(n, T, t, depth, path, cu). size t]") auto

declare read_value.simps [simp del]

definition read_json :: "type_table \<Rightarrow> ctype \<Rightarrow> string \<Rightarrow> read_limits \<Rightarrow> jvalue outcome" where
  "read_json T t input limits =
     (if length input > maximum_input_bytes limits
      then Fail \<lparr>re_code = ''input_too_large'', re_message = ''JSON input exceeds the configured limit.'',
             re_path = ''$'', re_offset = 0\<rparr>
      else
        obind (read_value (Suc (maximum_depth limits)) T t 0 ''$''
            \<lparr>cu_input = input, cu_limits = limits, cu_position = 0\<rparr>)
          (\<lambda>result cu1.
            let cu2 = skip_whitespace cu1 in
            if \<not> at_end cu2
            then Fail (cursor_error cu2 ''trailing_characters''
                   ''JSON input contains trailing characters.'' ''$'')
            else Done result cu2))"

end
