(* ===== verification/Flash_Problem.thy ===== *)
theory Flash_Problem
  imports Flash_Http Flash_Charconv
begin

unbundle bit_operations_syntax

text \<open>
  \<open>include/flash/problem.hpp\<close> and \<open>src/runtime/errors.cpp\<close>: problem documents and their JSON text.
  An \<open>output\<close> that the code appends to is passed in and returned.
\<close>

section \<open>Problem documents\<close>

record validation_error =
  ve_location :: "string list"
  ve_code :: string
  ve_message :: string

record problem_detail =
  pd_type :: string
  pd_title :: string
  pd_status :: status
  pd_detail :: string
  pd_instance :: string
  pd_errors :: "validation_error list"
  pd_request_id :: string

definition default_problem :: problem_detail where
  "default_problem = \<lparr>pd_type = ''about:blank'', pd_title = [], pd_status = Bad_request400,
     pd_detail = [], pd_instance = [], pd_errors = [], pd_request_id = []\<rparr>"

section \<open>JSON strings\<close>

definition hex_lower :: "nat \<Rightarrow> char" where
  "hex_lower n = ''0123456789abcdef'' ! n"

text \<open>The body of the \<open>switch\<close>, one character; shared by the two copies of the loop in the sources.\<close>

definition escape_char :: "char \<Rightarrow> string" where
  "escape_char character =
     (if character = CHR 0x22 then [CHR 0x5C, CHR 0x22]
      else if character = CHR 0x5C then [CHR 0x5C, CHR 0x5C]
      else if character = CHR 0x08 then [CHR 0x5C, CHR ''b'']
      else if character = CHR 0x0C then [CHR 0x5C, CHR ''f'']
      else if character = CHR 0x0A then [CHR 0x5C, CHR ''n'']
      else if character = CHR 0x0D then [CHR 0x5C, CHR ''r'']
      else if character = CHR 0x09 then [CHR 0x5C, CHR ''t'']
      else if (of_char character :: nat) < 0x20
      then [CHR 0x5C, CHR ''u'', CHR ''0'', CHR ''0'',
            hex_lower (drop_bit 4 (of_char character)), hex_lower (of_char character AND 0x0F)]
      else [character])"

fun escape_loop :: "string \<Rightarrow> string \<Rightarrow> string" where
  "escape_loop output [] = output"
| "escape_loop output (c # cs) = escape_loop (output @ escape_char c) cs"

definition append_json_string :: "string \<Rightarrow> string \<Rightarrow> string" where
  "append_json_string output value = escape_loop (output @ [CHR 0x22]) value @ [CHR 0x22]"

definition append_member :: "string \<Rightarrow> string \<Rightarrow> string \<Rightarrow> bool \<Rightarrow> string \<times> bool" where
  "append_member output name value first =
     (let o1 = (if \<not> first then output @ '','' else output);
          o2 = append_json_string o1 name @ '':''
      in (append_json_string o2 value, False))"

section \<open>serialize_problem\<close>

fun append_locations :: "string \<Rightarrow> string list \<Rightarrow> bool \<Rightarrow> string" where
  "append_locations output [] first = output"
| "append_locations output (item # items) first =
     append_locations (append_json_string (if \<not> first then output @ '','' else output) item) items False"

definition append_error :: "string \<Rightarrow> validation_error \<Rightarrow> string" where
  "append_error output e =
     (let o1 = output @ ''{\"location\":['';
          o2 = append_locations o1 (ve_location e) True;
          o3 = o2 @ ''],\"code\":'';
          o4 = append_json_string o3 (ve_code e);
          o5 = o4 @ '',\"message\":''
      in append_json_string o5 (ve_message e) @ ''}'')"

fun append_errors :: "string \<Rightarrow> validation_error list \<Rightarrow> bool \<Rightarrow> string" where
  "append_errors output [] first = output"
| "append_errors output (e # es) first =
     append_errors (append_error (if \<not> first then output @ '','' else output) e) es False"

text \<open>
  The status is printed into eight characters by \<open>to_chars\<close>, which holds any 16 bit code; the
  result's \<open>ptr\<close> is used without looking at \<open>ec\<close>.
\<close>

definition serialize_problem :: "problem_detail \<Rightarrow> string" where
  "serialize_problem problem =
     (let (o1, first1) = append_member ''{'' ''type'' (pd_type problem) True;
          (o2, first2) = append_member o1 ''title'' (pd_title problem) first1;
          o3 = o2 @ '',\"status\":'';
          o4 = o3 @ (case to_chars_int 8 (int (status_code (pd_status problem))) of
                 None \<Rightarrow> [] | Some s \<Rightarrow> s);
          (o5, first5) = (if pd_detail problem \<noteq> []
             then append_member o4 ''detail'' (pd_detail problem) first2 else (o4, first2));
          (o6, first6) = (if pd_instance problem \<noteq> []
             then append_member o5 ''instance'' (pd_instance problem) first5 else (o5, first5));
          o7 = (if pd_errors problem \<noteq> []
             then append_errors (o6 @ '',\"errors\":['')
                    (pd_errors problem) True @ '']''
             else o6);
          (o8, first8) = (if pd_request_id problem \<noteq> []
             then append_member o7 ''request_id'' (pd_request_id problem) first6 else (o7, first6))
      in o8 @ ''}'')"

definition make_problem_response :: "problem_detail \<Rightarrow> response_message" where
  "make_problem_response problem = default_response\<lparr>
     rm_status := pd_status problem, rm_content_type := ''application/problem+json'',
     rm_body := serialize_problem problem\<rparr>"

end
