(* ===== verification/Flash_Json_Write.thy ===== *)
theory Flash_Json_Write
  imports Flash_Json_Read Flash_Problem
begin

text \<open>
  \<open>include/flash/json/write.hpp\<close>: the typed writer. The \<open>output\<close> appended to is passed in and
  returned; an exception is \<open>Inl\<close>. A type without a writer and a value that is not of its type do not
  compile: \<open>not_compiled\<close> stands for them. Floating-point text is the shortest
  that reads back, in the format of \<open>chars_format::general\<close>.
\<close>

section \<open>Floating-point text\<close>

text \<open>
  \<open>to_chars\<close> with \<open>chars_format::general\<close> and no precision: the fewest significant digits that read
  back as the same value, the nearer of two such decimals, written without an exponent if the decimal
  exponent is from \<open>-4\<close> to \<open>5\<close>. Seventeen digits are enough for a double; \<open>None\<close> would be a value
  that needs more. The value is \<open>num / den\<close> and \<open>k\<close> its number of digits.
\<close>

definition decimal_value :: "float_format \<Rightarrow> bool \<Rightarrow> nat \<Rightarrow> int \<Rightarrow> fp" where
  "decimal_value f s d q =
     (if 0 \<le> q then round_ratio f s (d * 10 ^ nat q) 1 else round_ratio f s d (10 ^ nat (- q)))"

definition decimal_quotient :: "nat \<Rightarrow> nat \<Rightarrow> int \<Rightarrow> nat \<times> nat" where
  "decimal_quotient num den q =
     (if 0 \<le> q then (num, den * 10 ^ nat q) else (num * 10 ^ nat (- q), den))"

fun decimal_exponent :: "nat \<Rightarrow> nat \<Rightarrow> nat \<Rightarrow> int \<Rightarrow> int" where
  "decimal_exponent 0 num den q = q"
| "decimal_exponent (Suc fuel) num den q =
     (case decimal_quotient num den q of (n, d) \<Rightarrow>
        if 10 * d \<le> n then decimal_exponent fuel num den (q + 1)
        else if n < d then decimal_exponent fuel num den (q - 1) else q)"

definition nearer_digits :: "float_format \<Rightarrow> fp \<Rightarrow> bool \<Rightarrow> nat \<Rightarrow> nat \<Rightarrow> int \<Rightarrow> nat option" where
  "nearer_digits f x s num den q =
     (case decimal_quotient num den q of (n, d) \<Rightarrow>
        (let lo = n div d;
             candidates = (if 2 * (n mod d) < d \<or> (2 * (n mod d) = d \<and> even lo) then [lo, lo + 1] else [lo + 1, lo])
         in List.find (\<lambda>c. decimal_value f s c q = x) candidates))"

fun shortest_digits :: "float_format \<Rightarrow> fp \<Rightarrow> bool \<Rightarrow> nat \<Rightarrow> nat \<Rightarrow> int \<Rightarrow> nat list \<Rightarrow> (nat \<times> int) option" where
  "shortest_digits f x s num den e [] = None"
| "shortest_digits f x s num den e (k # ks) =
     (case nearer_digits f x s num den (e - int k) of
        Some c \<Rightarrow> Some (c, e - int k)
      | None \<Rightarrow> shortest_digits f x s num den e ks)"

text \<open>The digits \<open>c\<close> times \<open>10 ^ q\<close>, without and with an exponent.\<close>

definition fixed_text :: "string \<Rightarrow> int \<Rightarrow> string" where
  "fixed_text ds q =
     (if 0 \<le> q then ds @ replicate (nat q) (CHR ''0'')
      else if nat (- q) < length ds then take (length ds - nat (- q)) ds @ ''.'' @ drop (length ds - nat (- q)) ds
      else ''0.'' @ replicate (nat (- q) - length ds) (CHR ''0'') @ ds)"

definition scientific_text :: "string \<Rightarrow> int \<Rightarrow> string" where
  "scientific_text ds e =
     hd ds # (if tl ds = [] then [] else ''.'' @ tl ds) @ ''e'' @ (if e < 0 then ''-'' else ''+'') @
     (if \<bar>e\<bar> < 10 then ''0'' else []) @ show_nat (nat \<bar>e\<bar>)"

fun strip_zeros :: "nat \<Rightarrow> nat \<Rightarrow> int \<Rightarrow> nat \<times> int" where
  "strip_zeros 0 c q = (c, q)"
| "strip_zeros (Suc fuel) c q = (if c \<noteq> 0 \<and> c mod 10 = 0 then strip_zeros fuel (c div 10) (q + 1) else (c, q))"

definition to_chars_general :: "float_format \<Rightarrow> fp \<Rightarrow> string option" where
  "to_chars_general f x = (case x of
       Finite s m e \<Rightarrow>
         (let sign = (if s then ''-'' else []) in
          if m = 0 then Some (sign @ ''0'')
          else
            (let num = (if 0 \<le> e then m * 2 ^ nat e else m);
                 den = (if 0 \<le> e then 1 else 2 ^ nat (- e));
                 ex = decimal_exponent 1100 num den 0
             in case shortest_digits f x s num den ex [0..<17] of
                  None \<Rightarrow> None
                | Some (c0, q0) \<Rightarrow>
                    (case strip_zeros 20 c0 q0 of (c, q) \<Rightarrow>
                       (let ds = show_nat c; e10 = q + int (length ds) - 1 in
                        Some (sign @ (if - 4 \<le> e10 \<and> e10 < 6 then fixed_text ds q
                                      else scientific_text ds e10))))))
     | _ \<Rightarrow> None)"

section \<open>The writer\<close>

definition append_escaped_string :: "string \<Rightarrow> string \<Rightarrow> string" where
  "append_escaped_string output value = escape_loop (output @ [CHR 0x22]) value @ [CHR 0x22]"

fun enum_name :: "(string \<times> int) list \<Rightarrow> int \<Rightarrow> string" where
  "enum_name [] value = []"
| "enum_name ((identifier, candidate) # es) value =
     (if candidate = value then identifier else enum_name es value)"

definition not_compiled :: "'a throwing" where
  "not_compiled = Inl (Logic_error ''not compiled'')"

definition append_integer :: "bool \<Rightarrow> nat \<Rightarrow> int \<Rightarrow> string \<Rightarrow> string throwing" where
  "append_integer sgnd w i output =
     (case to_chars_int (digits10 sgnd w + 4) i of
        None \<Rightarrow> Inl (Runtime_error ''integer JSON serialization failed'')
      | Some s \<Rightarrow> Inr (output @ s))"

definition append_float :: "float_format \<Rightarrow> fp \<Rightarrow> string \<Rightarrow> string throwing" where
  "append_float f x output =
     (if \<not> is_finite x then Inl (Domain_error ''non-finite JSON number'')
      else (case to_chars_general f x of
        None \<Rightarrow> Inl (Runtime_error ''floating JSON serialization failed'')
      | Some s \<Rightarrow> Inr (output @ s)))"

definition append_enum :: "enum_info \<Rightarrow> int \<Rightarrow> string \<Rightarrow> string throwing" where
  "append_enum en v output =
     (let name = enum_name (en_enumerators en) v in
      if name = [] then Inl (Domain_error ''enum value has no reflected enumerator'')
      else Inr (append_escaped_string output name))"

function append_value :: "type_table \<Rightarrow> ctype \<Rightarrow> jvalue \<Rightarrow> string \<Rightarrow> string throwing"
and append_elements :: "type_table \<Rightarrow> ctype \<Rightarrow> jvalue list \<Rightarrow> bool \<Rightarrow> string \<Rightarrow> string throwing"
and append_object_fields :: "type_table \<Rightarrow> field_info list \<Rightarrow> nat \<Rightarrow> jvalue list \<Rightarrow> string \<Rightarrow> string throwing"
where
  "append_value T t v output = (case t of
      C_string \<Rightarrow> (case v of V_string s \<Rightarrow> Inr (append_escaped_string output s) | _ \<Rightarrow> not_compiled)
    | C_string_view \<Rightarrow> (case v of V_string s \<Rightarrow> Inr (append_escaped_string output s) | _ \<Rightarrow> not_compiled)
    | C_bool \<Rightarrow> (case v of V_bool b \<Rightarrow> Inr (output @ (if b then ''true'' else ''false'')) | _ \<Rightarrow> not_compiled)
    | C_int sgnd w \<Rightarrow> (case v of V_int i \<Rightarrow> append_integer sgnd w i output | _ \<Rightarrow> not_compiled)
    | C_float f \<Rightarrow> (case v of V_float x \<Rightarrow> append_float f x output | _ \<Rightarrow> not_compiled)
    | C_enum en \<Rightarrow> (case v of V_enum i \<Rightarrow> append_enum en i output | _ \<Rightarrow> not_compiled)
    | C_optional t' \<Rightarrow> (case v of
          V_some x \<Rightarrow> append_value T t' x output
        | V_null \<Rightarrow> Inr (output @ ''null'')
        | _ \<Rightarrow> not_compiled)
    | C_vector t' \<Rightarrow> (case v of
          V_list vs \<Rightarrow> bind_sum (append_elements T t' vs True (output @ ''['')) (\<lambda>o1. Inr (o1 @ '']''))
        | _ \<Rightarrow> not_compiled)
    | C_array t' n \<Rightarrow> (case v of
          V_list vs \<Rightarrow> bind_sum (append_elements T t' vs True (output @ ''['')) (\<lambda>o1. Inr (o1 @ '']''))
        | _ \<Rightarrow> not_compiled)
    | C_object name \<Rightarrow> (case v of
          V_object vs \<Rightarrow> (case T name of
              None \<Rightarrow> not_compiled
            | Some ob \<Rightarrow>
                bind_sum (append_object_fields T (ob_fields ob) 0 vs (output @ ''{'')) (\<lambda>o1. Inr (o1 @ ''}'')))
        | _ \<Rightarrow> not_compiled)
    | _ \<Rightarrow> not_compiled)"
| "append_elements T t [] first output = Inr output"
| "append_elements T t (v # vs) first output =
     bind_sum (append_value T t v (if \<not> first then output @ '','' else output)) (append_elements T t vs False)"
| "append_object_fields T [] index vs output = Inr output"
| "append_object_fields T (f # fs) index [] output = Inr output"
| "append_object_fields T (f # fs) index (v # vs) output =
     (let o1 = (if index \<noteq> 0 then output @ '','' else output);
          o2 = append_escaped_string o1 (field_wire_name f) @ '':''
      in bind_sum (append_value T (fi_type f) v o2) (append_object_fields T fs (index + 1) vs))"
  by pat_completeness auto
termination
  by (relation "measure (\<lambda>x. case x of
      Inl (T, t, v, output) \<Rightarrow> size v
    | Inr (Inl (T, t, vs, first, output)) \<Rightarrow> size_list size vs
    | Inr (Inr (T, fs, index, vs, output)) \<Rightarrow> size_list size vs)") auto

declare append_value.simps [simp del]

definition write_json :: "type_table \<Rightarrow> ctype \<Rightarrow> jvalue \<Rightarrow> string throwing" where
  "write_json T t v = append_value T t v []"

end
