(* ===== verification/Flash_Utf8.thy ===== *)
theory Flash_Utf8
  imports Flash_Json_Cursor
begin

text \<open>
  The UTF-8 validation of the JSON reader accepts exactly the concatenations of encodings that its own
  encoder \<open>append_utf8\<close> gives to Unicode scalar values: no overlong form, no surrogate, nothing above
  U+10FFFF, no truncated sequence.
\<close>

unbundle bit_operations_syntax

definition scalar_value :: "nat \<Rightarrow> bool" where
  "scalar_value n \<longleftrightarrow> n \<le> 0x10FFFF \<and> \<not> (0xD800 \<le> n \<and> n \<le> 0xDFFF)"

section \<open>Bit patterns as arithmetic\<close>

lemma and_push_bit: "c AND push_bit n m = push_bit n (drop_bit n c AND (m::nat))"
  by (rule bit_eqI) (auto simp: bit_and_iff bit_push_bit_iff bit_drop_bit_eq)

lemma and_high: "c AND push_bit n (mask k) = (c div 2 ^ n mod 2 ^ k) * (2 ^ n :: nat)"
  unfolding and_push_bit by (simp add: take_bit_eq_mask [symmetric] take_bit_eq_mod drop_bit_eq_div push_bit_eq_mult)

lemma and_low: "c AND mask k = c mod (2 ^ k :: nat)"
  by (simp add: take_bit_eq_mask [symmetric] take_bit_eq_mod)

lemmas and_masks = and_high [of _ 5 3] and_high [of _ 4 4] and_high [of _ 3 5] and_high [of _ 6 2]
  and_low [of _ 5] and_low [of _ 4] and_low [of _ 3] and_low [of _ 6]

lemmas and_bits = and_masks [simplified mask_eq_exp_minus_1, simplified]

lemma or_disjoint: "n < 2 ^ k \<Longrightarrow> push_bit k m OR n = push_bit k m + (n::nat)"
proof -
  assume n: "n < 2 ^ k"
  have "int (push_bit k m OR n) = push_bit k (int m) OR int n"
    by (simp add: of_nat_or_eq of_nat_push_bit)
  also have "\<dots> = int (push_bit k m + n)"
    using push_bit_or_add [of "int n" k "int m"] n by (simp add: push_bit_eq_mult)
  finally show ?thesis by (simp only: of_nat_eq_iff)
qed

lemma or_lead2: "n < 32 \<Longrightarrow> 0xC0 OR n = 0xC0 + (n::nat)"
  using or_disjoint [of n 5 6] by (simp add: push_bit_eq_mult)

lemma or_lead3: "n < 16 \<Longrightarrow> 0xE0 OR n = 0xE0 + (n::nat)"
  using or_disjoint [of n 4 14] by (simp add: push_bit_eq_mult)

lemma or_lead4: "n < 8 \<Longrightarrow> 0xF0 OR n = 0xF0 + (n::nat)"
  using or_disjoint [of n 3 30] by (simp add: push_bit_eq_mult)

lemma or_continuation: "n < 64 \<Longrightarrow> 0x80 OR n = 0x80 + (n::nat)"
  using or_disjoint [of n 6 2] by (simp add: push_bit_eq_mult)

lemma and_3F: "n AND 0x3F = n mod (64::nat)"
  by (rule and_bits)

lemma drop_bit_6: "drop_bit 6 n = n div (64::nat)"
  by (simp add: drop_bit_eq_div)

lemma drop_bit_12: "drop_bit 12 n = n div (4096::nat)"
  by (simp add: drop_bit_eq_div)

lemma drop_bit_18: "drop_bit 18 n = n div (262144::nat)"
  by (simp add: drop_bit_eq_div)

lemma push_6_or: "d < 64 \<Longrightarrow> push_bit 6 s OR d = s * 64 + (d::nat)"
  using or_disjoint [of d 6 s] by (simp add: push_bit_eq_mult)

definition lead_spec :: "nat \<Rightarrow> (nat \<times> nat \<times> nat) option" where
  "lead_spec l = (if 0xC0 \<le> l \<and> l < 0xE0 then Some (1, l - 0xC0, 0x80)
     else if 0xE0 \<le> l \<and> l < 0xF0 then Some (2, l - 0xE0, 0x800)
     else if 0xF0 \<le> l \<and> l < 0xF8 then Some (3, l - 0xF0, 0x10000) else None)"

lemma utf8_lead_eq: "l < 256 \<Longrightarrow> utf8_lead l = lead_spec l"
  unfolding utf8_lead_def lead_spec_def and_bits by (auto simp: minus_div_mult_eq_mod [symmetric])

lemma is_continuation: "c < 256 \<Longrightarrow> (c::nat) AND 0xC0 = 0x80 \<longleftrightarrow> 0x80 \<le> c \<and> c < 0xC0"
  unfolding and_bits by auto

section \<open>One encoded scalar\<close>

definition byte :: "nat \<Rightarrow> char" where
  "byte n = char_of n"

lemma of_char_byte [simp]: "n < 256 \<Longrightarrow> (of_char (byte n) :: nat) = n"
  by (simp add: byte_def of_char_of)

lemma byte_of_char [simp]: "byte (of_char c) = c"
  by (simp add: byte_def)

lemma of_char_256 [simp]: "(of_char c :: nat) < 256"
  by (rule nat_of_char_less_256)

text \<open>The encoding by division, and the decoding of one scalar, the body of the validation loop.\<close>

definition utf8 :: "nat \<Rightarrow> string" where
  "utf8 n = (if n < 0x80 then [byte n]
     else if n < 0x800 then [byte (0xC0 + n div 64), byte (0x80 + n mod 64)]
     else if n < 0x10000 then [byte (0xE0 + n div 4096), byte (0x80 + n div 64 mod 64), byte (0x80 + n mod 64)]
     else [byte (0xF0 + n div 262144), byte (0x80 + n div 4096 mod 64), byte (0x80 + n div 64 mod 64),
       byte (0x80 + n mod 64)])"

lemma append_utf8_eq:
  assumes "n < 0x200000"
  shows "append_utf8 s n = s @ utf8 n"
proof -
  have "n < 0x800 \<Longrightarrow> n div 64 < 32" "n < 0x10000 \<Longrightarrow> n div 4096 < 16" "n div 262144 < 8"
    using assms by simp_all
  then show ?thesis
    by (simp add: append_utf8_def utf8_def and_3F drop_bit_6 drop_bit_12 drop_bit_18 byte_def
        or_lead2 or_lead3 or_lead4 or_continuation)
qed

definition decode_first :: "string \<Rightarrow> (nat \<times> nat) option" where
  "decode_first s = (case s of [] \<Rightarrow> None
    | c # cs \<Rightarrow>
       (if (of_char c :: nat) \<le> 0x7F then Some (of_char c, 1)
        else case utf8_lead (of_char c) of None \<Rightarrow> None
          | Some (n, bits, least) \<Rightarrow>
              if length cs < n then None
              else case continuation_loop cs n bits of None \<Rightarrow> None
                | Some v \<Rightarrow> if v < least \<or> \<not> scalar_value v then None else Some (v, n + 1)))"

lemma utf8_loop_step:
  "utf8_loop s i = (if i < length s then
     (case decode_first (drop i s) of None \<Rightarrow> False | Some (v, k) \<Rightarrow> utf8_loop s (i + k)) else True)"
proof (cases "i < length s")
  case True
  then have d: "drop i s = s ! i # drop (Suc i) s" by (rule drop_Cons_nth)
  from True show ?thesis
    by (subst utf8_loop.simps)
      (auto simp: d decode_first_def Let_def scalar_value_def split: option.splits)
qed (simp add: utf8_loop.simps)

lemma continuation_loop_step:
  "continuation_loop (c # cs) (Suc n) v =
     (if 0x80 \<le> (of_char c :: nat) \<and> (of_char c :: nat) < 0xC0
      then continuation_loop cs n (v * 64 + (of_char c - 0x80)) else None)"
proof -
  have "c' < 0xC0 \<Longrightarrow> 0x80 \<le> c' \<Longrightarrow> c' AND 0x3F = c' - 0x80" for c' :: nat
    by (simp add: and_3F mod_if)
  moreover have "(of_char c :: nat) < 0xC0 \<Longrightarrow> of_char c - 0x80 < (64::nat)" by simp
  ultimately show ?thesis by (simp add: is_continuation push_6_or)
qed

lemma continuation_loop_0 [simp]: "continuation_loop cs 0 v = Some v"
  by (cases cs) simp_all

lemma digits_64:
  fixes h :: nat
  assumes "x < 64"
  shows "(h * 64 + x) div 64 = h" "(h * 64 + x) mod 64 = x" "(h * 64 + x) div 4096 = h div 64"
    "(h * 64 + x) div 262144 = h div 4096"
proof -
  show d: "(h * 64 + x) div 64 = h" and "(h * 64 + x) mod 64 = x" using assms by simp_all
  show "(h * 64 + x) div 4096 = h div 64" using div_mult2_eq [of "h * 64 + x" 64 64] d by simp
  show "(h * 64 + x) div 262144 = h div 4096" using div_mult2_eq [of "h * 64 + x" 64 4096] d by simp
qed

lemma three_bytes_bound: "h < 16 \<Longrightarrow> x < 64 \<Longrightarrow> y < 64 \<Longrightarrow> (h * 64 + x) * 64 + y < (0x10000::nat)"
proof -
  assume "h < 16" "x < 64" "y < 64"
  then have "h \<le> 15" "x \<le> 63" "y \<le> 63" by simp_all
  then show ?thesis by (simp add: add_mult_distrib)
qed

lemma char_byteI: "(of_char c :: nat) = n \<Longrightarrow> c = byte n"
  by (metis byte_of_char)

lemma decode_first_Some:
  assumes "decode_first s = Some (v, k)"
  shows "scalar_value v \<and> k = length (utf8 v) \<and> (\<exists>r. s = utf8 v @ r)"
proof -
  obtain c cs where s: "s = c # cs" using assms by (cases s) (auto simp: decode_first_def)
  let ?l = "of_char c :: nat"
  show ?thesis
  proof (cases "?l \<le> 0x7F")
    case True
    then show ?thesis using assms by (auto simp: s decode_first_def scalar_value_def utf8_def)
  next
    case False
    then obtain n bits least where l: "lead_spec ?l = Some (n, bits, least)" "n \<le> length cs"
      "continuation_loop cs n bits = Some v" "least \<le> v" "scalar_value v" "k = n + 1"
      using assms by (auto simp: s decode_first_def utf8_lead_eq split: option.splits if_splits)
    consider (two) "0xC0 \<le> ?l" "?l < 0xE0" "n = 1" "bits = ?l - 0xC0" "least = 0x80"
      | (three) "0xE0 \<le> ?l" "?l < 0xF0" "n = 2" "bits = ?l - 0xE0" "least = 0x800"
      | (four) "0xF0 \<le> ?l" "?l < 0xF8" "n = 3" "bits = ?l - 0xF0" "least = 0x10000"
      using l(1) by (auto simp: lead_spec_def split: if_splits)
    then show ?thesis
    proof cases
      case two
      obtain a r where cs: "cs = a # r" using l(2) two(3) by (cases cs) auto
      let ?a = "of_char a :: nat"
      have a: "0x80 \<le> ?a" "?a < 0xC0" and v: "v = (?l - 0xC0) * 64 + (?a - 0x80)"
        using l(3) two(3,4) cs by (auto simp: continuation_loop_step simp del: continuation_loop.simps(2) split: if_splits)
      have A: "?a - 0x80 < 64" using a by simp
      have "v < 0x800" "v div 64 = ?l - 0xC0" "v mod 64 = ?a - 0x80"
        using v two A by (auto simp only: digits_64)
      with l(4) two a have "utf8 v = [c, a]" by (simp add: utf8_def)
      with l cs s two show ?thesis by simp
    next
      case three
      obtain a b r where cs: "cs = a # b # r" using l(2) three(3) by (cases cs; cases "tl cs") auto
      let ?a = "of_char a :: nat" and ?b = "of_char b :: nat"
      have a: "0x80 \<le> ?a" "?a < 0xC0" "0x80 \<le> ?b" "?b < 0xC0"
        and v: "v = ((?l - 0xE0) * 64 + (?a - 0x80)) * 64 + (?b - 0x80)"
        using l(3) three(3,4) cs
        by (auto simp: continuation_loop_step numeral_2_eq_2 simp del: continuation_loop.simps(2) split: if_splits)
      have A: "?a - 0x80 < 64" "?b - 0x80 < 64" using a by simp_all
      have "v div 4096 = ?l - 0xE0" "v div 64 mod 64 = ?a - 0x80" "v mod 64 = ?b - 0x80"
        using v A by (simp_all only: digits_64)
      moreover have "?l - 0xE0 < 16" using three(1,2) by simp
      then have "v < 0x10000" unfolding v using A by (rule three_bytes_bound)
      ultimately have "utf8 v = [c, a, b]" using l(4) three a by (simp add: utf8_def)
      with l cs s three show ?thesis by simp
    next
      case four
      obtain a b d r where cs: "cs = a # b # d # r"
        using l(2) four(3) by (cases cs; cases "tl cs"; cases "tl (tl cs)") auto
      let ?a = "of_char a :: nat" and ?b = "of_char b :: nat" and ?d = "of_char d :: nat"
      have a: "0x80 \<le> ?a" "?a < 0xC0" "0x80 \<le> ?b" "?b < 0xC0" "0x80 \<le> ?d" "?d < 0xC0"
        and v: "v = (((?l - 0xF0) * 64 + (?a - 0x80)) * 64 + (?b - 0x80)) * 64 + (?d - 0x80)"
        using l(3) four(3,4) cs
        by (auto simp: continuation_loop_step numeral_3_eq_3 simp del: continuation_loop.simps(2) split: if_splits)
      have A: "?a - 0x80 < 64" "?b - 0x80 < 64" "?d - 0x80 < 64" using a by simp_all
      have "v div 262144 = ?l - 0xF0" "v div 4096 mod 64 = ?a - 0x80" "v div 64 mod 64 = ?b - 0x80"
        "v mod 64 = ?d - 0x80"
        using v A by (simp_all only: digits_64)
      with l(4) four a have "utf8 v = [c, a, b, d]" by (simp add: utf8_def)
      with l cs s four show ?thesis by simp
    qed
  qed
qed

lemma scalar_value_bound: "scalar_value n \<Longrightarrow> n < 0x110000"
  by (simp add: scalar_value_def)

lemma regroup_64:
  "n div 4096 * 64 + n div 64 mod 64 = (n div 64 :: nat)"
  "n div 262144 * 64 + n div 4096 mod 64 = (n div 4096 :: nat)"
proof -
  show "n div 4096 * 64 + n div 64 mod 64 = n div 64" using div_mult2_eq [of n 64 64] by simp
  show "n div 262144 * 64 + n div 4096 mod 64 = n div 4096" using div_mult2_eq [of n 4096 64] by simp
qed

lemma decode_first_utf8:
  assumes "scalar_value n"
  shows "decode_first (utf8 n @ r) = Some (n, length (utf8 n))"
proof -
  have b: "n < 0x110000" using assms by (rule scalar_value_bound)
  have m: "x mod 64 + 0x80 < 0xC0" "0x80 + x mod 64 < 256" for x :: nat by (simp_all add: add.commute)
  consider (one) "n < 0x80" | (two) "0x80 \<le> n" "n < 0x800" | (three) "0x800 \<le> n" "n < 0x10000"
    | (four) "0x10000 \<le> n" by linarith
  then show ?thesis
  proof cases
    case two
    then have "n div 64 < 32" "2 \<le> n div 64" by auto
    moreover have "n div 64 * 64 + n mod 64 = n" by simp
    ultimately show ?thesis using two m assms
      by (simp add: utf8_def decode_first_def utf8_lead_eq lead_spec_def continuation_loop_step
          numeral_2_eq_2 del: continuation_loop.simps(2))
  next
    case three
    then have "n div 4096 < 16" by auto
    moreover have "(n div 4096 * 64 + n div 64 mod 64) * 64 + n mod 64 = n"
      by (simp add: regroup_64)
    ultimately show ?thesis using three m assms
      by (simp add: utf8_def decode_first_def utf8_lead_eq lead_spec_def continuation_loop_step
          numeral_2_eq_2 del: continuation_loop.simps(2))
  next
    case four
    then have "n div 262144 < 8" using b by auto
    moreover have "((n div 262144 * 64 + n div 4096 mod 64) * 64 + n div 64 mod 64) * 64 + n mod 64 = n"
      by (simp add: regroup_64)
    ultimately show ?thesis using four m assms
      by (simp add: utf8_def decode_first_def utf8_lead_eq lead_spec_def continuation_loop_step
          numeral_3_eq_3 del: continuation_loop.simps(2))
  qed (use assms in \<open>simp add: utf8_def decode_first_def\<close>)
qed

section \<open>Validation\<close>

lemma utf8_not_Nil [simp]: "utf8 n \<noteq> []"
  by (simp add: utf8_def)

definition utf8_text :: "string \<Rightarrow> bool" where
  "utf8_text s \<longleftrightarrow> (\<exists>ns. (\<forall>n \<in> set ns. scalar_value n) \<and> s = concat (map utf8 ns))"

lemma utf8_text_Nil [simp]: "utf8_text []"
  unfolding utf8_text_def by (rule exI [of _ "[]"]) simp

lemma utf8_text_decode:
  assumes "s \<noteq> []"
  shows "utf8_text s \<longleftrightarrow> (\<exists>v r. scalar_value v \<and> s = utf8 v @ r \<and> utf8_text r)"
proof
  assume "utf8_text s"
  then obtain ns where ns: "\<forall>n \<in> set ns. scalar_value n" "s = concat (map utf8 ns)"
    by (auto simp: utf8_text_def)
  with assms obtain n ns' where "ns = n # ns'" by (cases ns) auto
  with ns show "\<exists>v r. scalar_value v \<and> s = utf8 v @ r \<and> utf8_text r"
    by (auto simp: utf8_text_def)
next
  assume "\<exists>v r. scalar_value v \<and> s = utf8 v @ r \<and> utf8_text r"
  then obtain v ns where "scalar_value v" "\<forall>n \<in> set ns. scalar_value n" "s = utf8 v @ concat (map utf8 ns)"
    by (auto simp: utf8_text_def)
  then show "utf8_text s" unfolding utf8_text_def by (intro exI [of _ "v # ns"]) simp
qed

lemma utf8_loop_text: "i \<le> length s \<Longrightarrow> utf8_loop s i \<longleftrightarrow> utf8_text (drop i s)"
proof (induction "length s - i" arbitrary: i rule: less_induct)
  case less
  show ?case
  proof (cases "i < length s")
    case False
    with less.prems show ?thesis by (simp add: utf8_loop.simps)
  next
    case True
    then have ne: "drop i s \<noteq> []" by simp
    show ?thesis
    proof (cases "decode_first (drop i s)")
      case None
      then have "\<not> utf8_text (drop i s)" using decode_first_utf8 by (auto simp: utf8_text_decode [OF ne])
      with None True show ?thesis by (subst utf8_loop_step) simp
    next
      case (Some vk)
      obtain v k where vk: "vk = (v, k)" by force
      then obtain r where r: "scalar_value v" "k = length (utf8 v)" "drop i s = utf8 v @ r"
        using decode_first_Some Some by blast
      have dr: "drop (i + k) s = r" using r by (metis add.commute append_eq_conv_conj drop_drop)
      have "length s - i = length (utf8 v) + length r"
        using arg_cong [OF r(3), of length] by simp
      then have b: "i + k \<le> length s" "0 < k" using r(2) True by auto
      have ih: "utf8_loop s (i + k) \<longleftrightarrow> utf8_text r" using less.hyps [of "i + k"] b dr True by auto
      have "utf8_text (drop i s) \<longleftrightarrow> utf8_text r"
        unfolding utf8_text_decode [OF ne]
        using r decode_first_utf8 [of _ r] decode_first_utf8 by (metis append_eq_append_conv option.inject prod.inject)
      with ih Some vk True show ?thesis by (subst utf8_loop_step) simp
    qed
  qed
qed

lemma valid_utf8_iff: "valid_utf8 s \<longleftrightarrow> utf8_text s"
  using utf8_loop_text [of 0 s] by (simp add: valid_utf8_def)

lemma utf8_text_append: "utf8_text a \<Longrightarrow> utf8_text b \<Longrightarrow> utf8_text (a @ b)"
proof -
  assume "utf8_text a" "utf8_text b"
  then obtain ns ms where "\<forall>n \<in> set ns. scalar_value n" "a = concat (map utf8 ns)"
    "\<forall>n \<in> set ms. scalar_value n" "b = concat (map utf8 ms)" by (auto simp: utf8_text_def)
  then show ?thesis unfolding utf8_text_def by (intro exI [of _ "ns @ ms"]) auto
qed

lemma utf8_text_ascii: "\<forall>c \<in> set s. (of_char c :: nat) < 0x80 \<Longrightarrow> utf8_text s"
proof (induction s)
  case (Cons c s)
  then have "utf8 (of_char c) = [c]" "scalar_value (of_char c)"
    by (simp_all add: utf8_def scalar_value_def)
  with Cons show ?case by (subst utf8_text_decode) (auto intro: exI [of _ "of_char c"])
qed simp

section \<open>Properties\<close>

text \<open>C32. The validation of strings accepts exactly UTF-8: a byte string passes if and only if it is a
  concatenation of the encodings \<open>append_utf8\<close> gives to Unicode scalar values, so overlong forms, encoded
  surrogates, values above U+10FFFF and cut-off sequences are all refused.\<close>

theorem valid_utf8_exact:
  "valid_utf8 s \<longleftrightarrow> (\<exists>ns. (\<forall>n \<in> set ns. scalar_value n) \<and> s = concat (map (append_utf8 []) ns))"
proof -
  have "map (append_utf8 []) ns = map utf8 ns" if "\<forall>n \<in> set ns. scalar_value n" for ns
    using that append_utf8_eq [of _ "[]"] scalar_value_bound by fastforce
  then show ?thesis unfolding valid_utf8_iff utf8_text_def by metis
qed

theorem valid_utf8_exact_witness: "valid_utf8 [CHR 0xC3, CHR 0xA9]"
proof -
  have "[CHR 0xC3, CHR 0xA9] = concat (map (append_utf8 []) [0xE9])"
    by (simp add: append_utf8_def drop_bit_eq_div) code_simp
  moreover have "\<forall>n \<in> set [0xE9]. scalar_value n" by (simp add: scalar_value_def)
  ultimately show ?thesis unfolding valid_utf8_exact by blast
qed

end
