(* ===== verification/Flash_Json_Lex.thy ===== *)
theory Flash_Json_Lex
  imports Flash_Utf8 Flash_Problem
begin

text \<open>
  What the lexical operations of the JSON cursor do to the text that is left: how far they move, which
  strings and numbers they accept, and that a string written by the escaping loop is read back.
\<close>

unbundle bit_operations_syntax

section \<open>The text that is left\<close>

definition left_text :: "cursor \<Rightarrow> string" where
  "left_text cu = drop (cu_position cu) (cu_input cu)"

definition cursor_ok :: "cursor \<Rightarrow> bool" where
  "cursor_ok cu \<longleftrightarrow> cu_position cu \<le> length (cu_input cu)"

text \<open>\<open>moves n cu cu'\<close>: the same input and limits, at least \<open>n\<close> further, not past the end.\<close>

definition moves :: "nat \<Rightarrow> cursor \<Rightarrow> cursor \<Rightarrow> bool" where
  "moves n cu cu' \<longleftrightarrow> cu_input cu' = cu_input cu \<and> cu_limits cu' = cu_limits cu \<and>
     cu_position cu + n \<le> cu_position cu' \<and> cursor_ok cu'"

named_theorems cursor_simps \<open>reading off the text that is left\<close>

lemma left_text_advance [cursor_simps]: "left_text (advance n cu) = drop n (left_text cu)"
  by (simp add: left_text_def add.commute)

lemma left_text_decomp: "left_text cu = s @ r \<Longrightarrow> left_text (advance (length s) cu) = r"
  by (simp add: left_text_advance)

lemma cursor_ok_advance: "left_text cu = s @ r \<Longrightarrow> cursor_ok cu \<Longrightarrow> cursor_ok (advance (length s) cu)"
  by (drule arg_cong [of _ _ length]) (simp add: cursor_ok_def left_text_def)

lemma left_text_Cons:
  assumes "left_text cu = c # r"
  shows "cu_position cu < length (cu_input cu)" "cu_input cu ! cu_position cu = c" "\<not> at_end cu"
    "peek cu = c" "left_text (advance 1 cu) = r" "cursor_ok (advance 1 cu)"
proof -
  show p: "cu_position cu < length (cu_input cu)"
    using assms by (metis drop_all left_text_def list.distinct(1) not_less)
  then show n: "cu_input cu ! cu_position cu = c"
    using assms by (metis Cons_nth_drop_Suc left_text_def list.inject)
  show e: "\<not> at_end cu" using p by (simp add: at_end_def)
  show "peek cu = c" using n e by (simp add: peek_def)
  show "left_text (advance 1 cu) = r" using assms by (simp add: left_text_advance)
  show "cursor_ok (advance 1 cu)" using p by (simp add: cursor_ok_def)
qed

lemma left_text_Nil:
  assumes "left_text cu = []" "cursor_ok cu"
  shows "at_end cu" "peek cu = CHR 0x00" "\<not> cu_position cu < length (cu_input cu)"
  using assms by (auto simp: left_text_def cursor_ok_def at_end_def peek_def)

lemma peek_left: "cursor_ok cu \<Longrightarrow> peek cu = (case left_text cu of [] \<Rightarrow> CHR 0x00 | c # _ \<Rightarrow> c)"
  using left_text_Nil(2) left_text_Cons(4) by (cases "left_text cu") auto

lemma length_left_text: "length (left_text cu) = length (cu_input cu) - cu_position cu"
  by (simp add: left_text_def)

section \<open>Movement\<close>

lemma moves_refl [simp]: "moves 0 cu cu \<longleftrightarrow> cursor_ok cu"
  by (simp add: moves_def)

lemma moves_trans: "moves m a b \<Longrightarrow> moves n b c \<Longrightarrow> k \<le> m + n \<Longrightarrow> moves k a c"
  by (simp add: moves_def)

lemma moves_ok: "moves n a b \<Longrightarrow> cursor_ok b"
  by (simp add: moves_def)

lemma moves_mono: "moves n a b \<Longrightarrow> k \<le> n \<Longrightarrow> moves k a b"
  by (simp add: moves_def)

lemma moves_advance: "cursor_ok (advance n cu) \<Longrightarrow> moves n cu (advance n cu)"
  by (simp add: moves_def)

lemma not_at_end: "cursor_ok cu \<Longrightarrow> \<not> at_end cu \<longleftrightarrow> cu_position cu < length (cu_input cu)"
  by (auto simp: cursor_ok_def at_end_def)

lemma peek_moves: "cursor_ok cu \<Longrightarrow> peek cu \<noteq> CHR 0x00 \<Longrightarrow> moves 1 cu (advance 1 cu)"
  by (auto simp: moves_def cursor_ok_def peek_def at_end_def split: if_splits)

lemma consume_moves:
  assumes "consume c cu = (b, cu')" "cursor_ok cu" "c \<noteq> CHR 0x00"
  shows "moves (if b then 1 else 0) cu cu'"
  using assms peek_moves [OF assms(2)] by (auto simp: consume_def split: if_splits)

lemma skip_whitespace_moves: "cursor_ok cu \<Longrightarrow> moves 0 cu (skip_whitespace cu)"
proof (induction cu rule: skip_whitespace.induct)
  case (1 cu)
  show ?case
  proof (cases "cu_position cu < length (cu_input cu) \<and> is_json_space (cu_input cu ! cu_position cu)")
    case True
    then have ok: "cursor_ok (advance 1 cu)" by (simp add: cursor_ok_def)
    have "moves 0 cu (skip_whitespace (advance 1 cu))"
      using "1.IH" True ok moves_advance [OF ok] moves_trans by fastforce
    with True show ?thesis by (subst skip_whitespace.simps) simp
  next
    case False
    then show ?thesis using "1.prems" by (subst skip_whitespace.simps) auto
  qed
qed

lemma skip_whitespace_ok [simp]: "cursor_ok cu \<Longrightarrow> cursor_ok (skip_whitespace cu)"
  using skip_whitespace_moves moves_ok by blast

lemma skip_digits_left:
  "cursor_ok cu \<Longrightarrow> skip_digits cu = advance (length (takeWhile is_digit (left_text cu))) cu"
proof (induction cu rule: skip_digits.induct)
  case (1 cu)
  show ?case
  proof (cases "left_text cu")
    case Nil
    with left_text_Nil [OF Nil "1.prems"] show ?thesis by (subst skip_digits.simps) simp
  next
    case (Cons c r)
    note l = left_text_Cons [OF Cons]
    show ?thesis
    proof (cases "is_digit c")
      case True
      have "skip_digits (advance 1 cu) = advance (length (takeWhile is_digit r)) (advance 1 cu)"
        using "1.IH" True l by metis
      with True l Cons show ?thesis by (subst skip_digits.simps) simp
    qed (use l Cons in \<open>subst skip_digits.simps, simp\<close>)
  qed
qed

lemma starts_with_left: "cursor_starts_with cu s \<longleftrightarrow> (\<exists>r. left_text cu = s @ r)"
  by (simp add: cursor_starts_with_def left_text_def starts_with_prefix)

lemma consume_literal_moves:
  "consume_literal s path cu = Done u cu' \<Longrightarrow> cursor_ok cu \<Longrightarrow> moves (length s) cu cu'"
  using cursor_ok_advance [of cu s] by (auto simp: consume_literal_def starts_with_left split: if_splits intro: moves_advance)

section \<open>Strings that are accepted\<close>

lemma close_string_Done:
  assumes "close_string path seg off result cu = Done p cu'" "ps_owns result \<or> seg \<le> off" "off \<le> length (cu_input cu)"
  shows "cu' = cu \<and> valid_utf8 (ps_view p) \<and> length (ps_view p) \<le> maximum_string_bytes (cu_limits cu)"
  using assms by (auto simp: close_string_def Let_def ps_view_def split: if_splits)

lemma escape_step_moves:
  assumes "escape_step path e cu = Done t cu'" "cursor_ok cu"
  shows "moves 0 cu cu'"
  using escape_step_cursor [OF assms(1)] assms(2) by (simp add: moves_def cursor_ok_def)

lemma obind_fuel_iff:
  "obind m f = Out_of_fuel \<longleftrightarrow> m = Out_of_fuel \<or> (\<exists>x cu. m = Done x cu \<and> f x cu = Out_of_fuel)"
  by (cases m) auto

lemma parse_hex_quad_fuel [simp]: "parse_hex_quad path cu \<noteq> Out_of_fuel"
proof -
  have "hex_quad_loop n v path cu \<noteq> Out_of_fuel" for n v cu
    by (induction n arbitrary: v cu) (simp_all add: Let_def)
  then show ?thesis by (simp add: parse_hex_quad_def)
qed

lemma escape_step_fuel [simp]: "escape_step path e cu \<noteq> Out_of_fuel"
  by (auto simp: escape_step_def unicode_escape_def obind_fuel_iff)

lemma close_string_fuel [simp]: "close_string path seg off result cu \<noteq> Out_of_fuel"
  by (simp add: close_string_def Let_def)

lemma string_loop_fuel [simp]: "string_loop path seg result cu \<noteq> Out_of_fuel"
proof (induction path seg result cu rule: string_loop.induct)
  case (1 path seg result cu)
  show ?case
    by (subst string_loop.simps)
      (use 1 in \<open>simp add: Let_def del: append_assoc advance_simps split: outcome.split\<close>)
qed

lemma parse_string_fuel [simp]: "parse_string path cu \<noteq> Out_of_fuel"
  by (simp add: parse_string_def split: prod.split bool.split)

text \<open>One turn of the loop that goes on: past a plain character, or past an escape.\<close>

lemma string_loop_plain:
  assumes "left_text cu = c # r" "c \<noteq> CHR 0x22" "c \<noteq> CHR 0x5C" "\<not> (of_char c :: nat) < 0x20"
  shows "string_loop path seg result cu = string_loop path seg result (advance 1 cu)"
  using left_text_Cons [OF assms(1)] assms(2-4) by (subst string_loop.simps) (simp add: Let_def)

lemma string_loop_escape:
  assumes "left_text cu = CHR 0x5C # e # r" "owned1 = ps_owned result @
      substr (cu_input cu) seg (cu_position cu - seg)"
    "escape_step path e (advance 2 cu) = Done text cu2"
    "length (owned1 @ text) \<le> maximum_string_bytes (cu_limits cu)"
  shows "string_loop path seg result cu =
    string_loop path (cu_position cu2) (result\<lparr>ps_owns := True, ps_owned := owned1 @ text\<rparr>) cu2"
proof -
  note l = left_text_Cons [OF assms(1)]
  note l1 = left_text_Cons [OF l(5)]
  have "advance 1 (advance 1 cu) = advance 2 cu" by (simp add: numeral_2_eq_2)
  then show ?thesis using l l1 assms(2-4)
    by (subst string_loop.simps) (simp add: Let_def numeral_2_eq_2)
qed

lemma string_loop_close:
  assumes "left_text cu = CHR 0x22 # r"
  shows "string_loop path seg result cu = close_string path seg (cu_position cu) result (advance 1 cu)"
  using left_text_Cons [OF assms] by (subst string_loop.simps) (simp add: Let_def)

text \<open>What a finished string guarantees: progress, valid UTF-8 and the size limit.\<close>

definition string_result :: "cursor \<Rightarrow> parsed_string \<Rightarrow> cursor \<Rightarrow> bool" where
  "string_result cu p cu' \<longleftrightarrow> moves 1 cu cu' \<and> valid_utf8 (ps_view p) \<and>
     length (ps_view p) \<le> maximum_string_bytes (cu_limits cu)"

lemma string_result_later:
  "string_result b p cu' \<Longrightarrow> moves n a b \<Longrightarrow> string_result a p cu'"
  by (auto simp: string_result_def moves_def)

lemma string_loop_Done:
  "string_loop path seg result cu = Done p cu' \<Longrightarrow> cursor_ok cu \<Longrightarrow> seg \<le> cu_position cu \<Longrightarrow>
   string_result cu p cu'"
proof (induction path seg result cu rule: string_loop.induct)
  case (1 path seg result cu)
  have lt: "cu_position cu < length (cu_input cu)"
    using "1.prems"(1) by (subst (asm) string_loop.simps) (simp split: if_splits)
  then obtain c r where l: "left_text cu = c # r"
    by (metis left_text_def drop_eq_Nil neq_Nil_conv not_less)
  note lc = left_text_Cons [OF l]
  have m1: "moves 1 cu (advance 1 cu)" using lc(6) by (rule moves_advance)
  consider (close) "c = CHR 0x22" | (plain) "c \<noteq> CHR 0x22" "c \<noteq> CHR 0x5C" "\<not> (of_char c :: nat) < 0x20"
    | (escape) "c = CHR 0x5C"
    using "1.prems"(1) lc by (subst (asm) string_loop.simps) (auto simp: Let_def split: if_splits)
  then show ?case
  proof cases
    case close
    then have "close_string path seg (cu_position cu) result (advance 1 cu) = Done p cu'"
      using "1.prems"(1) string_loop_close l by metis
    then show ?thesis using close_string_Done "1.prems"(3) lt m1 by (fastforce simp: string_result_def)
  next
    case plain
    have "string_result (advance 1 cu) p cu'"
      using "1.IH"(1) [OF lt refl refl refl] plain lc string_loop_plain [OF l plain] "1.prems" by simp
    then show ?thesis using m1 by (rule string_result_later)
  next
    case escape
    let ?o = "ps_owned result @ substr (cu_input cu) seg (cu_position cu - seg)"
    obtain t cu2 where e: "escape_step path (cu_input cu ! cu_position (advance 1 cu)) (advance 1 (advance 1 cu)) = Done t cu2"
      and ne: "\<not> at_end (advance 1 cu)"
      and r: "\<not> length (?o @ t) > maximum_string_bytes (cu_limits cu)"
      "string_loop path (cu_position cu2) (result\<lparr>ps_owns := True, ps_owned := ?o @ t\<rparr>) cu2 = Done p cu'"
      using "1.prems"(1) escape lc
      by (subst (asm) string_loop.simps) (auto simp: Let_def split: if_splits outcome.splits)
    have ok2: "cursor_ok (advance 1 (advance 1 cu))"
      using ne lc(6) by (auto simp: at_end_def cursor_ok_def)
    have m2: "moves 0 (advance 1 (advance 1 cu)) cu2" using escape_step_moves [OF e ok2] .
    have "string_result cu2 p cu'"
      using "1.IH"(2) [OF lt refl refl refl _ _ _ refl ne e r(1) r(2)] escape lc moves_ok [OF m2] by simp
    moreover have "moves 2 cu cu2" using m2 by (auto simp: moves_def)
    ultimately show ?thesis by (rule string_result_later)
  qed
qed

lemma parse_string_Done:
  assumes "parse_string path cu = Done p cu'" "cursor_ok cu"
  shows "moves 2 cu cu'" "valid_utf8 (ps_view p)" "length (ps_view p) \<le> maximum_string_bytes (cu_limits cu)"
proof -
  obtain cu1 where c: "consume (CHR 0x22) cu = (True, cu1)"
    and l: "string_loop path (cu_position cu1) \<lparr>ps_owned = [], ps_borrowed = [], ps_owns = False\<rparr> cu1 = Done p cu'"
    using assms(1) by (auto simp: parse_string_def split: prod.splits bool.splits)
  have m: "moves 1 cu cu1" using consume_moves [OF c assms(2)] by simp
  then have "string_result cu1 p cu'" using string_loop_Done [OF l moves_ok [OF m]] by simp
  with m show "moves 2 cu cu'" "valid_utf8 (ps_view p)"
    "length (ps_view p) \<le> maximum_string_bytes (cu_limits cu)"
    by (auto simp: string_result_def moves_def)
qed

section \<open>Strings read back\<close>

definition escaped :: "string \<Rightarrow> string" where
  "escaped s = concat (map escape_char s)"

lemma escaped_simps [simp]:
  "escaped [] = []" "escaped (c # s) = escape_char c @ escaped s" "escaped (s @ t) = escaped s @ escaped t"
  by (simp_all add: escaped_def)

lemma escape_loop_eq: "escape_loop acc s = acc @ escaped s"
  by (induction s arbitrary: acc) simp_all

lemma append_json_string_eq: "append_json_string acc s = acc @ CHR 0x22 # escaped s @ [CHR 0x22]"
  by (simp add: append_json_string_def escape_loop_eq)

lemma hex_lower_value: "n < 16 \<Longrightarrow> hex_value (hex_lower n) = int n"
proof -
  assume n: "n < 16"
  have "list_all (\<lambda>n. hex_value (hex_lower n) = int n) [0..<16]" by code_simp
  with n show ?thesis by (simp add: list_all_iff)
qed

text \<open>A control character is written as \<open>\\u00\<close> and two digits, which the reader takes together again.\<close>

lemma hex_quad_control:
  assumes "left_text cu = CHR ''0'' # CHR ''0'' # hex_lower (drop_bit 4 n) # hex_lower (n AND 0x0F) # r"
    "n < 0x20"
  shows "parse_hex_quad path cu = Done n (advance 4 cu)"
proof -
  note l0 = left_text_Cons [OF assms(1)]
  note l1 = left_text_Cons [OF l0(5)]
  note l2 = left_text_Cons [OF l1(5)]
  note l3 = left_text_Cons [OF l2(5)]
  have h: "drop_bit 4 n < 16" "n AND 0x0F < 16" "push_bit 4 (drop_bit 4 n) OR (n AND 0x0F) = n"
  proof -
    show "drop_bit 4 n < 16" using assms(2) by (simp add: drop_bit_eq_div)
    have m: "n AND 0x0F = n mod 16" by (rule and_bits)
    then show "n AND 0x0F < 16" by simp
    show "push_bit 4 (drop_bit 4 n) OR (n AND 0x0F) = n"
      using or_disjoint [of "n mod 16" 4 "n div 16"] by (simp add: m drop_bit_eq_div push_bit_eq_mult)
  qed
  have four: "hex_quad_loop 4 = hex_quad_loop (Suc (Suc (Suc (Suc 0))))"
    "advance 4 cu = advance (Suc (Suc (Suc (Suc 0)))) cu" by (simp_all add: eval_nat_numeral)
  have "\<not> length (cu_input cu) - cu_position cu < 4"
    using l0(1) l1(1) l2(1) l3(1) by simp
  moreover have "hex_value (CHR ''0'') = 0" by code_simp
  ultimately show ?thesis
    using l0(2) l1(2) l2(2) l3(2) h
    by (simp add: parse_hex_quad_def hex_lower_value Let_def four)
qed

lemma escape_char_cases:
  obtains (plain) "escape_char c = [c]" "c \<noteq> CHR 0x22" "c \<noteq> CHR 0x5C" "\<not> (of_char c :: nat) < 0x20"
  | (escape) e es where "escape_char c = CHR 0x5C # e # es"
      "\<And>path cu r. left_text cu = es @ r \<Longrightarrow> escape_step path e cu = Done [c] (advance (length es) cu)"
proof (cases "c \<in> {CHR 0x22, CHR 0x5C, CHR 0x08, CHR 0x0C, CHR 0x0A, CHR 0x0D, CHR 0x09}")
  case True
  then obtain e where e: "escape_char c = CHR 0x5C # e # []"
      "\<And>path cu. escape_step path e cu = Done [c] cu"
    unfolding escape_char_def escape_step_def by fastforce
  show ?thesis by (rule escape [OF e(1)]) (simp add: e(2))
next
  case False
  show ?thesis
  proof (cases "(of_char c :: nat) < 0x20")
    case True
    let ?es = "[CHR ''0'', CHR ''0'', hex_lower (drop_bit 4 (of_char c)), hex_lower (of_char c AND 0x0F)]"
    show ?thesis
    proof (rule escape)
      show "escape_char c = CHR 0x5C # CHR ''u'' # ?es" using True False by (simp add: escape_char_def)
      fix path cu r
      assume l: "left_text cu = ?es @ r"
      have "parse_hex_quad path cu = Done (of_char c) (advance 4 cu)"
        using hex_quad_control [OF _ True] l by simp
      then show "escape_step path (CHR ''u'') cu = Done [c] (advance (length ?es) cu)"
        using True by (simp add: escape_step_def unicode_escape_def append_utf8_def)
    qed
  qed (use False in \<open>auto simp: escape_char_def intro!: plain\<close>)
qed

definition so_far :: "nat \<Rightarrow> parsed_string \<Rightarrow> cursor \<Rightarrow> string" where
  "so_far seg result cu = ps_owned result @ substr (cu_input cu) seg (cu_position cu - seg)"

lemma substr_grow:
  assumes "left_text cu = c # r" "seg \<le> cu_position cu"
  shows "substr (cu_input cu) seg (Suc (cu_position cu) - seg) =
    substr (cu_input cu) seg (cu_position cu - seg) @ [c]"
  using left_text_Cons(1,2) [OF assms(1)] assms(2)
  by (simp add: substr_def Suc_diff_le take_Suc_conv_app_nth)

lemma so_far_plain:
  "left_text cu = c # r \<Longrightarrow> seg \<le> cu_position cu \<Longrightarrow> so_far seg result (advance 1 cu) = so_far seg result cu @ [c]"
  using substr_grow by (simp add: so_far_def)

lemma string_loop_escaped:
  assumes "left_text cu = escaped t @ CHR 0x22 # r" "seg \<le> cu_position cu"
    "ps_owns result \<or> ps_owned result = []"
    "length (so_far seg result cu @ t) \<le> maximum_string_bytes (cu_limits cu)"
    "valid_utf8 (so_far seg result cu @ t)"
  shows "\<exists>p. string_loop path seg result cu = Done p (advance (Suc (length (escaped t))) cu) \<and>
    ps_view p = so_far seg result cu @ t"
  using assms
proof (induction t arbitrary: seg result cu)
  case Nil
  then have l: "left_text cu = CHR 0x22 # r" by simp
  have "length (substr (cu_input cu) seg (cu_position cu - seg)) = cu_position cu - seg"
    using left_text_Cons(1) [OF l] by simp
  then show ?case using Nil string_loop_close [OF l]
    by (auto simp: close_string_def so_far_def ps_view_def Let_def)
next
  case (Cons c t)
  show ?case
  proof (cases rule: escape_char_cases [of c])
    case plain
    then have l: "left_text cu = c # escaped t @ CHR 0x22 # r" using Cons.prems(1) by simp
    note s = so_far_plain [OF l Cons.prems(2), of result]
    have "\<exists>p. string_loop path seg result (advance 1 cu) =
        Done p (advance (Suc (length (escaped t))) (advance 1 cu)) \<and>
        ps_view p = so_far seg result (advance 1 cu) @ t"
      using Cons.prems(2-5) s left_text_Cons(5) [OF l] by (intro Cons.IH) simp_all
    then show ?thesis using plain(1) s string_loop_plain [OF l plain(2-4)] by simp
  next
    case (escape e es)
    then have l: "left_text cu = CHR 0x5C # e # es @ escaped t @ CHR 0x22 # r" using Cons.prems(1) by simp
    have l2: "left_text (advance 2 cu) = es @ escaped t @ CHR 0x22 # r" using l by (simp add: left_text_advance)
    let ?cu = "advance (length es) (advance 2 cu)"
    let ?res = "result\<lparr>ps_owns := True, ps_owned := so_far seg result cu @ [c]\<rparr>"
    have st: "string_loop path seg result cu = string_loop path (cu_position ?cu) ?res ?cu"
      using string_loop_escape [OF l refl escape(2) [OF l2]] Cons.prems(4) by (simp add: so_far_def)
    have sf: "so_far (cu_position ?cu) ?res ?cu = so_far seg result cu @ [c]"
      by (simp add: so_far_def substr_def)
    have "\<exists>p. string_loop path (cu_position ?cu) ?res ?cu =
        Done p (advance (Suc (length (escaped t))) ?cu) \<and> ps_view p = (so_far seg result cu @ [c]) @ t"
      using Cons.prems(4,5) left_text_decomp [OF l2] Cons.IH [of ?cu "cu_position ?cu" ?res] sf by simp
    then show ?thesis using escape(1) by (simp add: st)
  qed
qed

lemma parse_string_escaped:
  assumes "left_text cu = CHR 0x22 # escaped s @ CHR 0x22 # r" "valid_utf8 s"
    "length s \<le> maximum_string_bytes (cu_limits cu)"
  shows "\<exists>p. parse_string path cu = Done p (advance (length (escaped s) + 2) cu) \<and> ps_view p = s"
proof -
  note l = left_text_Cons [OF assms(1)]
  let ?res = "\<lparr>ps_owned = [], ps_borrowed = [], ps_owns = False\<rparr>"
  have sf: "so_far (cu_position (advance 1 cu)) ?res (advance 1 cu) = []"
    by (simp add: so_far_def substr_def)
  have "\<exists>p. string_loop path (cu_position (advance 1 cu)) ?res (advance 1 cu) =
      Done p (advance (Suc (length (escaped s))) (advance 1 cu)) \<and>
      ps_view p = so_far (cu_position (advance 1 cu)) ?res (advance 1 cu) @ s"
    by (rule string_loop_escaped [OF l(5)]) (use assms(2,3) sf in simp_all)
  with l(4) sf show ?thesis by (simp add: parse_string_def consume_def)
qed

section \<open>Numbers\<close>

definition digits :: "string \<Rightarrow> bool" where
  "digits s \<longleftrightarrow> s \<noteq> [] \<and> list_all is_digit s"

definition int_text :: "string \<Rightarrow> bool" where
  "int_text s \<longleftrightarrow> s = ''0'' \<or> (digits s \<and> hd s \<noteq> CHR ''0'')"

definition fraction_text :: "string \<Rightarrow> bool" where
  "fraction_text s \<longleftrightarrow> s = [] \<or> (hd s = CHR ''.'' \<and> digits (tl s))"

definition exponent_text :: "string \<Rightarrow> bool" where
  "exponent_text s \<longleftrightarrow> s = [] \<or> (\<exists>c sg ds. s = c # sg @ ds \<and> (c = CHR ''e'' \<or> c = CHR ''E'') \<and>
     (sg = [] \<or> sg = ''+'' \<or> sg = ''-'') \<and> digits ds)"

definition json_number :: "string \<Rightarrow> bool" where
  "json_number s \<longleftrightarrow> (\<exists>m i f e. s = m @ i @ f @ e \<and> (m = [] \<or> m = ''-'') \<and>
     int_text i \<and> fraction_text f \<and> exponent_text e)"

definition number_ends :: "string \<Rightarrow> bool" where
  "number_ends r \<longleftrightarrow> r = [] \<or> \<not> (is_digit (hd r) \<or> hd r = CHR ''.'' \<or> hd r = CHR ''e'' \<or> hd r = CHR ''E'')"

lemma not_digit_special [simp]:
  "\<not> is_digit (CHR ''.'')" "\<not> is_digit (CHR ''e'')" "\<not> is_digit (CHR ''E'')" "\<not> is_digit (CHR ''+'')"
  "\<not> is_digit (CHR 0x00)" "is_digit (CHR ''0'')"
  by (simp_all add: is_digit_def)

lemma digits_hd: "digits s \<Longrightarrow> is_digit (hd s)" "digits s \<Longrightarrow> s \<noteq> []"
  by (cases s; simp add: digits_def)+

lemma takeWhile_all: "list_all P s \<Longrightarrow> r = [] \<or> \<not> P (hd r) \<Longrightarrow> takeWhile P (s @ r) = s"
  by (induction s) (cases r; simp)+

text \<open>Digits after a first one: the loop takes exactly the digits that are there.\<close>

lemma skip_digits_sound:
  assumes "cursor_ok cu" "is_digit (peek cu)"
  shows "\<exists>ds r. left_text cu = ds @ r \<and> digits ds \<and> hd ds = peek cu \<and> skip_digits cu = advance (length ds) cu"
proof -
  obtain c r where l: "left_text cu = c # r" using assms by (cases "left_text cu") (auto simp: peek_left)
  let ?ds = "takeWhile is_digit (left_text cu)"
  have "left_text cu = ?ds @ dropWhile is_digit (left_text cu)" by simp
  moreover have "digits ?ds" "hd ?ds = peek cu"
    using l assms(2) left_text_Cons(4) [OF l] set_takeWhileD by (fastforce simp: digits_def list_all_iff)+
  ultimately show ?thesis using skip_digits_left [OF assms(1)] by blast
qed

lemma skip_digits_complete:
  assumes "cursor_ok cu" "left_text cu = ds @ r" "digits ds" "r = [] \<or> \<not> is_digit (hd r)"
  shows "is_digit (peek cu)" "peek cu = hd ds" "skip_digits cu = advance (length ds) cu"
proof -
  obtain c ds' where ds: "ds = c # ds'" using assms(3) by (cases ds) (auto simp: digits_def)
  show "is_digit (peek cu)" "peek cu = hd ds"
    using assms(2,3) left_text_Cons(4) [of cu c "ds' @ r"] by (auto simp: ds digits_def)
  show "skip_digits cu = advance (length ds) cu"
    using skip_digits_left [OF assms(1)] takeWhile_all [of is_digit ds r] assms by (simp add: digits_def)
qed

lemma consume_iff:
  assumes "cursor_ok cu" "c \<noteq> CHR 0x00"
  shows "consume c cu = (case left_text cu of [] \<Rightarrow> (False, cu)
    | d # r \<Rightarrow> if d = c then (True, advance 1 cu) else (False, cu))"
  using assms by (auto simp: consume_def peek_left split: list.splits)

lemma integer_part_sound:
  assumes "integer_part path cu = Done u cu'" "cursor_ok cu"
  shows "\<exists>i r. left_text cu = i @ r \<and> int_text i \<and> cu' = advance (length i) cu"
proof (cases "peek cu = CHR ''0''")
  case True
  then obtain r where l: "left_text cu = CHR ''0'' # r"
    using assms(2) by (auto simp: peek_left split: list.splits)
  have "cu' = advance 1 cu" using True assms(1) by (auto simp: integer_part_def consume_def split: if_splits)
  with l have "left_text cu = ''0'' @ r \<and> int_text ''0'' \<and> cu' = advance (length ''0'') cu"
    by (simp add: int_text_def)
  then show ?thesis by blast
next
  case False
  then have "is_digit (peek cu)" "cu' = skip_digits cu"
    using assms(1) by (auto simp: integer_part_def consume_def split: if_splits)
  with skip_digits_sound [OF assms(2)] False show ?thesis unfolding int_text_def by metis
qed

lemma fraction_part_sound:
  assumes "fraction_part path cu = Done u cu'" "cursor_ok cu"
  shows "\<exists>f r. left_text cu = f @ r \<and> fraction_text f \<and> cu' = advance (length f) cu"
proof (cases "peek cu = CHR ''.''")
  case True
  then obtain r where l: "left_text cu = CHR ''.'' # r"
    using assms(2) by (auto simp: peek_left split: list.splits)
  have d: "is_digit (peek (advance 1 cu))" "cu' = skip_digits (advance 1 cu)"
    using assms(1) True by (auto simp: fraction_part_def consume_def split: if_splits)
  then obtain ds r' where "r = ds @ r'" "digits ds" "cu' = advance (length ds) (advance 1 cu)"
    using skip_digits_sound [of "advance 1 cu"] left_text_Cons(5,6) [OF l] by metis
  with l have "left_text cu = (CHR ''.'' # ds) @ r' \<and> fraction_text (CHR ''.'' # ds) \<and>
      cu' = advance (length (CHR ''.'' # ds)) cu" by (simp add: fraction_text_def)
  then show ?thesis by blast
next
  case False
  with assms(1) show ?thesis
    by (auto simp: fraction_part_def consume_def fraction_text_def intro: exI [where x = "[]"])
qed

lemma exponent_part_sound:
  assumes "exponent_part path cu = Done u cu'" "cursor_ok cu"
  shows "\<exists>e r. left_text cu = e @ r \<and> exponent_text e \<and> cu' = advance (length e) cu"
proof (cases "peek cu = CHR ''e'' \<or> peek cu = CHR ''E''")
  case True
  then obtain c r where l: "left_text cu = c # r" and c: "c = CHR ''e'' \<or> c = CHR ''E''"
    using assms(2) by (auto simp: peek_left split: list.splits)
  note l1 = left_text_Cons [OF l]
  define sg where "sg = (if peek (advance 1 cu) = CHR ''+'' then ''+''
     else if peek (advance 1 cu) = CHR ''-'' then ''-'' else [])"
  obtain r1 where r1: "r = sg @ r1"
    using l1(5,6) unfolding sg_def by (cases r; cases "peek (advance 1 cu) = CHR ''+''"; cases "peek (advance 1 cu) = CHR ''-''") (auto simp: peek_left)
  have l2: "left_text (advance (1 + length sg) cu) = r1" "cursor_ok (advance (1 + length sg) cu)"
    using left_text_decomp [of cu "c # sg" r1] cursor_ok_advance [of cu "c # sg" r1] assms(2) l r1 by simp_all
  have d: "is_digit (peek (advance (1 + length sg) cu))" "cu' = skip_digits (advance (1 + length sg) cu)"
    using assms(1) True by (auto simp: exponent_part_def sg_def Let_def split: if_splits)
  then obtain ds r' where ds: "r1 = ds @ r'" "digits ds" "cu' = advance (length ds) (advance (1 + length sg) cu)"
    using skip_digits_sound [OF l2(2)] l2(1) by metis
  have "exponent_text (c # sg @ ds)" unfolding exponent_text_def
    using c ds(2) by (intro disjI2 exI [of _ c] exI [of _ sg] exI [of _ ds]) (simp add: sg_def)
  moreover have "left_text cu = (c # sg @ ds) @ r'" using l r1 ds(1) by simp
  moreover have "cu' = advance (length (c # sg @ ds)) cu" using ds(3) by (simp add: add.commute)
  ultimately show ?thesis by blast
next
  case False
  with assms(1) show ?thesis
    by (auto simp: exponent_part_def exponent_text_def intro: exI [where x = "[]"])
qed

lemma parse_number_sound:
  assumes "parse_number path cu = Done s cu'" "cursor_ok cu"
  shows "\<exists>r. left_text cu = s @ r \<and> json_number s \<and> cu' = advance (length s) cu"
proof -
  define mns where "mns = (if peek cu = CHR ''-'' then ''-'' else [])"
  obtain r0 where r0: "left_text cu = mns @ r0"
    using assms(2) unfolding mns_def by (cases "left_text cu"; cases "peek cu = CHR ''-''") (auto simp: peek_left)
  let ?cu1 = "advance (length mns) cu"
  have ok1: "cursor_ok ?cu1" using cursor_ok_advance [OF r0 assms(2)] .
  have "snd (consume (CHR ''-'') cu) = ?cu1" by (simp add: consume_def mns_def)
  then obtain cu2 cu3 where p: "integer_part path ?cu1 = Done () cu2" "fraction_part path cu2 = Done () cu3"
    "exponent_part path cu3 = Done () cu'" "s = substr (cu_input cu) (cu_position cu) (cu_position cu' - cu_position cu)"
    using assms(1) by (auto simp: parse_number_def obind_Done_iff Let_def case_prod_beta)
  obtain i r1 where i: "left_text ?cu1 = i @ r1" "int_text i" "cu2 = advance (length i) ?cu1"
    using integer_part_sound [OF p(1) ok1] by blast
  have ok2: "cursor_ok cu2" using cursor_ok_advance [OF i(1) ok1] i(3) by simp
  obtain f r2 where f: "left_text cu2 = f @ r2" "fraction_text f" "cu3 = advance (length f) cu2"
    using fraction_part_sound [OF p(2) ok2] by blast
  have ok3: "cursor_ok cu3" using cursor_ok_advance [OF f(1) ok2] f(3) by simp
  obtain e r3 where e: "left_text cu3 = e @ r3" "exponent_text e" "cu' = advance (length e) cu3"
    using exponent_part_sound [OF p(3) ok3] by blast
  have t: "r0 = i @ r1" "r1 = f @ r2" "r2 = e @ r3"
    using left_text_decomp [OF r0] left_text_decomp [OF i(1)] left_text_decomp [OF f(1)] i f e by simp_all
  let ?t = "mns @ i @ f @ e"
  have l: "left_text cu = ?t @ r3" using r0 t by simp
  have cu': "cu' = advance (length ?t) cu" using i(3) f(3) e(3) by (simp add: add.assoc)
  have "s = take (length ?t) (left_text cu)" using p(4) by (simp add: cu' substr_def left_text_def)
  then have s: "s = ?t" by (simp add: l)
  have "json_number ?t" unfolding json_number_def
    using i(2) f(2) e(2) by (intro exI [of _ mns] exI [of _ i] exI [of _ f] exI [of _ e]) (simp add: mns_def)
  with l cu' s show ?thesis by blast
qed

lemma integer_part_complete:
  assumes "left_text cu = i @ r" "int_text i" "cursor_ok cu" "r = [] \<or> \<not> is_digit (hd r)"
  shows "integer_part path cu = Done () (advance (length i) cu)"
proof (cases "i = ''0''")
  case True
  then have l: "left_text cu = CHR ''0'' # r" using assms(1) by simp
  note l1 = left_text_Cons [OF l]
  have "\<not> is_digit (peek (advance 1 cu))"
    using assms(4) peek_left [OF l1(6)] by (auto simp: l1(5) [unfolded One_nat_def] split: list.splits)
  with True l1(4) show ?thesis by (simp add: integer_part_def consume_def)
next
  case False
  with assms(2) have "digits i" "hd i \<noteq> CHR ''0''" by (auto simp: int_text_def)
  with skip_digits_complete [OF assms(3,1) _ assms(4)] show ?thesis
    by (simp add: integer_part_def consume_def)
qed

lemma fraction_part_complete:
  assumes "left_text cu = f @ r" "fraction_text f" "cursor_ok cu" "r = [] \<or> \<not> (is_digit (hd r) \<or> hd r = CHR ''.'')"
  shows "fraction_part path cu = Done () (advance (length f) cu)"
proof (cases f)
  case Nil
  then have "peek cu \<noteq> CHR ''.''" using assms by (auto simp: peek_left split: list.splits)
  with Nil show ?thesis by (simp add: fraction_part_def consume_def)
next
  case (Cons c ds)
  with assms(2) have c: "c = CHR ''.''" "digits ds" by (auto simp: fraction_text_def)
  have l: "left_text cu = CHR ''.'' # ds @ r" using assms(1) Cons c by simp
  note l1 = left_text_Cons [OF l]
  have "r = [] \<or> \<not> is_digit (hd r)" using assms(4) by blast
  note d = skip_digits_complete [OF l1(6,5) c(2) this]
  show ?thesis using l1(4) d Cons by (simp add: fraction_part_def consume_def)
qed

lemma exponent_part_complete:
  assumes "left_text cu = e @ r" "exponent_text e" "cursor_ok cu" "number_ends r"
  shows "exponent_part path cu = Done () (advance (length e) cu)"
proof (cases "e = []")
  case True
  then have "peek cu \<noteq> CHR ''e''" "peek cu \<noteq> CHR ''E''"
    using assms by (auto simp: peek_left number_ends_def split: list.splits)
  with True show ?thesis by (simp add: exponent_part_def)
next
  case False
  then obtain c sg ds where e: "e = c # sg @ ds" "c = CHR ''e'' \<or> c = CHR ''E''"
    "sg = [] \<or> sg = ''+'' \<or> sg = ''-''" "digits ds"
    using assms(2) unfolding exponent_text_def by blast
  have l: "left_text cu = c # sg @ ds @ r" using assms(1) e(1) by simp
  note l1 = left_text_Cons [OF l]
  have sgn: "(if peek (advance 1 cu) = CHR ''+'' \<or> peek (advance 1 cu) = CHR ''-''
      then advance 1 (advance 1 cu) else advance 1 cu) = advance (length sg) (advance 1 cu)"
  proof (cases sg)
    case Nil
    obtain d ds' where "ds = d # ds'" using e(4) digits_hd(2) by (cases ds) auto
    then have "is_digit (peek (advance 1 cu))"
      using l1(5) Nil e(4) left_text_Cons(4) [of "advance 1 cu" d "ds' @ r"] by (simp add: digits_def)
    then have "peek (advance 1 cu) \<noteq> CHR ''+''" "peek (advance 1 cu) \<noteq> CHR ''-''" by auto
    then show ?thesis using Nil by simp
  next
    case (Cons g gs)
    then show ?thesis using e(3) left_text_Cons(4) [of "advance 1 cu" g "gs @ ds @ r"] l1(5) by auto
  qed
  let ?cu2 = "advance (length sg) (advance 1 cu)"
  have "left_text ?cu2 = ds @ r" "cursor_ok ?cu2"
    using left_text_decomp [OF l1(5)] cursor_ok_advance [OF l1(5,6)] by simp_all
  note d = skip_digits_complete [OF this(2,1) e(4)]
  have "r = [] \<or> \<not> is_digit (hd r)" using assms(4) by (auto simp: number_ends_def)
  then show ?thesis using d e(2) l1(4) by (simp add: exponent_part_def Let_def sgn e(1) del: One_nat_def)
qed

lemma int_text_hd: "int_text i \<Longrightarrow> i \<noteq> [] \<and> is_digit (hd i)"
  by (auto simp: int_text_def digits_hd dest: digits_hd)

lemma parse_number_complete:
  assumes "left_text cu = s @ r" "json_number s" "cursor_ok cu" "number_ends r"
  shows "parse_number path cu = Done s (advance (length s) cu)"
proof -
  obtain mns i f e where s: "s = mns @ i @ f @ e" "mns = [] \<or> mns = ''-''" "int_text i"
    "fraction_text f" "exponent_text e" using assms(2) by (auto simp: json_number_def)
  let ?cu1 = "advance (length mns) cu" let ?cu2 = "advance (length i) ?cu1"
  let ?cu3 = "advance (length f) ?cu2"
  have l0: "left_text cu = mns @ i @ f @ e @ r" using assms(1) s(1) by simp
  have l1: "left_text ?cu1 = i @ f @ e @ r" "cursor_ok ?cu1"
    using left_text_decomp [OF l0] cursor_ok_advance [OF l0 assms(3)] by simp_all
  have l2: "left_text ?cu2 = f @ e @ r" "cursor_ok ?cu2"
    using left_text_decomp [OF l1(1)] cursor_ok_advance [OF l1] by simp_all
  have l3: "left_text ?cu3 = e @ r" "cursor_ok ?cu3"
    using left_text_decomp [OF l2(1)] cursor_ok_advance [OF l2] by simp_all
  have e_hd: "e @ r = [] \<or> \<not> (is_digit (hd (e @ r)) \<or> hd (e @ r) = CHR ''.'')"
    using s(5) assms(4) by (cases e) (auto simp: exponent_text_def number_ends_def)
  then have f_hd: "f @ e @ r = [] \<or> \<not> is_digit (hd (f @ e @ r))"
    using s(4) by (cases f) (auto simp: fraction_text_def)
  have "peek cu = CHR ''-'' \<longleftrightarrow> mns = ''-''"
    using l0 s(2) int_text_hd [OF s(3)] assms(3) by (cases i) (auto simp: peek_left)
  then have "snd (consume (CHR ''-'') cu) = ?cu1" using s(2) by (auto simp: consume_def)
  moreover have "integer_part path ?cu1 = Done () ?cu2" by (rule integer_part_complete [OF l1(1) s(3) l1(2) f_hd])
  moreover have "fraction_part path ?cu2 = Done () ?cu3" by (rule fraction_part_complete [OF l2(1) s(4) l2(2) e_hd])
  moreover have "exponent_part path ?cu3 = Done () (advance (length e) ?cu3)"
    by (rule exponent_part_complete [OF l3(1) s(5) l3(2) assms(4)])
  moreover have "substr (cu_input cu) (cu_position cu) (length s) = s"
    using assms(1) by (simp add: substr_def left_text_def)
  ultimately show ?thesis
    by (simp add: parse_number_def Let_def case_prod_beta s(1) add.assoc)
qed

lemma parse_number_fuel [simp]: "parse_number path cu \<noteq> Out_of_fuel"
  by (auto simp: parse_number_def integer_part_def fraction_part_def exponent_part_def Let_def
      obind_fuel_iff split: prod.splits bool.splits if_splits)

end
