(* ===== verification/Flash_Json_Total.thy ===== *)
theory Flash_Json_Total
  imports Flash_Json_Lex Flash_Json_Read
begin

text \<open>
  The reader always answers: for a readable type the bounds on levels and turns are never used up, every
  success moves forward inside the input and gives a value of the type, and every error points into the
  input.
\<close>

section \<open>Safe outcomes\<close>

definition safe :: "nat \<Rightarrow> ('a \<Rightarrow> bool) \<Rightarrow> cursor \<Rightarrow> 'a outcome \<Rightarrow> bool" where
  "safe n Q cu m = (case m of
      Done x cu' \<Rightarrow> moves n cu cu' \<and> Q x
    | Fail e \<Rightarrow> re_offset e \<le> length (cu_input cu)
    | Out_of_fuel \<Rightarrow> False)"

named_theorems safe_intros \<open>composition of safe outcomes\<close>

lemma safe_Done: "moves n cu cu' \<Longrightarrow> Q x \<Longrightarrow> safe n Q cu (Done x cu')"
  by (simp add: safe_def)

lemma safe_error: "moves 0 cu cu' \<Longrightarrow> safe n Q cu (Fail (cursor_error cu' code message path))"
  by (auto simp: safe_def cursor_error_def moves_def cursor_ok_def)

lemma safe_here [simp]:
  "cursor_ok cu \<Longrightarrow> safe 0 Q cu (Done x cu) \<longleftrightarrow> Q x"
  "cursor_ok cu \<Longrightarrow> safe n Q cu (Fail (cursor_error cu code message path))"
  by (simp_all add: safe_def cursor_error_def cursor_ok_def)

lemma safe_later: "safe n Q b m \<Longrightarrow> moves k a b \<Longrightarrow> l \<le> k + n \<Longrightarrow> safe l Q a m"
  by (cases m) (auto simp: safe_def moves_def)

lemma safe_obind:
  assumes "safe n P cu m" "\<And>x cu'. moves n cu cu' \<Longrightarrow> P x \<Longrightarrow> safe k Q cu' (f x cu')" "l \<le> n + k"
  shows "safe l Q cu (obind m f)"
proof (cases m)
  case (Done x cu')
  then have "moves n cu cu'" "P x" using assms(1) by (simp_all add: safe_def)
  then show ?thesis using safe_later [OF assms(2)] Done assms(3) by simp
qed (use assms(1) in \<open>simp_all add: safe_def\<close>)

lemma safe_mono: "safe n P cu m \<Longrightarrow> (\<And>x. P x \<Longrightarrow> Q x) \<Longrightarrow> k \<le> n \<Longrightarrow> safe k Q cu m"
  by (cases m) (auto simp: safe_def moves_def)

text \<open>Taking an expected character or failing, after whitespace.\<close>

lemma consume_cases:
  assumes "cursor_ok cu" "c \<noteq> CHR 0x00"
  obtains (yes) cu' where "consume c (skip_whitespace cu) = (True, cu')" "moves 1 cu cu'"
  | (no) cu' where "consume c (skip_whitespace cu) = (False, cu')" "moves 0 cu cu'"
proof -
  obtain b cu' where c: "consume c (skip_whitespace cu) = (b, cu')" by force
  have "moves (if b then 1 else 0) cu cu'"
    using moves_trans [OF skip_whitespace_moves [OF assms(1)] consume_moves [OF c _ assms(2)]] assms(1) by simp
  with c yes no show thesis by (cases b) simp_all
qed

lemma consume_cases':
  assumes "cursor_ok cu" "c \<noteq> CHR 0x00"
  obtains (yes) cu' where "consume c cu = (True, cu')" "moves 1 cu cu'"
  | (no) "consume c cu = (False, cu)"
  using consume_moves [OF _ assms, of True] by (cases "peek cu = c") (auto simp: consume_def)

lemma quote_not_nul: "CHR 0x22 \<noteq> CHR 0x00"
  by simp

section \<open>The lexical operations\<close>

lemma hex_quad_loop_Fail:
  "hex_quad_loop n v path cu = Fail e \<Longrightarrow> cu_position cu + n \<le> length (cu_input cu) \<Longrightarrow>
   re_offset e \<le> length (cu_input cu)"
proof (induction n arbitrary: v cu)
  case (Suc n)
  show ?case
  proof (cases "hex_value (cu_input cu ! cu_position cu) < 0")
    case True
    with Suc.prems show ?thesis by (auto simp: Let_def cursor_error_def)
  next
    case False
    then obtain v' where "hex_quad_loop n v' path (advance 1 cu) = Fail e"
      using Suc.prems(1) by (auto simp: Let_def)
    from Suc.IH [OF this] Suc.prems(2) show ?thesis by simp
  qed
qed simp

lemma parse_hex_quad_Fail:
  "parse_hex_quad path cu = Fail e \<Longrightarrow> cursor_ok cu \<Longrightarrow> re_offset e \<le> length (cu_input cu)"
  using hex_quad_loop_Fail [of 4 0 path cu e]
  by (auto simp: parse_hex_quad_def cursor_error_def cursor_ok_def split: if_splits)

lemma parse_hex_quad_safe: "cursor_ok cu \<Longrightarrow> safe 4 (\<lambda>_. True) cu (parse_hex_quad path cu)"
  using parse_hex_quad_Fail [of path cu] parse_hex_quad_cursor [of path cu] parse_hex_quad_fuel [of path cu]
  by (cases "parse_hex_quad path cu") (auto simp: safe_def moves_def cursor_ok_def)

lemma unicode_escape_safe:
  assumes "cursor_ok cu"
  shows "safe 4 (\<lambda>_. True) cu (unicode_escape path cu)"
  unfolding unicode_escape_def
proof (rule safe_obind [OF parse_hex_quad_safe [OF assms], of 0])
  fix scalar cu1
  assume m: "moves 4 cu cu1"
  then have ok: "cursor_ok cu1" by (rule moves_ok)
  have "safe 0 (\<lambda>_. True) cu1
      (obind (parse_hex_quad path (advance 2 cu1)) (\<lambda>low cu2.
         if low < 0xDC00 \<or> low > 0xDFFF
         then Fail (cursor_error cu2 ''invalid_unicode''
                ''High surrogate is followed by an invalid low surrogate.'' path)
         else Done (0x10000 + push_bit 10 (scalar - 0xD800) + (low - 0xDC00)) cu2))"
    if sw: "cursor_starts_with cu1 [CHR 0x5C, CHR ''u'']"
  proof -
    obtain r where "left_text cu1 = [CHR 0x5C, CHR ''u''] @ r" using sw unfolding starts_with_left by blast
    from cursor_ok_advance [OF this ok] have ok2: "cursor_ok (advance 2 cu1)"
      by (simp add: numeral_2_eq_2)
    have "safe 4 (\<lambda>_. True) cu1 (parse_hex_quad path (advance 2 cu1))"
      by (rule safe_later [OF parse_hex_quad_safe [OF ok2] moves_advance [OF ok2]]) simp
    then show ?thesis
      by (rule safe_obind [where k = 0]) (auto dest: moves_ok)
  qed
  then show "safe 0 (\<lambda>_. True) cu1
     (if scalar \<ge> 0xD800 \<and> scalar \<le> 0xDBFF then
         (if \<not> cursor_starts_with cu1 [CHR 0x5C, CHR ''u'']
          then Fail (cursor_error cu1 ''invalid_unicode''
                 ''High surrogate must be followed by a low surrogate.'' path)
          else
            obind (parse_hex_quad path (advance 2 cu1)) (\<lambda>low cu2.
              if low < 0xDC00 \<or> low > 0xDFFF
              then Fail (cursor_error cu2 ''invalid_unicode''
                     ''High surrogate is followed by an invalid low surrogate.'' path)
              else Done (0x10000 + push_bit 10 (scalar - 0xD800) + (low - 0xDC00)) cu2))
       else if scalar \<ge> 0xDC00 \<and> scalar \<le> 0xDFFF
       then Fail (cursor_error cu1 ''invalid_unicode''
              ''Low surrogate has no preceding high surrogate.'' path)
       else Done scalar cu1)"
    using ok by (auto intro: safe_Done safe_error)
qed simp

lemma escape_step_safe:
  assumes "cursor_ok cu"
  shows "safe 0 (\<lambda>_. True) cu (escape_step path e cu)"
proof -
  have "safe 0 (\<lambda>_. True) cu (obind (unicode_escape path cu) (\<lambda>scalar cu1. Done (append_utf8 [] scalar) cu1))"
  proof (rule safe_obind [OF unicode_escape_safe [OF assms], of 0])
    show "moves 4 cu cu1 \<Longrightarrow> safe 0 (\<lambda>_. True) cu1 (Done (append_utf8 [] scalar) cu1)" for scalar cu1
      by (rule safe_Done) (auto dest: moves_ok)
  qed simp
  with assms show ?thesis by (simp add: escape_step_def safe_Done safe_error)
qed

lemma close_string_Fail:
  "close_string path seg off result cu = Fail e \<Longrightarrow> cursor_ok cu \<Longrightarrow> re_offset e \<le> length (cu_input cu)"
  by (auto simp: close_string_def cursor_error_def cursor_ok_def Let_def split: if_splits)

lemma string_loop_Fail:
  "string_loop path seg result cu = Fail e \<Longrightarrow> cursor_ok cu \<Longrightarrow> re_offset e \<le> length (cu_input cu)"
proof (induction path seg result cu rule: string_loop.induct)
  case (1 path seg result cu)
  show ?case
  proof (cases "left_text cu")
    case Nil
    with 1 left_text_Nil [OF Nil] show ?thesis
      by (subst (asm) string_loop.simps) (auto simp: cursor_error_def cursor_ok_def)
  next
    case (Cons c r)
    note lc = left_text_Cons [OF Cons]
    have in1: "cu_input (advance 1 cu) = cu_input cu" by simp
    consider (close) "c = CHR 0x22" | (control) "c \<noteq> CHR 0x22" "(of_char c :: nat) < 0x20"
      | (plain) "c \<noteq> CHR 0x22" "c \<noteq> CHR 0x5C" "\<not> (of_char c :: nat) < 0x20" | (escape) "c = CHR 0x5C"
      by blast
    then show ?thesis
    proof cases
      case close
      then show ?thesis using "1.prems" string_loop_close [of cu r] Cons close_string_Fail lc(6) in1 by metis
    next
      case control
      with "1.prems" lc show ?thesis
        by (subst (asm) string_loop.simps) (auto simp: Let_def cursor_error_def cursor_ok_def)
    next
      case plain
      then have "re_offset e \<le> length (cu_input (advance 1 cu))"
        using "1.IH"(1) [OF lc(1) refl refl refl] lc string_loop_plain [OF Cons plain] "1.prems" by simp
      then show ?thesis by simp
    next
      case escape
      show ?thesis
      proof (cases "at_end (advance 1 cu)")
        case True
        with "1.prems" lc escape show ?thesis
          by (subst (asm) string_loop.simps) (auto simp: Let_def cursor_error_def cursor_ok_def)
      next
        case False
        then have ok2: "cursor_ok (advance 1 (advance 1 cu))" using lc(6) by (auto simp: at_end_def cursor_ok_def)
        let ?o = "ps_owned result @ substr (cu_input cu) seg (cu_position cu - seg)"
        let ?e = "escape_step path (cu_input cu ! cu_position (advance 1 cu)) (advance 1 (advance 1 cu))"
        have st: "string_loop path seg result cu = (case ?e of
             Fail e \<Rightarrow> Fail e | Out_of_fuel \<Rightarrow> Out_of_fuel
           | Done text cu2 \<Rightarrow>
               if length (?o @ text) > maximum_string_bytes (cu_limits cu)
               then Fail (cursor_error cu2 ''string_too_large''
                      ''JSON string exceeds the configured limit.'' path)
               else string_loop path (cu_position cu2) (result\<lparr>ps_owns := True, ps_owned := ?o @ text\<rparr>) cu2)"
          using lc escape False by (subst string_loop.simps) (simp add: Let_def)
        have s: "safe 0 (\<lambda>_. True) (advance 1 (advance 1 cu)) ?e" using escape_step_safe [OF ok2] .
        show ?thesis
        proof (cases ?e)
          case (Done t cu2)
          then have m: "cursor_ok cu2" "cu_input cu2 = cu_input cu" using s by (auto simp: safe_def moves_def)
          show ?thesis
          proof (cases "length (?o @ t) > maximum_string_bytes (cu_limits cu)")
            case True
            then show ?thesis using st Done "1.prems"(1) m by (auto simp: cursor_error_def cursor_ok_def)
          next
            case nf: False
            have "string_loop path (cu_position cu2) (result\<lparr>ps_owns := True, ps_owned := ?o @ t\<rparr>) cu2 = Fail e"
              using st Done "1.prems"(1) nf by simp
            from "1.IH"(2) [OF lc(1) refl refl refl _ _ _ refl False Done nf this m(1)] escape lc(2) m(2)
            show ?thesis by simp
          qed
        qed (use st "1.prems"(1) s in \<open>auto simp: safe_def\<close>)
      qed
    qed
  qed
qed

definition string_ok :: "read_limits \<Rightarrow> parsed_string \<Rightarrow> bool" where
  "string_ok lim p \<longleftrightarrow> valid_utf8 (ps_view p) \<and> length (ps_view p) \<le> maximum_string_bytes lim"

lemma parse_string_safe:
  assumes "cursor_ok cu"
  shows "safe 2 (string_ok (cu_limits cu)) cu (parse_string path cu)"
proof (cases "parse_string path cu")
  case (Done p cu')
  from parse_string_Done [OF this assms] Done show ?thesis by (simp add: safe_def string_ok_def)
next
  case (Fail e)
  have "re_offset e \<le> length (cu_input cu)"
  proof -
    consider (yes) cu' where "consume (CHR 0x22) cu = (True, cu')" "moves 1 cu cu'"
      | (no) "consume (CHR 0x22) cu = (False, cu)"
      using consume_cases' [OF assms quote_not_nul] by metis
    then show ?thesis
  proof cases
    case (yes cu')
    then have "string_loop path (cu_position cu') \<lparr>ps_owned = [], ps_borrowed = [], ps_owns = False\<rparr> cu' = Fail e"
      using Fail by (simp add: parse_string_def)
    from string_loop_Fail [OF this] yes(2) show ?thesis by (auto simp: moves_def)
  next
    case no
    then show ?thesis using Fail assms by (auto simp: parse_string_def cursor_error_def cursor_ok_def)
  qed
  qed
  with Fail show ?thesis by (simp add: safe_def)
qed simp

lemma consume_literal_safe:
  "cursor_ok cu \<Longrightarrow> safe (if 0 < length s then 1 else 0) (\<lambda>_. True) cu (consume_literal s path cu)"
proof (cases "cursor_starts_with cu s")
  case True
  assume "cursor_ok cu"
  then have "moves (length s) cu (advance (length s) cu)"
    using consume_literal_moves [of s path cu "()"] True by (simp add: consume_literal_def)
  then have "moves (if 0 < length s then 1 else 0) cu (advance (length s) cu)"
    by (rule moves_mono) (cases s; simp)
  with True show ?thesis by (simp add: consume_literal_def safe_Done)
qed (simp add: consume_literal_def)

lemma advance_peek_moves: "cursor_ok cu \<Longrightarrow> peek cu = c \<Longrightarrow> c \<noteq> CHR 0x00 \<Longrightarrow> moves 1 cu (advance 1 cu)"
  using peek_moves by blast

lemma skip_digits_moves: "cursor_ok cu \<Longrightarrow> moves 0 cu (skip_digits cu)"
proof -
  assume ok: "cursor_ok cu"
  have "length (takeWhile is_digit (left_text cu)) \<le> length (cu_input cu) - cu_position cu"
    using length_takeWhile_le [of is_digit "left_text cu"] by (simp add: length_left_text)
  with ok show ?thesis unfolding skip_digits_left [OF ok] by (auto simp: moves_def cursor_ok_def)
qed

lemma parse_number_error:
  assumes "parse_number path cu = Fail e" "cursor_ok cu"
  shows "re_offset e \<le> length (cu_input cu)"
proof -
  let ?cu1 = "snd (consume (CHR ''-'') cu)"
  have ok1: "moves 0 cu ?cu1"
    using consume_moves [OF _ assms(2), of "CHR ''-''" "fst (consume (CHR ''-'') cu)" ?cu1] by (auto simp: moves_def split: if_splits)
  have int: "safe 0 (\<lambda>_. True) c (integer_part path c)" if "cursor_ok c" for c
    using that peek_moves [OF that] moves_ok [OF peek_moves [OF that]] skip_digits_moves [OF that]
    by (auto simp: integer_part_def consume_def intro!: safe_Done safe_error intro: moves_mono)
  have frac: "safe 0 (\<lambda>_. True) c (fraction_part path c)" if "cursor_ok c" for c
    using that peek_moves [OF that] moves_ok [OF peek_moves [OF that]]
      moves_trans [OF peek_moves [OF that] skip_digits_moves [OF moves_ok [OF peek_moves [OF that]]]]
    by (auto simp: fraction_part_def consume_def intro!: safe_Done safe_error intro: moves_mono)
  have ex: "safe 0 (\<lambda>_. True) c (exponent_part path c)" if ok: "cursor_ok c" for c
  proof (cases "peek c = CHR ''e'' \<or> peek c = CHR ''E''")
    case True
    then have m: "moves 1 c (advance 1 c)" using peek_moves [OF ok] by auto
    define d where "d = (if peek (advance 1 c) = CHR ''+'' \<or> peek (advance 1 c) = CHR ''-''
      then advance 1 (advance 1 c) else advance 1 c)"
    have "moves 0 (advance 1 c) d" using peek_moves [OF moves_ok [OF m]] moves_ok [OF m]
      by (auto simp: d_def intro: moves_mono)
    then have md: "moves 0 c d" using moves_trans [OF m] by blast
    have "exponent_part path c = (if \<not> is_digit (peek d)
        then Fail (cursor_error d ''invalid_number'' ''Exponent requires at least one digit.'' path)
        else Done () (skip_digits d))"
      using True by (simp add: exponent_part_def d_def Let_def)
    then show ?thesis
      using md moves_trans [OF md skip_digits_moves [OF moves_ok [OF md]]] by (simp add: safe_Done safe_error)
  qed (use ok in \<open>simp add: exponent_part_def safe_Done\<close>)
  have "safe 0 (\<lambda>_. True) ?cu1 (obind (integer_part path ?cu1) (\<lambda>_ cu2.
      obind (fraction_part path cu2) (\<lambda>_ cu3. obind (exponent_part path cu3) (\<lambda>_ cu4.
        Done (substr (cu_input cu) (cu_position cu) (cu_position cu4 - cu_position cu)) cu4))))"
    by (intro safe_obind [where n = 0 and k = 0 and l = 0 and P = "\<lambda>_. True"] int frac ex safe_Done)
      (use ok1 in \<open>auto dest: moves_ok\<close>)
  then have "safe 0 (\<lambda>_. True) ?cu1 (parse_number path cu)"
    by (simp add: parse_number_def Let_def case_prod_beta)
  then show ?thesis using assms(1) ok1 by (simp add: safe_def moves_def)
qed

lemma json_number_not_Nil: "json_number s \<Longrightarrow> s \<noteq> []"
  using int_text_hd by (auto simp: json_number_def)

lemma parse_number_safe:
  assumes "cursor_ok cu"
  shows "safe 1 json_number cu (parse_number path cu)"
proof (cases "parse_number path cu")
  case (Done s cu')
  obtain r where r: "left_text cu = s @ r" "json_number s" "cu' = advance (length s) cu"
    using parse_number_sound [OF Done assms] by blast
  have "moves (length s) cu cu'" using cursor_ok_advance [OF r(1) assms] r(3) moves_advance by simp
  then have "moves 1 cu cu'" by (rule moves_mono) (use json_number_not_Nil [OF r(2)] in \<open>cases s; simp\<close>)
  with Done r(2) show ?thesis by (simp add: safe_def)
qed (use parse_number_error assms in \<open>auto simp: safe_def\<close>)

section \<open>Skipping\<close>

lemma consume_safe':
  assumes "cursor_ok cu" "c \<noteq> CHR 0x00"
    "\<And>cu'. moves 1 cu cu' \<Longrightarrow> safe m Q cu' (f cu')"
    "safe n Q cu (g cu)" "n \<le> 1 + m"
  shows "safe n Q cu (case consume c cu of (True, cu') \<Rightarrow> f cu' | (False, cu') \<Rightarrow> g cu')"
  using consume_cases' [OF assms(1,2)]
  by (metis (no_types, lifting) assms(3-5) bool.case case_prod_conv safe_later)

lemma consume_safe:
  assumes "cursor_ok cu" "c \<noteq> CHR 0x00"
    "\<And>cu'. moves 1 cu cu' \<Longrightarrow> safe m Q cu' (f cu')"
    "\<And>cu'. moves 0 cu cu' \<Longrightarrow> safe n Q cu' (g cu')" "n \<le> 1 + m"
  shows "safe n Q cu (case consume c (skip_whitespace cu) of (True, cu') \<Rightarrow> f cu' | (False, cu') \<Rightarrow> g cu')"
proof -
  have m: "moves 0 cu (skip_whitespace cu)" using skip_whitespace_moves assms(1) by blast
  have "safe n Q (skip_whitespace cu) (case consume c (skip_whitespace cu) of (True, cu') \<Rightarrow> f cu' | (False, cu') \<Rightarrow> g cu')"
  proof (rule consume_safe' [OF moves_ok [OF m] assms(2)])
    fix cu'
    assume "moves 1 (skip_whitespace cu) cu'"
    then show "safe m Q cu' (f cu')" using assms(3) moves_trans [OF m] by simp
  qed (use assms(4) [OF m] assms(5) in simp_all)
  then show ?thesis by (rule safe_later [OF _ m]) simp
qed

definition within :: "read_limits \<Rightarrow> nat \<Rightarrow> cursor \<Rightarrow> bool" where
  "within L k cu \<longleftrightarrow> cursor_ok cu \<and> cu_limits cu = L \<and> length (cu_input cu) - cu_position cu < k"

lemma within_loop_bound: "cursor_ok cu \<Longrightarrow> within (cu_limits cu) (loop_bound cu) cu"
  by (simp add: within_def loop_bound_def)

lemma within_step: "within L (Suc k) cu \<Longrightarrow> moves 1 cu cu' \<Longrightarrow> within L k cu'"
  by (auto simp: within_def moves_def cursor_ok_def)

lemma within_parts: "within L k cu \<Longrightarrow> cursor_ok cu" "within L k cu \<Longrightarrow> cu_limits cu = L"
  by (simp_all add: within_def)

lemma moves_limits: "moves n a b \<Longrightarrow> cu_limits b = cu_limits a"
  by (simp add: moves_def)

lemma moves_whitespace: "moves n a b \<Longrightarrow> moves n a (skip_whitespace b)"
  using moves_trans [OF _ skip_whitespace_moves [OF moves_ok]] by fastforce

lemma expect_colon_safe:
  assumes "cursor_ok cu" "\<And>cu'. moves 1 cu cu' \<Longrightarrow> safe n Q cu' (after cu')"
  shows "safe n Q cu (expect_colon path after cu)"
  unfolding expect_colon_def
proof (rule consume_safe [OF assms(1) _ assms(2)])
  show "moves 0 cu cu' \<Longrightarrow> safe n Q cu' (Fail (cursor_error cu' ''expected_colon''
      ''Expected ':' after JSON object key.'' path))" for cu'
    by (auto dest: moves_ok)
qed simp_all

lemma close_or_comma_safe:
  assumes "cursor_ok cu" "Q result" "close \<noteq> CHR 0x00"
    "\<And>cu'. moves 1 cu cu' \<Longrightarrow> safe 0 Q cu' (again cu')"
  shows "safe 0 Q cu (close_or_comma close message path result again cu)"
  unfolding close_or_comma_def
proof (rule consume_safe [OF assms(1,3), of 0])
  fix cu1
  show "moves 1 cu cu1 \<Longrightarrow> safe 0 Q cu1 (Done result cu1)" using assms(2) by (auto dest: moves_ok)
  assume m1: "moves 0 cu cu1"
  show "safe 0 Q cu1 (case consume (CHR '','') cu1 of
      (False, cu2) \<Rightarrow> Fail (cursor_error cu2 ''expected_comma'' message path)
    | (True, cu2) \<Rightarrow> again (skip_whitespace cu2))"
  proof (rule consume_safe' [of _ _ 0])
    fix cu2
    assume m2: "moves 1 cu1 cu2"
    have "moves 1 cu (skip_whitespace cu2)"
      by (rule moves_whitespace) (use moves_trans [OF m1 m2] in simp)
    from safe_later [OF assms(4) [OF this] skip_whitespace_moves [OF moves_ok [OF m2]]]
    show "safe 0 Q cu2 (again (skip_whitespace cu2))" by simp
  qed (use moves_ok [OF m1] in simp_all)
qed simp

lemma moves_1I: "moves n a b \<Longrightarrow> moves m b c \<Longrightarrow> 1 \<le> n + m \<Longrightarrow> moves 1 a c"
  by (rule moves_trans)

text \<open>The next turn of a loop starts further on, so the bound on the turns goes down with it.\<close>

lemma skip_members_safe:
  assumes "\<And>c. cursor_ok c \<Longrightarrow> cu_limits c = L \<Longrightarrow> safe 1 (\<lambda>_. True) c (skip c)" "within L k cu"
  shows "safe 1 (\<lambda>_. True) cu (skip_members k skip members path cu)"
  using assms(2)
proof (induction k arbitrary: members cu)
  case 0
  then show ?case by (simp add: within_def)
next
  case (Suc k)
  note ok = within_parts(1) [OF Suc.prems] and lim = within_parts(2) [OF Suc.prems]
  let ?next = "close_or_comma (CHR ''}'') object_comma path () (skip_members k skip (members + 1) path)"
  have again: "safe 0 (\<lambda>_. True) c (?next c)" if m: "moves 1 cu c" for c
  proof (rule close_or_comma_safe [OF moves_ok [OF m]])
    fix d
    assume "moves 1 c d"
    then have "safe 1 (\<lambda>_. True) d (skip_members k skip (members + 1) path d)"
      by (intro Suc.IH within_step [OF Suc.prems] moves_1I [OF m]) simp_all
    then show "safe 0 (\<lambda>_. True) d (skip_members k skip (members + 1) path d)" by (rule safe_mono) simp_all
  qed simp_all
  have body: "safe 0 (\<lambda>_. True) c (obind (skip c) (\<lambda>_. ?next))" if m: "moves 1 cu c" for c
    using again moves_1I [OF m] moves_ok [OF m] moves_limits [OF m] lim
    by (intro safe_obind [OF assms(1), where k = 0]) auto
  have colon: "safe 0 (\<lambda>_. True) c (expect_colon path (\<lambda>cu2. obind (skip cu2) (\<lambda>_. ?next)) c)"
    if m: "moves 2 cu c" for c
    by (rule expect_colon_safe [OF moves_ok [OF m]], rule body, rule moves_1I [OF m]) simp_all
  show ?case using ok safe_obind [OF parse_string_safe [OF ok] colon, of 1]
    by (simp add: members_error_def)
qed

lemma skip_elements_safe:
  assumes "\<And>c. cursor_ok c \<Longrightarrow> cu_limits c = L \<Longrightarrow> safe 1 (\<lambda>_. True) c (skip c)" "within L k cu"
  shows "safe 1 (\<lambda>_. True) cu (skip_elements k skip elements path cu)"
  using assms(2)
proof (induction k arbitrary: elements cu)
  case 0
  then show ?case by (simp add: within_def)
next
  case (Suc k)
  note ok = within_parts(1) [OF Suc.prems] and lim = within_parts(2) [OF Suc.prems]
  have again: "safe 0 (\<lambda>_. True) c
      (close_or_comma (CHR '']'') array_comma path () (skip_elements k skip (elements + 1) path) c)"
    if m: "moves 1 cu c" for c
  proof (rule close_or_comma_safe [OF moves_ok [OF m]])
    fix d
    assume "moves 1 c d"
    then have "safe 1 (\<lambda>_. True) d (skip_elements k skip (elements + 1) path d)"
      by (intro Suc.IH within_step [OF Suc.prems] moves_1I [OF m]) simp_all
    then show "safe 0 (\<lambda>_. True) d (skip_elements k skip (elements + 1) path d)" by (rule safe_mono) simp_all
  qed simp_all
  show ?case using ok safe_obind [OF assms(1) [OF ok lim] again, of 1]
    by (simp add: elements_error_def)
qed

text \<open>Opening a container: past the bracket, then the empty container or its loop.\<close>

lemma open_container_safe:
  assumes "cursor_ok cu" "peek cu = c" "c \<noteq> CHR 0x00" "close \<noteq> CHR 0x00" "Q x"
    "\<And>cu'. moves 1 cu cu' \<Longrightarrow> safe 0 Q cu' (loop cu')"
  shows "safe 1 Q cu (case consume close (skip_whitespace (advance 1 cu)) of
     (True, cu1) \<Rightarrow> Done x cu1 | (False, cu1) \<Rightarrow> loop cu1)"
proof -
  have m: "moves 1 cu (advance 1 cu)" using peek_moves assms(1-3) by simp
  have "safe 0 Q (advance 1 cu) (case consume close (skip_whitespace (advance 1 cu)) of
     (True, cu1) \<Rightarrow> Done x cu1 | (False, cu1) \<Rightarrow> loop cu1)"
  proof (rule consume_safe [OF moves_ok [OF m] assms(4), of 0])
    show "moves 1 (advance 1 cu) cu' \<Longrightarrow> safe 0 Q cu' (Done x cu')" for cu'
      using assms(5) by (auto dest: moves_ok)
    show "moves 0 (advance 1 cu) cu' \<Longrightarrow> safe 0 Q cu' (loop cu')" for cu'
      using assms(6) moves_1I [OF m] by simp
  qed simp
  from safe_later [OF this m] show ?thesis by simp
qed

lemma depth_error_safe [simp]: "cursor_ok cu \<Longrightarrow> safe n Q cu (Fail (depth_error cu path))"
  by (simp add: depth_error_def)

lemma literal_safe:
  "cursor_ok cu \<Longrightarrow> s \<noteq> [] \<Longrightarrow> safe 1 (\<lambda>_. True) cu (consume_literal s path cu)"
  using consume_literal_safe [of cu s path] by simp

lemma done_after:
  "safe 1 P cu m \<Longrightarrow> (\<And>x. P x \<Longrightarrow> Q (g x)) \<Longrightarrow> safe 1 Q cu (obind m (\<lambda>x. Done (g x)))"
  by (cases m) (auto simp: safe_def)

lemma skip_value_safe:
  "cursor_ok cu \<Longrightarrow> maximum_depth (cu_limits cu) < n + depth \<Longrightarrow> 0 < n \<Longrightarrow>
   safe 1 (\<lambda>_. True) cu (skip_value n depth path cu)"
proof (induction n arbitrary: depth path cu)
  case (Suc n)
  define c where "c = skip_whitespace cu"
  have m: "moves 0 cu c" using skip_whitespace_moves Suc.prems(1) by (simp add: c_def)
  note ok = moves_ok [OF m] and lim = moves_limits [OF m]
  let ?skip = "skip_value n (depth + 1) path"
  have inner: "safe 1 (\<lambda>_. True) d (?skip d)"
    if "depth < maximum_depth (cu_limits c)" "cursor_ok d" "cu_limits d = cu_limits c" for d
    using Suc.IH [of d "depth + 1" path] Suc.prems that lim by simp
  have object: "safe 1 (\<lambda>_. True) c (case consume (CHR ''}'') (skip_whitespace (advance 1 c)) of
       (True, cu1) \<Rightarrow> Done () cu1 | (False, cu1) \<Rightarrow> skip_members (loop_bound cu1) ?skip 0 path cu1)"
    if d: "depth < maximum_depth (cu_limits c)" and p: "peek c = CHR ''{''"
  proof (rule open_container_safe [OF ok p])
    fix d
    assume "moves 1 c d"
    then show "safe 0 (\<lambda>_. True) d (skip_members (loop_bound d) ?skip 0 path d)"
      using skip_members_safe [OF inner [OF d] within_loop_bound [OF moves_ok]]
      by (intro safe_mono [OF skip_members_safe [where L = "cu_limits c"]] inner [OF d])
        (auto simp: moves_limits within_def loop_bound_def dest: moves_ok)
  qed simp_all
  have array: "safe 1 (\<lambda>_. True) c (case consume (CHR '']'') (skip_whitespace (advance 1 c)) of
       (True, cu1) \<Rightarrow> Done () cu1 | (False, cu1) \<Rightarrow> skip_elements (loop_bound cu1) ?skip 0 path cu1)"
    if d: "depth < maximum_depth (cu_limits c)" and p: "peek c = CHR ''[''"
  proof (rule open_container_safe [OF ok p])
    fix d
    assume "moves 1 c d"
    then show "safe 0 (\<lambda>_. True) d (skip_elements (loop_bound d) ?skip 0 path d)"
      by (intro safe_mono [OF skip_elements_safe [where L = "cu_limits c"]] inner [OF d])
        (auto simp: moves_limits within_def loop_bound_def dest: moves_ok)
  qed simp_all
  have str: "safe 1 (\<lambda>_. True) c (obind (parse_string path c) (\<lambda>_. Done ()))"
    by (rule done_after [OF safe_mono [OF parse_string_safe [OF ok]]]) simp_all
  have num: "safe 1 (\<lambda>_. True) c (obind (parse_number path c) (\<lambda>_. Done ()))"
    by (rule done_after [OF parse_number_safe [OF ok]]) simp
  have "safe 1 (\<lambda>_. True) c (skip_value (Suc n) depth path cu)"
    unfolding skip_value.simps Let_def c_def [symmetric]
    using object array str num ok by (simp add: literal_safe del: One_nat_def)
  from safe_later [OF this m] show ?case by simp
qed simp

end
