(* ===== verification/Flash_Json_Typed.thy ===== *)
theory Flash_Json_Typed
  imports Flash_Json_Total
begin

text \<open>
  The typed reader: the values of a type, the tables of types that compile, and the theorem that reading
  a readable type always ends with a value of the type or an error that points into the input.
\<close>

section \<open>Values of a type\<close>

fun readable :: "type_table \<Rightarrow> ctype \<Rightarrow> bool" where
  "readable T C_string = True"
| "readable T C_string_view = True"
| "readable T C_bool = True"
| "readable T (C_int _ _) = True"
| "readable T (C_float _) = True"
| "readable T (C_enum _) = True"
| "readable T (C_optional t) = readable T t"
| "readable T (C_vector t) = readable T t"
| "readable T (C_array t _) = readable T t"
| "readable T (C_object name) = (T name \<noteq> None)"
| "readable T _ = False"

text \<open>What a field may hold after reading: a value that passed its constraints, or what stands for a
  missing one.\<close>

definition field_ok :: "field_info \<Rightarrow> jvalue \<Rightarrow> bool" where
  "field_ok f v \<longleftrightarrow> validate_field f v [] 0 = None \<or> field_default_value f = Some v"

function conforms :: "type_table \<Rightarrow> ctype \<Rightarrow> jvalue \<Rightarrow> bool" where
  "conforms T t v = (case t of
      C_string \<Rightarrow> (case v of V_string _ \<Rightarrow> True | _ \<Rightarrow> False)
    | C_string_view \<Rightarrow> (case v of V_string _ \<Rightarrow> True | _ \<Rightarrow> False)
    | C_bool \<Rightarrow> (case v of V_bool _ \<Rightarrow> True | _ \<Rightarrow> False)
    | C_int sgnd w \<Rightarrow> (case v of V_int i \<Rightarrow> int_in_range sgnd w i | _ \<Rightarrow> False)
    | C_float _ \<Rightarrow> (case v of V_float x \<Rightarrow> is_finite x | _ \<Rightarrow> False)
    | C_enum en \<Rightarrow> (case v of V_enum i \<Rightarrow> i \<in> snd ` set (en_enumerators en) | _ \<Rightarrow> False)
    | C_optional t' \<Rightarrow> (case v of V_null \<Rightarrow> True | V_some v' \<Rightarrow> conforms T t' v' | _ \<Rightarrow> False)
    | C_vector t' \<Rightarrow> (case v of V_list vs \<Rightarrow> (\<forall>x \<in> set vs. conforms T t' x) | _ \<Rightarrow> False)
    | C_array t' n \<Rightarrow> (case v of V_list vs \<Rightarrow> length vs = n \<and> (\<forall>x \<in> set vs. conforms T t' x) | _ \<Rightarrow> False)
    | C_object name \<Rightarrow> (case v of V_object vs \<Rightarrow>
          (case T name of None \<Rightarrow> False
           | Some ob \<Rightarrow> length vs = length (ob_fields ob) \<and>
               (\<forall>(f, x) \<in> set (zip (ob_fields ob) vs). conforms T (fi_type f) x \<and> field_ok f x))
        | _ \<Rightarrow> False)
    | _ \<Rightarrow> False)"
  by pat_completeness auto
termination
  by (relation "measure (\<lambda>(T, t, v). size v)")
    (auto dest!: set_zip_rightD simp: less_Suc_eq_le intro!: size_list_estimation')

declare conforms.simps [simp del]

definition table_ok :: "type_table \<Rightarrow> bool" where
  "table_ok T \<longleftrightarrow> (\<forall>name ob. T name = Some ob \<longrightarrow> validate_input_schema ob \<and>
     (\<forall>f \<in> set (ob_fields ob). readable T (fi_type f) \<and> (\<forall>d \<in> set (fi_defaults f). conforms T (fi_type f) d)))"

lemma conforms_simps [simp]:
  "conforms T C_string (V_string s)"
  "conforms T C_string_view (V_string s)"
  "conforms T C_bool (V_bool b)"
  "conforms T (C_int sgnd w) (V_int i) \<longleftrightarrow> int_in_range sgnd w i"
  "conforms T (C_float f) (V_float x) \<longleftrightarrow> is_finite x"
  "conforms T (C_enum en) (V_enum i) \<longleftrightarrow> i \<in> snd ` set (en_enumerators en)"
  "conforms T (C_optional t) V_null"
  "conforms T (C_optional t) (V_some v) \<longleftrightarrow> conforms T t v"
  "conforms T (C_vector t) (V_list vs) \<longleftrightarrow> (\<forall>x \<in> set vs. conforms T t x)"
  "conforms T (C_array t n) (V_list vs) \<longleftrightarrow> length vs = n \<and> (\<forall>x \<in> set vs. conforms T t x)"
  by (simp_all add: conforms.simps)

definition field_good :: "type_table \<Rightarrow> field_info \<Rightarrow> jvalue \<Rightarrow> bool" where
  "field_good T f v \<longleftrightarrow> conforms T (fi_type f) v \<and> field_ok f v"

lemma zip_all:
  "length vs = length fs \<Longrightarrow> (\<forall>(f, x) \<in> set (zip fs vs). P f x) \<longleftrightarrow> (\<forall>i < length vs. P (fs ! i) (vs ! i))"
  using list_all2_iff [of P fs vs] list_all2_conv_all_nth [of P fs vs] by auto

lemma conforms_object:
  "T name = Some ob \<Longrightarrow> conforms T (C_object name) (V_object vs) \<longleftrightarrow>
     length vs = length (ob_fields ob) \<and> (\<forall>i < length vs. field_good T (ob_fields ob ! i) (vs ! i))"
  using zip_all [of vs "ob_fields ob" "\<lambda>f x. conforms T (fi_type f) x \<and> field_ok f x"]
  by (auto simp: conforms.simps [of T "C_object name"] field_good_def)

section \<open>Fields\<close>

lemma validate_constraint_path:
  "validate_constraint t v c p o1 = None \<longleftrightarrow> validate_constraint t v c q o2 = None"
  by (induction t v c p o1 rule: validate_constraint.induct) auto

lemma validate_field_path: "validate_field f v p o1 = None \<longleftrightarrow> validate_field f v q o2 = None"
proof -
  have "validate_constraints t v cs p o1 = None \<longleftrightarrow> validate_constraints t v cs q o2 = None" for t v cs
  proof (induction cs)
    case (Cons c cs)
    then show ?case using validate_constraint_path [of t v c p o1 q o2]
      by (cases "validate_constraint t v c p o1"; cases "validate_constraint t v c q o2") simp_all
  qed simp
  then show ?thesis by (simp add: validate_field_def)
qed

lemma validate_field_error:
  "validate_field f v path off = Some e \<Longrightarrow> re_offset e = off"
proof -
  have c: "validate_constraint t v c path off = Some e \<Longrightarrow> re_offset e = off" for t v c
    by (induction t v c path off rule: validate_constraint.induct) (auto split: if_splits)
  have "validate_constraints t v cs path off = Some e \<Longrightarrow> re_offset e = off" for t v cs
    by (induction cs) (auto split: option.splits dest: c)
  then show "validate_field f v path off = Some e \<Longrightarrow> re_offset e = off" by (simp add: validate_field_def)
qed

text \<open>The object under construction: one value and one flag per field, and a flagged value is good.\<close>

definition partial_ok :: "type_table \<Rightarrow> field_info list \<Rightarrow> partial_object \<Rightarrow> bool" where
  "partial_ok T fs ob \<longleftrightarrow> length (fst ob) = length fs \<and> length (snd ob) = length fs \<and>
     (\<forall>i < length fs. snd ob ! i \<longrightarrow> field_good T (fs ! i) (fst ob ! i))"

lemma partial_ok_update:
  "partial_ok T fs ob \<Longrightarrow> i < length fs \<Longrightarrow> field_good T (fs ! i) v \<Longrightarrow>
   partial_ok T fs ((fst ob)[i := v], (snd ob)[i := True])"
  by (auto simp: partial_ok_def nth_list_update)

definition reads :: "type_table \<Rightarrow> read_limits \<Rightarrow> reader \<Rightarrow> nat \<Rightarrow> bool" where
  "reads T L rv depth \<longleftrightarrow> (\<forall>t path cu. readable T t \<longrightarrow> cursor_ok cu \<longrightarrow> cu_limits cu = L \<longrightarrow>
     safe 1 (conforms T t) cu (rv t depth path cu))"

lemma readsD: "reads T L rv depth \<Longrightarrow> readable T t \<Longrightarrow> cursor_ok cu \<Longrightarrow> cu_limits cu = L \<Longrightarrow>
     safe 1 (conforms T t) cu (rv t depth path cu)"
  by (simp add: reads_def)

lemma read_named_field_safe:
  assumes "reads T L rv depth" "\<forall>f \<in> set fs. readable T (fi_type f)" "partial_ok T fs ob"
    "cursor_ok cu" "cu_limits cu = L" "gs = drop index fs"
  shows "safe 0 (\<lambda>(known, ob'). partial_ok T fs ob') cu (read_named_field rv gs index name path depth ob cu)"
  using assms(6)
proof (induction gs arbitrary: index)
  case Nil
  then show ?case using assms(3,4) by simp
next
  case (Cons g gs)
  have i: "index < length fs" "fs ! index = g" "gs = drop (index + 1) fs"
    using Cons.prems by (metis drop_all list.distinct(1) not_less, metis Cons_nth_drop_Suc drop_all list.inject list.distinct(1) not_less,
      metis add.commute drop_Suc list.sel(3) plus_1_eq_Suc tl_drop)
  show ?case
  proof (cases "name = field_wire_name g")
    case False
    then show ?thesis using Cons.IH [OF i(3)] by simp
  next
    case True
    let ?p = "child_path path name"
    have rv: "safe 1 (conforms T (fi_type g)) cu (rv (fi_type g) depth ?p cu)"
      using readsD [OF assms(1)] assms(2,4,5) i nth_mem by metis
    have "safe 0 (\<lambda>(known, ob'). partial_ok T fs ob') cu'
        (case validate_field g v ?p (cu_position cu) of
           Some e \<Rightarrow> Fail e
         | None \<Rightarrow> Done (True, (fst ob)[index := v], (snd ob)[index := True]) cu')"
      if m: "moves 1 cu cu'" and v: "conforms T (fi_type g) v" for v cu'
    proof (cases "validate_field g v ?p (cu_position cu)")
      case None
      then have "field_good T g v"
        using v validate_field_path [of g v ?p "cu_position cu" "[]" 0] by (simp add: field_good_def field_ok_def)
      with partial_ok_update [OF assms(3) i(1)] i(2) m None show ?thesis by (auto dest: moves_ok)
    next
      case (Some e)
      with validate_field_error [OF Some] m show ?thesis
        using assms(4) by (auto simp: safe_def moves_def cursor_ok_def)
    qed
    then have "safe 0 (\<lambda>(known, ob'). partial_ok T fs ob') cu
        (obind (rv (fi_type g) depth ?p cu) (\<lambda>value cu1.
             case validate_field g value ?p (cu_position cu) of
               Some e \<Rightarrow> Fail e
             | None \<Rightarrow> Done (True, (fst ob)[index := value], (snd ob)[index := True]) cu1))"
      by (rule safe_obind [OF rv]) simp_all
    with True assms(4) show ?thesis by (simp add: Let_def)
  qed
qed

lemma optional_null_ok: "fi_type f = C_optional t \<Longrightarrow> field_good T f V_null"
proof -
  assume f: "fi_type f = C_optional t"
  have "validate_constraints (C_optional t) V_null cs p off = None" for cs p off
    by (induction cs) simp_all
  with f show ?thesis by (simp add: field_good_def field_ok_def validate_field_def)
qed

lemma default_ok:
  "field_default_value f = Some d \<Longrightarrow> \<forall>d \<in> set (fi_defaults f). conforms T (fi_type f) d \<Longrightarrow> field_good T f d"
  by (auto simp: field_good_def field_ok_def field_default_value_def split: if_splits)

text \<open>Completing the missing fields makes the object whole, or names a required field that is missing.\<close>

lemma finish_missing_ok:
  assumes "partial_ok T fs ob" "gs = drop index fs"
    "\<forall>f \<in> set fs. \<forall>d \<in> set (fi_defaults f). conforms T (fi_type f) d"
    "finish_missing_fields gs index ob path off = Inr vs"
    "\<forall>i < index. i < length fs \<longrightarrow> field_good T (fs ! i) (fst ob ! i)"
  shows "length vs = length fs \<and> (\<forall>i < length fs. field_good T (fs ! i) (vs ! i))"
  using assms(1,2,4,5)
proof (induction gs arbitrary: index ob)
  case Nil
  then show ?case by (auto simp: partial_ok_def)
next
  case (Cons g gs)
  have i: "index < length fs" "fs ! index = g" "gs = drop (index + 1) fs"
    using Cons.prems(2) by (metis drop_all list.distinct(1) not_less, metis Cons_nth_drop_Suc drop_all list.inject list.distinct(1) not_less,
      metis add.commute drop_Suc list.sel(3) plus_1_eq_Suc tl_drop)
  have len: "index < length (fst ob)" using i(1) Cons.prems(1) by (simp add: partial_ok_def)
  have step: "length vs = length fs \<and> (\<forall>i < length fs. field_good T (fs ! i) (vs ! i))"
    if f: "finish_missing_fields gs (index + 1) ((fst ob)[index := v], snd ob) path off = Inr vs"
      and v: "field_good T g v" and ns: "\<not> snd ob ! index \<or> v = fst ob ! index" for v
  proof (rule Cons.IH [OF _ i(3) f])
    show "partial_ok T fs ((fst ob)[index := v], snd ob)"
      using Cons.prems(1) ns v i by (auto simp: partial_ok_def nth_list_update)
    show "\<forall>i < index + 1. i < length fs \<longrightarrow> field_good T (fs ! i) (fst ((fst ob)[index := v], snd ob) ! i)"
      using Cons.prems(4) v i(2) len by (auto simp: nth_list_update less_Suc_eq)
  qed
  show ?case
  proof (cases "snd ob ! index")
    case True
    then have "field_good T g (fst ob ! index)" using Cons.prems(1) i by (auto simp: partial_ok_def)
    from step [OF _ this] True Cons.prems(3) show ?thesis by simp
  next
    case False
    have fin: "\<forall>d \<in> set (fi_defaults g). conforms T (fi_type g) d" using assms(3) i nth_mem by metis
    show ?thesis
    proof (cases "\<exists>t. fi_type g = C_optional t")
      case True
      then obtain t where t: "fi_type g = C_optional t" by blast
      from step [OF _ optional_null_ok [OF t]] t False Cons.prems(3) show ?thesis by simp
    next
      case nopt: False
      then obtain d where d: "field_default_value g = Some d"
        "finish_missing_fields gs (index + 1) ((fst ob)[index := d], snd ob) path off = Inr vs"
        using Cons.prems(3) False by (auto split: ctype.splits option.splits)
      from step [OF d(2) default_ok [OF d(1) fin]] False show ?thesis by simp
    qed
  qed
qed

lemma finish_missing_error:
  "finish_missing_fields gs index ob path off = Inl e \<Longrightarrow> re_offset e = off"
  by (induction gs index ob path off rule: finish_missing_fields.induct)
    (auto split: if_splits ctype.splits option.splits)

end
