(* ===== verification/Flash_Json_Reads.thy ===== *)
theory Flash_Json_Reads
  imports Flash_Json_Typed
begin

text \<open>
  The readers of objects, vectors and fixed arrays, and the reader of a document: each is safe when the
  reader it calls for what it contains is, so one induction over the levels gives the whole.
\<close>

section \<open>Objects\<close>

definition skips :: "read_limits \<Rightarrow> (string \<Rightarrow> cursor \<Rightarrow> unit outcome) \<Rightarrow> bool" where
  "skips L skip \<longleftrightarrow> (\<forall>path cu. cursor_ok cu \<longrightarrow> cu_limits cu = L \<longrightarrow> safe 1 (\<lambda>_. True) cu (skip path cu))"

lemma read_member_safe:
  assumes rv: "reads T L rv (depth + 1)" and sk: "skips L skip"
    and fs: "\<forall>f \<in> set fs. readable T (fi_type f)" and ob: "partial_ok T fs ob"
    and ok: "cursor_ok cu" and lim: "cu_limits cu = L"
  shows "safe 1 (partial_ok T fs) cu (read_member rv skip fs depth path ob cu)"
  unfolding read_member_def
proof (rule safe_obind [OF parse_string_safe [OF ok], of 0])
  fix key c
  let ?rest = "\<lambda>(known, ob') cu3.
     if \<not> known then
       (let unknown_path = child_path path (ps_view key) in
        if reject_unknown_fields (cu_limits cu3)
        then Fail (cursor_error cu3 ''unknown_field'' ''JSON object contains an unknown field.'' unknown_path)
        else obind (skip unknown_path cu3) (\<lambda>_. Done ob'))
     else Done ob' cu3"
  assume m: "moves 2 cu c"
  show "safe 0 (partial_ok T fs) c (expect_colon path (\<lambda>cu2.
       obind (read_named_field rv fs 0 (ps_view key) path (depth + 1) ob (skip_whitespace cu2)) ?rest) c)"
  proof (rule expect_colon_safe [OF moves_ok [OF m]])
    fix d
    assume d: "moves 1 c d"
    define e where "e = skip_whitespace d"
    have e: "moves 0 d e" using skip_whitespace_moves [OF moves_ok [OF d]] by (simp add: e_def)
    have lime: "cu_limits e = L" using moves_limits [OF m] moves_limits [OF d] moves_limits [OF e] lim by simp
    have "safe 0 (partial_ok T fs) e (obind (read_named_field rv fs 0 (ps_view key) path (depth + 1) ob e) ?rest)"
    proof (rule safe_obind [OF read_named_field_safe [OF rv fs ob moves_ok [OF e] lime]])
      fix x :: "bool \<times> partial_object" and g
      assume g: "moves 0 e g" and x: "case x of (known, ob') \<Rightarrow> partial_ok T fs ob'"
      obtain known ob' where xp: "x = (known, ob')" by (cases x)
      have okg: "cursor_ok g" and limg: "cu_limits g = L" using moves_ok [OF g] moves_limits [OF g] lime by simp_all
      have "safe 0 (partial_ok T fs) g (obind (skip p g) (\<lambda>_. Done ob'))" for p
        using sk okg limg x xp
        by (intro safe_obind [where n = 1 and k = 0 and P = "\<lambda>_. True"]) (auto simp: skips_def dest: moves_ok)
      then show "safe 0 (partial_ok T fs) g (?rest x g)"
        using x xp okg by (auto simp: Let_def)
    qed simp_all
    from safe_later [OF this e]
    show "safe 0 (partial_ok T fs) d
        (obind (read_named_field rv fs 0 (ps_view key) path (depth + 1) ob (skip_whitespace d)) ?rest)"
      by (simp add: e_def)
  qed
qed simp

lemma object_loop_safe:
  assumes member: "\<And>ob c. P ob \<Longrightarrow> cursor_ok c \<Longrightarrow> cu_limits c = L \<Longrightarrow> safe 1 P c (member ob c)"
    and "P ob" "within L k cu"
  shows "safe 1 P cu (object_loop k member members path ob cu)"
  using assms(2,3)
proof (induction k arbitrary: members ob cu)
  case 0
  then show ?case by (simp add: within_def)
next
  case (Suc k)
  note ok = within_parts(1) [OF Suc.prems(2)] and lim = within_parts(2) [OF Suc.prems(2)]
  have "safe 0 P c (close_or_comma (CHR ''}'') object_comma path ob1
      (object_loop k member (members + 1) path ob1) c)" if m: "moves 1 cu c" and p: "P ob1" for c ob1
  proof (rule close_or_comma_safe [where Q = P, OF moves_ok [OF m]])
    fix d
    assume "moves 1 c d"
    then have "safe 1 P d (object_loop k member (members + 1) path ob1 d)"
      by (intro Suc.IH p within_step [OF Suc.prems(2)] moves_1I [OF m]) simp_all
    then show "safe 0 P d (object_loop k member (members + 1) path ob1 d)" by (rule safe_mono) simp_all
  qed (use p in simp_all)
  then show ?case using ok safe_obind [OF member [OF Suc.prems(1) ok lim], of 0 P _ 1]
    by (simp add: members_error_def)
qed

lemma partial_ok_initial: "partial_ok T fs (replicate (length fs) V_null, replicate (length fs) False)"
  by (simp add: partial_ok_def)

lemma finish_safe:
  assumes "partial_ok T fs ob" "cursor_ok cu"
    "\<forall>f \<in> set fs. \<forall>d \<in> set (fi_defaults f). conforms T (fi_type f) d"
    "T name = Some object" "fs = ob_fields object"
  shows "safe 0 (conforms T (C_object name)) cu
     (case finish_missing_fields fs 0 ob path (cu_position cu) of
        Inl e \<Rightarrow> Fail e | Inr values \<Rightarrow> Done (V_object values) cu)"
proof (cases "finish_missing_fields fs 0 ob path (cu_position cu)")
  case (Inl e)
  with finish_missing_error [OF Inl] assms(2) show ?thesis by (simp add: safe_def cursor_ok_def)
next
  case (Inr vs)
  have "length vs = length fs \<and> (\<forall>i < length fs. field_good T (fs ! i) (vs ! i))"
    by (rule finish_missing_ok [OF assms(1) _ assms(3) Inr]) simp_all
  then have "conforms T (C_object name) (V_object vs)"
    using assms(4,5) by (simp add: conforms_object)
  with Inr assms(2) show ?thesis by simp
qed

lemma read_object_safe:
  assumes rv: "reads T L rv (depth + 1)" and sk: "skips L skip"
    and fs: "\<forall>f \<in> set fs. readable T (fi_type f)"
    and defaults: "\<forall>f \<in> set fs. \<forall>d \<in> set (fi_defaults f). conforms T (fi_type f) d"
    and name: "T name = Some object" "fs = ob_fields object"
    and ok: "cursor_ok cu" and lim: "cu_limits cu = L"
  shows "safe 1 (conforms T (C_object name)) cu (read_object rv skip fs depth path cu)"
proof -
  let ?ob = "(replicate (length fs) V_null, replicate (length fs) False)"
  let ?members = "\<lambda>cu2. object_loop (loop_bound cu2) (read_member rv skip fs depth path) 0 path ?ob cu2"
  have loop: "safe 1 (partial_ok T fs) c (?members c)" if "cursor_ok c" "cu_limits c = L" for c
    using that within_loop_bound [of c]
    by (intro object_loop_safe [where L = L] read_member_safe [OF rv sk fs] partial_ok_initial) auto
  have body: "safe 0 (conforms T (C_object name)) c
      (obind (case consume (CHR ''}'') (skip_whitespace c) of
          (True, cu2) \<Rightarrow> Done ?ob cu2 | (False, cu2) \<Rightarrow> ?members cu2)
        (\<lambda>ob cu3. case finish_missing_fields fs 0 ob path (cu_position cu3) of
            Inl e \<Rightarrow> Fail e | Inr values \<Rightarrow> Done (V_object values) cu3))"
    if m: "moves 1 cu c" for c
  proof (rule safe_obind [where n = 0 and k = 0 and P = "partial_ok T fs"])
    show "safe 0 (partial_ok T fs) c (case consume (CHR ''}'') (skip_whitespace c) of
          (True, cu2) \<Rightarrow> Done ?ob cu2 | (False, cu2) \<Rightarrow> ?members cu2)"
    proof (rule consume_safe [OF moves_ok [OF m], where m = 0])
      show "moves 1 c d \<Longrightarrow> safe 0 (partial_ok T fs) d (Done ?ob d)" for d
        using partial_ok_initial by (auto dest: moves_ok)
      show "moves 0 c d \<Longrightarrow> safe 0 (partial_ok T fs) d (?members d)" for d
        using loop [of d] moves_ok [of 0 c d] moves_limits [of 0 c d] moves_limits [OF m] lim
        by (auto intro: safe_mono)
    qed simp_all
  qed (use finish_safe [OF _ _ defaults name] in \<open>auto dest: moves_ok\<close>)
  show ?thesis
  proof (cases "depth \<ge> maximum_depth (cu_limits cu)")
    case False
    then have "read_object rv skip fs depth path cu = (case consume (CHR ''{'') cu of
        (True, cu1) \<Rightarrow> (obind (case consume (CHR ''}'') (skip_whitespace cu1) of
          (True, cu2) \<Rightarrow> Done ?ob cu2 | (False, cu2) \<Rightarrow> ?members cu2)
        (\<lambda>ob cu3. case finish_missing_fields fs 0 ob path (cu_position cu3) of
            Inl e \<Rightarrow> Fail e | Inr values \<Rightarrow> Done (V_object values) cu3))
      | (False, cu1) \<Rightarrow> Fail (cursor_error cu1 ''expected_object'' ''Expected a JSON object.'' path))"
      by (simp add: read_object_def Let_def split: prod.splits bool.splits)
    then show ?thesis
      using body ok by (auto intro!: consume_safe' [OF ok, where m = 0] simp: safe_here)
  qed (use ok in \<open>simp add: read_object_def\<close>)
qed

section \<open>Vectors and fixed arrays\<close>

lemma vector_loop_safe:
  assumes item: "\<And>i c. cursor_ok c \<Longrightarrow> cu_limits c = L \<Longrightarrow> safe 1 P c (item i c)"
    and "\<forall>x \<in> set result. P x" "within L k cu"
  shows "safe 1 (\<lambda>vs. \<forall>x \<in> set vs. P x) cu (vector_loop k item path result cu)"
  using assms(2,3)
proof (induction k arbitrary: result cu)
  case 0
  then show ?case by (simp add: within_def)
next
  case (Suc k)
  let ?Q = "\<lambda>vs. \<forall>x \<in> set vs. P x"
  note ok = within_parts(1) [OF Suc.prems(2)] and lim = within_parts(2) [OF Suc.prems(2)]
  have "safe 0 ?Q c (close_or_comma (CHR '']'') array_comma path (result @ [v])
      (vector_loop k item path (result @ [v])) c)" if m: "moves 1 cu c" and v: "P v" for c v
  proof (rule close_or_comma_safe [where Q = ?Q, OF moves_ok [OF m]])
    show all: "?Q (result @ [v])" using Suc.prems(1) v by auto
    fix d
    assume "moves 1 c d"
    then have "safe 1 ?Q d (vector_loop k item path (result @ [v]) d)"
      by (intro Suc.IH all within_step [OF Suc.prems(2)] moves_1I [OF m]) simp_all
    then show "safe 0 ?Q d (vector_loop k item path (result @ [v]) d)" by (rule safe_mono) simp_all
  qed simp_all
  then show ?case using ok safe_obind [OF item [OF ok lim], of 0 ?Q _ 1]
    by (simp add: elements_error_def)
qed

lemma read_vector_safe:
  assumes rv: "reads T L rv (depth + 1)" and t: "readable T t"
    and ok: "cursor_ok cu" and lim: "cu_limits cu = L"
  shows "safe 1 (conforms T (C_vector t)) cu (read_vector rv t depth path cu)"
proof -
  let ?loop = "\<lambda>cu2. obind (vector_loop (loop_bound cu2) (\<lambda>index. rv t (depth + 1) (element_path path index)) path [] cu2)
      (\<lambda>vs. Done (V_list vs))"
  have loop: "safe 0 (conforms T (C_vector t)) c (?loop c)" if c: "cursor_ok c" "cu_limits c = L" for c
  proof (rule safe_mono [where k = 0])
    show "safe 1 (conforms T (C_vector t)) c (?loop c)"
      using readsD [OF rv t] c within_loop_bound [of c]
      by (intro done_after [OF vector_loop_safe [where L = L and P = "conforms T t"]]) auto
  qed simp_all
  have body: "safe 0 (conforms T (C_vector t)) c (case consume (CHR '']'') (skip_whitespace c) of
      (True, cu2) \<Rightarrow> Done (V_list []) cu2 | (False, cu2) \<Rightarrow> ?loop cu2)" if m: "moves 1 cu c" for c
  proof (rule consume_safe [OF moves_ok [OF m], where m = 0])
    show "moves 1 c d \<Longrightarrow> safe 0 (conforms T (C_vector t)) d (Done (V_list []) d)" for d
      by (auto dest: moves_ok)
    show "moves 0 c d \<Longrightarrow> safe 0 (conforms T (C_vector t)) d (?loop d)" for d
      using loop [of d] moves_ok [of 0 c d] moves_limits [of 0 c d] moves_limits [OF m] lim by simp
  qed simp_all
  show ?thesis
  proof (cases "depth \<ge> maximum_depth (cu_limits cu)")
    case False
    then have "read_vector rv t depth path cu = (case consume (CHR ''['') cu of
        (True, cu1) \<Rightarrow> (case consume (CHR '']'') (skip_whitespace cu1) of
            (True, cu2) \<Rightarrow> Done (V_list []) cu2 | (False, cu2) \<Rightarrow> ?loop cu2)
      | (False, cu1) \<Rightarrow> Fail (expected_array cu1 path))"
      by (simp add: read_vector_def split: prod.splits bool.splits)
    then show ?thesis
      using body ok by (auto intro!: consume_safe' [OF ok, where m = 0] simp: expected_array_def)
  qed (use ok in \<open>simp add: read_vector_def\<close>)
qed

text \<open>The loop over a fixed array needs no bound of its own: it takes the elements it is still owed.\<close>

lemma array_loop_safe:
  assumes item: "\<And>i c. cursor_ok c \<Longrightarrow> cu_limits c = L \<Longrightarrow> safe 1 P c (item i c)"
    and "\<forall>x \<in> set result. P x" "cursor_ok cu" "cu_limits cu = L"
  shows "safe 0 (\<lambda>vs. length vs = length result + rest \<and> (\<forall>x \<in> set vs. P x)) cu
    (array_loop rest item path result cu)"
  using assms(2-4)
proof (induction rest arbitrary: result cu)
  case (Suc rest)
  let ?Q = "\<lambda>vs. length vs = length result + Suc rest \<and> (\<forall>x \<in> set vs. P x)"
  have step: "safe 0 ?Q d (array_loop rest item path (result @ [v]) d)"
    if "moves 0 cu d" "P v" for d v
    using Suc.IH [of "result @ [v]" d] Suc.prems that moves_limits [OF that(1)] moves_ok [OF that(1)] by auto
  show ?case unfolding array_loop.simps
  proof (rule safe_obind [OF item [OF Suc.prems(2,3)], of 0])
    fix v c
    assume m: "moves 1 cu c" and v: "P v"
    define d where "d = skip_whitespace c"
    have d: "moves 0 c d" "moves 1 cu d"
      using skip_whitespace_moves [OF moves_ok [OF m]] moves_whitespace [OF m] by (simp_all add: d_def)
    have comma: "safe 0 ?Q d (case consume (CHR '','') d of
        (True, cu3) \<Rightarrow> array_loop rest item path (result @ [v]) (skip_whitespace cu3)
      | (False, cu3) \<Rightarrow> Fail (cursor_error cu3 ''array_size''
                               ''JSON array has fewer elements than the fixed array size.'' path))"
    proof (rule consume_safe' [OF moves_ok [OF d(1)], where m = 0])
      fix e
      assume e: "moves 1 d e"
      have "moves 0 cu (skip_whitespace e)"
        using moves_whitespace [OF moves_trans [OF d(2) e, of 0]] by simp
      from safe_later [OF step [OF this v] skip_whitespace_moves [OF moves_ok [OF e]]]
      show "safe 0 ?Q e (array_loop rest item path (result @ [v]) (skip_whitespace e))" by simp
    qed (use moves_ok [OF d(1)] in simp_all)
    have plain: "safe 0 ?Q d (array_loop rest item path (result @ [v]) d)"
      using step [OF moves_mono [OF d(2)] v] by simp
    have "safe 0 ?Q d (if rest \<noteq> 0 then
        (case consume (CHR '','') d of
          (True, cu3) \<Rightarrow> array_loop rest item path (result @ [v]) (skip_whitespace cu3)
        | (False, cu3) \<Rightarrow> Fail (cursor_error cu3 ''array_size''
                               ''JSON array has fewer elements than the fixed array size.'' path))
      else array_loop rest item path (result @ [v]) d)"
      using comma plain by (cases "rest \<noteq> 0") (simp_all only: if_True if_False not_True_eq_False not_False_eq_True)
    from safe_later [OF this d(1), of 0]
    show "safe 0 ?Q c (let cu2 = skip_whitespace c in
       if rest \<noteq> 0 then
         (case consume (CHR '','') cu2 of
            (False, cu3) \<Rightarrow> Fail (cursor_error cu3 ''array_size''
                               ''JSON array has fewer elements than the fixed array size.'' path)
          | (True, cu3) \<Rightarrow> array_loop rest item path (result @ [v]) (skip_whitespace cu3))
       else array_loop rest item path (result @ [v]) cu2)"
      by (simp add: d_def [symmetric] split: prod.splits bool.splits)
  qed simp
qed simp

lemma read_array_safe:
  assumes rv: "reads T L rv (depth + 1)" and t: "readable T t"
    and ok: "cursor_ok cu" and lim: "cu_limits cu = L"
  shows "safe 1 (conforms T (C_array t count)) cu (read_array rv t count depth path cu)"
proof -
  let ?Q = "conforms T (C_array t count)"
  let ?tail = "\<lambda>vs cu3. case consume (CHR '']'') cu3 of
      (True, cu4) \<Rightarrow> Done (V_list vs) cu4
    | (False, cu4) \<Rightarrow> Fail (cursor_error cu4 ''array_size''
                               ''JSON array has more elements than the fixed array size.'' path)"
  let ?loop = "\<lambda>cu2. obind (array_loop count (\<lambda>index. rv t (depth + 1) (element_path path index)) path [] cu2) ?tail"
  let ?none = "\<lambda>cu2. if count = 0 then Done (V_list []) cu2
     else Fail (cursor_error cu2 ''array_size'' ''JSON array has fewer elements than the fixed array size.'' path)"
  let ?some = "\<lambda>cu2. if count = 0
     then Fail (cursor_error cu2 ''array_size'' ''JSON array does not match the fixed array size.'' path)
     else ?loop cu2"
  let ?items = "\<lambda>cu1. case consume (CHR '']'') (skip_whitespace cu1) of (True, cu2) \<Rightarrow> ?none cu2 | (False, cu2) \<Rightarrow> ?some cu2"
  have tail: "safe 0 ?Q c (?tail vs c)" if "cursor_ok c" "length vs = count" "\<forall>x \<in> set vs. conforms T t x" for c vs
    by (rule consume_safe' [OF that(1), where m = 0]) (use that in \<open>auto dest: moves_ok\<close>)
  have loop: "safe 0 ?Q c (?loop c)" if c: "cursor_ok c" "cu_limits c = L" for c
  proof (rule safe_obind [where n = 0 and k = 0])
    show "safe 0 (\<lambda>vs. length vs = length ([] :: jvalue list) + count \<and> (\<forall>x \<in> set vs. conforms T t x)) c
        (array_loop count (\<lambda>index. rv t (depth + 1) (element_path path index)) path [] c)"
      by (rule array_loop_safe [where L = L]) (use readsD [OF rv t] c in auto)
  qed (use tail in \<open>auto dest: moves_ok\<close>)
  have body: "safe 0 ?Q c (?items c)" if m: "moves 1 cu c" for c
  proof (rule consume_safe [OF moves_ok [OF m], where m = 0])
    show "moves 1 c d \<Longrightarrow> safe 0 ?Q d (?none d)" for d by (auto dest: moves_ok)
    show "moves 0 c d \<Longrightarrow> safe 0 ?Q d (?some d)" for d
      using loop [of d] moves_ok [of 0 c d] moves_limits [of 0 c d] moves_limits [OF m] lim by simp
  qed simp_all
  have body': "safe 0 ?Q c (if count > maximum_array_elements (cu_limits c)
      then Fail (cursor_error c ''array_too_large'' ''Fixed array exceeds the configured element limit.'' path)
      else ?items c)" if m: "moves 1 cu c" for c
    using body [OF m] moves_ok [OF m] by simp
  show ?thesis
  proof (cases "depth \<ge> maximum_depth (cu_limits cu)")
    case False
    then have "read_array rv t count depth path cu = (case consume (CHR ''['') cu of
        (True, cu1) \<Rightarrow> (if count > maximum_array_elements (cu_limits cu1)
            then Fail (cursor_error cu1 ''array_too_large'' ''Fixed array exceeds the configured element limit.'' path)
            else ?items cu1)
      | (False, cu1) \<Rightarrow> Fail (expected_array cu1 path))"
      by (auto simp: read_array_def consume_def advance_def split: prod.splits bool.splits)
    then show ?thesis
      using body' ok by (auto intro!: consume_safe' [OF ok, where m = 0] simp: expected_array_def)
  qed (use ok in \<open>simp add: read_array_def\<close>)
qed

section \<open>Scalars\<close>

lemma read_bool_safe: "cursor_ok cu \<Longrightarrow> safe 1 (conforms T C_bool) cu (read_bool path cu)"
  unfolding read_bool_def
  by (simp add: done_after [OF literal_safe] del: One_nat_def)

lemma read_integer_safe:
  assumes "cursor_ok cu"
  shows "safe 1 (conforms T (C_int sgnd w)) cu (read_integer sgnd w path cu)"
  unfolding read_integer_def
proof (rule safe_obind [OF parse_number_safe [OF assms(1)], of 0])
  fix token c
  assume m: "moves 1 cu c"
  obtain ec r q where f: "from_chars_int sgnd w token = (ec, r, q)" by (cases "from_chars_int sgnd w token")
  show "safe 0 (conforms T (C_int sgnd w)) c (case from_chars_int sgnd w token of (ec, result, ptr) \<Rightarrow>
         if ec = Errc_result_out_of_range then Fail (number_range_error c path)
         else if ec \<noteq> Errc_none \<or> ptr \<noteq> length token then Fail (number_type_error c path)
         else Done (V_int result) c)"
    using moves_ok [OF m] f from_chars_int_range [of sgnd w token r q]
    by (simp add: number_range_error_def number_type_error_def)
qed simp

lemma read_float_safe:
  assumes "cursor_ok cu"
  shows "safe 1 (conforms T (C_float f)) cu (read_float f path cu)"
  unfolding read_float_def
proof (rule safe_obind [OF parse_number_safe [OF assms(1)], of 0])
  fix token c
  assume m: "moves 1 cu c"
  obtain ec r q where "from_chars_float f token = (ec, r, q)" by (cases "from_chars_float f token")
  then show "safe 0 (conforms T (C_float f)) c (case from_chars_float f token of (ec, result, ptr) \<Rightarrow>
         if ec = Errc_result_out_of_range then Fail (number_range_error c path)
         else if ec \<noteq> Errc_none \<or> ptr \<noteq> length token \<or> \<not> is_finite result
         then Fail (number_type_error c path)
         else Done (V_float result) c)"
    using moves_ok [OF m] by (simp add: number_range_error_def number_type_error_def)
qed simp

lemma read_text_safe:
  assumes "cursor_ok cu" "\<And>s c. moves 2 cu c \<Longrightarrow> safe 0 Q c (f s c)"
  shows "safe 1 Q cu (obind (parse_string path cu) f)"
  by (rule safe_obind [OF parse_string_safe [OF assms(1)], of 0]) (use assms(2) in simp_all)

lemma read_enum_safe:
  assumes "cursor_ok cu"
  shows "safe 1 (conforms T (C_enum en)) cu (read_enum en path cu)"
  unfolding read_enum_def
proof (rule read_text_safe [OF assms])
  fix s c
  assume m: "moves 2 cu c"
  then show "safe 0 (conforms T (C_enum en)) c (case parse_enum (en_enumerators en) (ps_view s) of
       None \<Rightarrow> Fail (cursor_error c ''invalid_enum'' ''JSON string is not a reflected enumerator name.'' path)
     | Some v \<Rightarrow> Done (V_enum v) c)"
    using moves_ok [OF m] by (auto split: option.splits dest!: parse_enum_Some intro: rev_image_eqI)
qed

lemma read_string_safe: "cursor_ok cu \<Longrightarrow> safe 1 (conforms T C_string) cu (read_string path cu)"
  unfolding read_string_def by (rule read_text_safe) (auto dest: moves_ok)

lemma read_string_view_safe: "cursor_ok cu \<Longrightarrow> safe 1 (conforms T C_string_view) cu (read_string_view path cu)"
  unfolding read_string_view_def by (rule read_text_safe) (auto dest: moves_ok)

section \<open>Values\<close>

lemma table_ok_object:
  "table_ok T \<Longrightarrow> T name = Some object \<Longrightarrow>
     (\<forall>f \<in> set (ob_fields object). readable T (fi_type f)) \<and>
     (\<forall>f \<in> set (ob_fields object). \<forall>d \<in> set (fi_defaults f). conforms T (fi_type f) d)"
  by (auto simp: table_ok_def)

lemma read_plain_safe:
  assumes tab: "table_ok T" and rv: "depth < maximum_depth L \<Longrightarrow> reads T L rv (depth + 1)"
    and sk: "depth < maximum_depth L \<Longrightarrow> skips L (skip (depth + 1))"
    and t: "readable T t" "\<forall>t'. t \<noteq> C_optional t'" and ok: "cursor_ok cu" and lim: "cu_limits cu = L"
  shows "safe 1 (conforms T t) cu (read_plain rv skip T t depth path cu)"
proof (cases "depth < maximum_depth L")
  case True
  note rv = rv [OF True] and sk = sk [OF True]
  show ?thesis
  proof (cases t)
    case (C_object name)
    then obtain object where ob: "T name = Some object" using t(1) by auto
    with C_object show ?thesis
      using read_object_safe [OF rv sk _ _ ob refl ok lim] table_ok_object [OF tab ob] by simp
  next
    case (C_vector t')
    with t(1) show ?thesis using read_vector_safe [OF rv _ ok lim] by simp
  next
    case (C_array t' k)
    with t(1) show ?thesis using read_array_safe [OF rv _ ok lim] by simp
  qed (use t ok in \<open>simp_all add: read_bool_safe read_integer_safe read_float_safe read_enum_safe
        read_string_safe read_string_view_safe del: One_nat_def\<close>)
next
  case False
  with t ok lim show ?thesis
    by (cases t) (auto simp: read_bool_safe read_integer_safe read_float_safe read_enum_safe
        read_string_safe read_string_view_safe read_object_def read_vector_def read_array_def
        simp del: One_nat_def)
qed

lemma read_value_optional:
  "read_value n T (C_optional t) depth path cu =
     (let c = skip_whitespace cu in
      if cursor_starts_with c ''null'' then obind (consume_literal ''null'' path c) (\<lambda>_. Done V_null)
      else obind (read_value n T t depth path c) (\<lambda>v. Done (V_some v)))"
  by (subst read_value.simps) (simp add: Let_def)

lemma read_value_plain:
  "\<forall>t'. t \<noteq> C_optional t' \<Longrightarrow> read_value (Suc n) T t depth path cu =
     (let c = skip_whitespace cu in
      if cursor_starts_with c ''null''
      then Fail (cursor_error c ''null_not_allowed'' ''JSON null is not allowed for this value.'' path)
      else read_plain (read_value n T) (skip_value n) T t depth path c)"
  by (subst read_value.simps) (cases t; simp add: Let_def)

lemma read_value_safe:
  assumes tab: "table_ok T"
  shows "readable T t \<Longrightarrow> cursor_ok cu \<Longrightarrow> maximum_depth (cu_limits cu) < n + depth \<Longrightarrow> 0 < n \<Longrightarrow>
     safe 1 (conforms T t) cu (read_value n T t depth path cu)"
proof (induction n arbitrary: t depth path cu)
  case (Suc n)
  from Suc.prems show ?case
  proof (induction "size t" arbitrary: t cu rule: less_induct)
    case less
    define c where "c = skip_whitespace cu"
    have m: "moves 0 cu c" using skip_whitespace_moves less.prems(2) by (simp add: c_def)
    note ok = moves_ok [OF m] and lim = moves_limits [OF m]
    have "safe 1 (conforms T t) c (read_value (Suc n) T t depth path cu)"
    proof (cases "\<exists>t'. t = C_optional t'")
      case True
      then obtain t' where t': "t = C_optional t'" by blast
      have "safe 1 (conforms T t') c (read_value (Suc n) T t' depth path c)"
        using less.hyps [of t' c] less.prems ok lim t' by simp
      then show ?thesis
        unfolding t' read_value_optional Let_def c_def [symmetric]
        using ok by (simp add: done_after [OF literal_safe] done_after del: One_nat_def)
    next
      case False
      then have nt: "\<forall>t'. t \<noteq> C_optional t'" by blast
      let ?L = "cu_limits c"
      have rv: "reads T ?L (read_value n T) (depth + 1)" if "depth < maximum_depth ?L"
        unfolding reads_def using Suc.IH [of _ _ "depth + 1"] less.prems(3) that lim by simp
      have sk: "skips ?L (skip_value n (depth + 1))" if "depth < maximum_depth ?L"
        unfolding skips_def using skip_value_safe [of _ n "depth + 1"] less.prems(3) that lim by simp
      show ?thesis
        unfolding read_value_plain [OF nt] Let_def c_def [symmetric]
        using read_plain_safe [where L = ?L and cu = c and skip = "skip_value n" and depth = depth and path = path,
          OF tab rv sk less.prems(1) nt ok refl] ok by (simp del: One_nat_def)
    qed
    from safe_later [OF this m] show ?case by simp
  qed
qed simp

text \<open>C17. The JSON reader is total and typed: for every readable type and every input it answers within
  the nesting limit, never using up the \<open>maximum_depth + 1\<close> levels of recursion nor the turns of a
  loop; what it returns is a value of the type, every field of every object valid or its default, and
  what it refuses it refuses with an offset that lies inside the input.\<close>

theorem read_json_total:
  assumes "table_ok T" "readable T t"
  shows "(\<exists>v cu. read_json T t input limits = Done v cu \<and> conforms T t v) \<or>
    (\<exists>e. read_json T t input limits = Fail e \<and> re_offset e \<le> length input)"
proof (cases "length input > maximum_input_bytes limits")
  case False
  let ?cu = "\<lparr>cu_input = input, cu_limits = limits, cu_position = 0\<rparr>"
  have "safe 1 (conforms T t) ?cu (read_value (Suc (maximum_depth limits)) T t 0 ''$'' ?cu)"
    using read_value_safe [OF assms] by (simp add: cursor_ok_def)
  then have "safe 0 (conforms T t) ?cu (obind (read_value (Suc (maximum_depth limits)) T t 0 ''$'' ?cu)
      (\<lambda>result cu1. let cu2 = skip_whitespace cu1 in
        if \<not> at_end cu2 then Fail (cursor_error cu2 ''trailing_characters''
           ''JSON input contains trailing characters.'' ''$'') else Done result cu2))"
    by (rule safe_obind [where k = 0])
      (auto simp: Let_def dest!: moves_ok intro!: safe_Done safe_error skip_whitespace_moves)
  then show ?thesis
    using False by (auto simp: read_json_def safe_def split: outcome.splits)
qed (simp add: read_json_def)

definition sample_fields :: "field_info list" where
  "sample_fields =
     [\<lparr>fi_identifier = ''id'', fi_type = C_int False 32, fi_public = True, fi_names = [], fi_defaults = [],
       fi_constraints = [], fi_descriptions = [], fi_deprecated = 0\<rparr>,
      \<lparr>fi_identifier = ''tags'', fi_type = C_vector C_string, fi_public = True, fi_names = [],
       fi_defaults = [], fi_constraints = [size_constraint Max_items 4], fi_descriptions = [], fi_deprecated = 0\<rparr>,
      \<lparr>fi_identifier = ''parent'', fi_type = C_optional (C_object ''Item''), fi_public = True,
       fi_names = [], fi_defaults = [], fi_constraints = [], fi_descriptions = [], fi_deprecated = 0\<rparr>]"

definition sample_table :: type_table where
  "sample_table name = (if name = ''Item'' then Some \<lparr>ob_fields = sample_fields, ob_aggregate = True,
     ob_default_initializable = True, ob_schema_names = [], ob_display = ''Item''\<rparr> else None)"

lemma sample_table_ok: "table_ok sample_table"
proof -
  have "map field_wire_name sample_fields = [''id'', ''tags'', ''parent'']"
    "list_all (\<lambda>f. field_wire_name_value f \<noteq> None) sample_fields" by code_simp+
  then have "distinct (map field_wire_name sample_fields) \<and>
      (\<forall>f \<in> set sample_fields. field_wire_name_value f \<noteq> None)" by (simp add: list_all_iff)
  then show ?thesis
    unfolding table_ok_def validate_input_schema_def validate_output_schema_iff
    by (auto simp: sample_table_def sample_fields_def split: if_splits)
qed

theorem read_json_total_witness:
  "(\<exists>v cu. read_json sample_table (C_object ''Item'') ''{}'' default_limits = Done v cu \<and>
       conforms sample_table (C_object ''Item'') v) \<or>
    (\<exists>e. read_json sample_table (C_object ''Item'') ''{}'' default_limits = Fail e \<and> re_offset e \<le> length ''{}'')"
  by (rule read_json_total [OF sample_table_ok]) (simp add: sample_table_def)

end
