(* ===== verification/Flash_Json_Props.thy ===== *)
theory Flash_Json_Props
  imports Flash_Json_Reads
begin

text \<open>
  What the JSON components promise together: the escaping of \<open>errors.cpp\<close> against the strings of the
  reader, the number grammar, the constraints on integers and the names of the fields of a class.
\<close>

abbreviation start_cursor :: "string \<Rightarrow> read_limits \<Rightarrow> cursor" where
  "start_cursor input limits \<equiv> \<lparr>cu_input = input, cu_limits = limits, cu_position = 0\<rparr>"

text \<open>C33. Escaping and reading a string are inverse: whatever valid UTF-8 text is written as a JSON
  string is read back unchanged, the reader stopping right after the closing quote, as long as the text
  is within the limit on strings.\<close>

theorem json_string_roundtrip:
  assumes "valid_utf8 s" "length s \<le> maximum_string_bytes limits"
  shows "\<exists>p cu'. parse_string path (start_cursor (append_json_string [] s @ rest) limits) = Done p cu' \<and>
     ps_view p = s \<and> left_text cu' = rest"
proof -
  let ?cu = "start_cursor (append_json_string [] s @ rest) limits"
  have l: "left_text ?cu = CHR 0x22 # escaped s @ CHR 0x22 # rest"
    by (simp add: left_text_def append_json_string_eq)
  obtain p where p: "parse_string path ?cu = Done p (advance (length (escaped s) + 2) ?cu)" "ps_view p = s"
    using parse_string_escaped [OF l assms(1)] assms(2) by auto
  have "left_text (advance (length (escaped s) + 2) ?cu) = rest"
    by (simp add: left_text_advance l)
  with p show ?thesis by blast
qed

theorem json_string_roundtrip_witness:
  "\<exists>p cu'. parse_string ''$'' (start_cursor (append_json_string [] [CHR ''a'', CHR 0x0A, CHR 0x22] @ '','') default_limits)
      = Done p cu' \<and> ps_view p = [CHR ''a'', CHR 0x0A, CHR 0x22] \<and> left_text cu' = '',''"
proof (rule json_string_roundtrip)
  show "valid_utf8 [CHR ''a'', CHR 0x0A, CHR 0x22]" by code_simp
qed (simp add: default_limits_def)

text \<open>C34. Numbers follow the JSON grammar exactly: before a character that cannot continue a number, the
  reader takes a token if and only if it is an optional minus, an integer without leading zeros, an
  optional fraction and an optional exponent, and it takes the whole of it.\<close>

theorem parse_number_grammar:
  assumes "number_ends rest"
  shows "parse_number path (start_cursor (s @ rest) limits) =
      Done s (advance (length s) (start_cursor (s @ rest) limits)) \<longleftrightarrow> json_number s"
  using parse_number_complete [of "start_cursor (s @ rest) limits" s rest path]
    parse_number_sound [of path "start_cursor (s @ rest) limits" s] assms
  by (auto simp: left_text_def cursor_ok_def)

theorem parse_number_grammar_witness:
  "parse_number ''$'' (start_cursor (''-10.5e+3'' @ '']'') default_limits) =
      Done ''-10.5e+3'' (advance (length ''-10.5e+3'') (start_cursor (''-10.5e+3'' @ '']'') default_limits)) \<longleftrightarrow>
    json_number ''-10.5e+3''"
  by (rule parse_number_grammar) (simp add: number_ends_def is_digit_def)

section \<open>Constraints\<close>

text \<open>C39. Below \<open>2^53\<close> in absolute value the numeric constraints on integer fields are exact, whatever
  the width and sign of the type: the comparison in \<open>double\<close> is the comparison of the integers.\<close>

theorem integer_constraints_exact:
  assumes "\<bar>v\<bar> < 2 ^ 53" "\<bar>b\<bar> < 2 ^ 53"
  shows "(validate_constraint (C_int sgnd w) (V_int v) (numeric_constraint Minimum b) path offset = None \<longleftrightarrow> b \<le> v) \<and>
    (validate_constraint (C_int sgnd w) (V_int v) (numeric_constraint Exclusive_minimum b) path offset = None \<longleftrightarrow> b < v) \<and>
    (validate_constraint (C_int sgnd w) (V_int v) (numeric_constraint Maximum b) path offset = None \<longleftrightarrow> v \<le> b) \<and>
    (validate_constraint (C_int sgnd w) (V_int v) (numeric_constraint Exclusive_maximum b) path offset = None \<longleftrightarrow> v < b)"
  using double_compare_exact [OF assms] double_compare_exact [OF assms(2,1)]
  by (simp_all add: constraint_valid_def numeric_constraint_def)

theorem integer_constraints_exact_witness:
  "validate_constraint (C_int True 32) (V_int 7) (numeric_constraint Maximum 6) ''$'' 0 = None \<longleftrightarrow> (7::int) \<le> 6"
  using integer_constraints_exact [of 7 6 True 32 "''$''" 0] by simp

text \<open>Above that bound the comparison is the one of the rounded values; how far it lets an integer pass
  its bound depends on the bound modulo four.\<close>

definition slack_above :: "int \<Rightarrow> int" where
  "slack_above b = (if b mod 4 = 0 then 1 else if b mod 4 = 3 then 2 else 0)"

definition slack_below :: "int \<Rightarrow> int" where
  "slack_below b = (if b mod 4 = 0 then 1 else if b mod 4 = 1 then 2 else 0)"

lemma rounded_compare:
  "rounded54 v \<le> rounded54 b \<longleftrightarrow> v \<le> b + slack_above b"
  "rounded54 b \<le> rounded54 v \<longleftrightarrow> b - slack_below b \<le> v"
  unfolding rounded54_def slack_above_def slack_below_def by (auto split: if_splits; presburger)+

lemma rounded_compare_strict:
  "rounded54 v < rounded54 b \<longleftrightarrow> v < b - slack_below b"
  "rounded54 b < rounded54 v \<longleftrightarrow> b + slack_above b < v"
  using rounded_compare(2) [of b v] rounded_compare(1) [of v b] by linarith+

text \<open>C40. From \<open>2^53\<close> up to \<open>2^54\<close> the constraints on integer fields are not exact, and by exactly this much:
  a maximum \<open>b\<close> accepts \<open>b + 1\<close> when \<open>b\<close> is a multiple of four, up to \<open>b + 2\<close> when it is one less than a
  multiple, and nothing above \<open>b\<close> otherwise; a minimum accepts \<open>b - 1\<close>, down to \<open>b - 2\<close> when it is one more
  than a multiple; the exclusive bounds are the complements. So \<open>maximum(9007199254740992)\<close> on a 64 bit
  field accepts \<open>9007199254740993\<close> and refuses \<open>9007199254740994\<close>.\<close>

theorem integer_constraint_rounds:
  assumes "2 ^ 53 \<le> v" "v < 2 ^ 54" "2 ^ 53 \<le> b" "b < 2 ^ 54"
  shows "(validate_constraint (C_int sgnd w) (V_int v) (numeric_constraint Minimum b) path offset = None \<longleftrightarrow> b - slack_below b \<le> v) \<and>
    (validate_constraint (C_int sgnd w) (V_int v) (numeric_constraint Exclusive_minimum b) path offset = None \<longleftrightarrow> b + slack_above b < v) \<and>
    (validate_constraint (C_int sgnd w) (V_int v) (numeric_constraint Maximum b) path offset = None \<longleftrightarrow> v \<le> b + slack_above b) \<and>
    (validate_constraint (C_int sgnd w) (V_int v) (numeric_constraint Exclusive_maximum b) path offset = None \<longleftrightarrow> v < b - slack_below b)"
  using double_compare_rounded [OF assms] double_compare_rounded [OF assms(3,4,1,2)]
  unfolding rounded_compare(1) [of v b] rounded_compare(2) [of b v] rounded_compare_strict(1) [of v b] rounded_compare_strict(2) [of b v]
  by (simp add: constraint_valid_def numeric_constraint_def)

theorem integer_constraint_rounds_witness:
  "validate_constraint (C_int True 64) (V_int 9007199254740993) (numeric_constraint Maximum 9007199254740992) ''$'' 0 = None \<and>
   validate_constraint (C_int True 64) (V_int 9007199254740994) (numeric_constraint Maximum 9007199254740992) ''$'' 0 \<noteq> None"
  using integer_constraint_rounds [of 9007199254740993 9007199254740992 True 64 "''$''" 0]
    integer_constraint_rounds [of 9007199254740994 9007199254740992 True 64 "''$''" 0]
  by (simp add: slack_above_def)

end
