(* ===== verification/Flash_Json_Text.thy ===== *)
theory Flash_Json_Text
  imports Flash_Json_Write Flash_Json_Props
begin

text \<open>
  \<open>json_text\<close> is a reference serialiser, \<open>value_fits\<close> the values of a type that respect the limits of a reader;
  for those the writer implements the reference.
\<close>

section \<open>The reference serialiser\<close>

definition quoted :: "string \<Rightarrow> string" where
  "quoted s = CHR 0x22 # escaped s @ [CHR 0x22]"

function json_text :: "type_table \<Rightarrow> ctype \<Rightarrow> jvalue \<Rightarrow> string" where
  "json_text T t v = (case v of
      V_string s \<Rightarrow> quoted s
    | V_bool b \<Rightarrow> (if b then ''true'' else ''false'')
    | V_int i \<Rightarrow> show_int i
    | V_enum i \<Rightarrow> (case t of C_enum en \<Rightarrow> quoted (enum_name (en_enumerators en) i) | _ \<Rightarrow> [])
    | V_null \<Rightarrow> ''null''
    | V_some x \<Rightarrow> (case t of C_optional t' \<Rightarrow> json_text T t' x | _ \<Rightarrow> [])
    | V_list vs \<Rightarrow> (case t of
          C_vector t' \<Rightarrow> ''['' @ join_with (CHR '','') (map (json_text T t') vs) @ '']''
        | C_array t' n \<Rightarrow> ''['' @ join_with (CHR '','') (map (json_text T t') vs) @ '']''
        | _ \<Rightarrow> [])
    | V_object vs \<Rightarrow> (case t of
          C_object name \<Rightarrow> (case T name of None \<Rightarrow> [] | Some ob \<Rightarrow>
            ''{'' @ join_with (CHR '','') (map (\<lambda>(f, x). quoted (field_wire_name f) @ '':'' @ json_text T (fi_type f) x)
              (zip (ob_fields ob) vs)) @ ''}'')
        | _ \<Rightarrow> [])
    | _ \<Rightarrow> [])"
  by pat_completeness auto
termination
  by (relation "measure (\<lambda>(T, t, v). size v)")
    (auto dest!: set_zip_rightD simp: less_Suc_eq_le intro!: size_list_estimation')

declare json_text.simps [simp del]

definition member_text :: "type_table \<Rightarrow> field_info \<Rightarrow> jvalue \<Rightarrow> string" where
  "member_text T f v = quoted (field_wire_name f) @ '':'' @ json_text T (fi_type f) v"

lemma json_text_simps [simp]:
  "json_text T t (V_string s) = quoted s"
  "json_text T t (V_bool b) = (if b then ''true'' else ''false'')"
  "json_text T t (V_int i) = show_int i"
  "json_text T (C_enum en) (V_enum i) = quoted (enum_name (en_enumerators en) i)"
  "json_text T t V_null = ''null''"
  "json_text T (C_optional t) (V_some v) = json_text T t v"
  "json_text T (C_vector t) (V_list vs) = ''['' @ join_with (CHR '','') (map (json_text T t) vs) @ '']''"
  "json_text T (C_array t n) (V_list vs) = ''['' @ join_with (CHR '','') (map (json_text T t) vs) @ '']''"
  by (simp_all add: json_text.simps)

lemma json_text_object:
  "T name = Some ob \<Longrightarrow> json_text T (C_object name) (V_object vs) =
     ''{'' @ join_with (CHR '','') (map (\<lambda>(f, x). member_text T f x) (zip (ob_fields ob) vs)) @ ''}''"
  by (simp add: json_text.simps [of T "C_object name"] member_text_def)

section \<open>Values within the limits\<close>

definition enum_ok :: "read_limits \<Rightarrow> enum_info \<Rightarrow> int \<Rightarrow> bool" where
  "enum_ok L en i \<longleftrightarrow> (let s = enum_name (en_enumerators en) i in
     s \<noteq> [] \<and> valid_utf8 s \<and> length s \<le> maximum_string_bytes L \<and> distinct (map fst (en_enumerators en)))"

function value_fits :: "read_limits \<Rightarrow> type_table \<Rightarrow> ctype \<Rightarrow> nat \<Rightarrow> jvalue \<Rightarrow> bool" where
  "value_fits L T t depth v = (case v of
      V_string s \<Rightarrow> t = C_string \<and> valid_utf8 s \<and> length s \<le> maximum_string_bytes L
    | V_bool b \<Rightarrow> t = C_bool
    | V_int i \<Rightarrow> (case t of C_int sgnd w \<Rightarrow> w \<in> {8, 16, 32, 64} \<and> int_in_range sgnd w i | _ \<Rightarrow> False)
    | V_enum i \<Rightarrow> (case t of C_enum en \<Rightarrow> enum_ok L en i | _ \<Rightarrow> False)
    | V_null \<Rightarrow> (case t of C_optional _ \<Rightarrow> True | _ \<Rightarrow> False)
    | V_some x \<Rightarrow> (case t of
          C_optional t' \<Rightarrow> (case t' of C_optional _ \<Rightarrow> False | _ \<Rightarrow> True) \<and> value_fits L T t' depth x
        | _ \<Rightarrow> False)
    | V_list vs \<Rightarrow> depth < maximum_depth L \<and> length vs \<le> maximum_array_elements L \<and> (case t of
          C_vector t' \<Rightarrow> \<forall>x \<in> set vs. value_fits L T t' (depth + 1) x
        | C_array t' n \<Rightarrow> length vs = n \<and> (\<forall>x \<in> set vs. value_fits L T t' (depth + 1) x)
        | _ \<Rightarrow> False)
    | V_object vs \<Rightarrow> depth < maximum_depth L \<and> length vs \<le> maximum_object_members L \<and> (case t of
          C_object name \<Rightarrow> (case T name of None \<Rightarrow> False | Some ob \<Rightarrow>
            length vs = length (ob_fields ob) \<and>
            (\<forall>(f, x) \<in> set (zip (ob_fields ob) vs). value_fits L T (fi_type f) (depth + 1) x \<and>
               valid_utf8 (field_wire_name f) \<and> length (field_wire_name f) \<le> maximum_string_bytes L \<and>
               validate_field f x [] 0 = None))
        | _ \<Rightarrow> False)
    | _ \<Rightarrow> False)"
  by pat_completeness auto
termination
  by (relation "measure (\<lambda>(L, T, t, depth, v). size v)")
    (auto dest!: set_zip_rightD simp: less_Suc_eq_le intro!: size_list_estimation')

declare value_fits.simps [simp del]

text \<open>Which type a value has.\<close>

lemma value_fits_simps:
  "value_fits L T t depth (V_string s) \<longleftrightarrow> t = C_string \<and> valid_utf8 s \<and> length s \<le> maximum_string_bytes L"
  "value_fits L T t depth (V_bool b) \<longleftrightarrow> t = C_bool"
  "value_fits L T t depth (V_int i) \<longleftrightarrow> (\<exists>sgnd w. t = C_int sgnd w \<and> w \<in> {8, 16, 32, 64} \<and> int_in_range sgnd w i)"
  "value_fits L T t depth (V_enum i) \<longleftrightarrow> (\<exists>en. t = C_enum en \<and> enum_ok L en i)"
  "value_fits L T t depth V_null \<longleftrightarrow> (\<exists>t'. t = C_optional t')"
  "value_fits L T t depth (V_some x) \<longleftrightarrow>
     (\<exists>t'. t = C_optional t' \<and> (\<forall>t2. t' \<noteq> C_optional t2) \<and> value_fits L T t' depth x)"
  "value_fits L T t depth (V_float y) \<longleftrightarrow> False"
  by (simp_all add: value_fits.simps [of L T t depth] split: ctype.split)

lemma value_fits_list:
  "value_fits L T t depth (V_list vs) \<longleftrightarrow> depth < maximum_depth L \<and> length vs \<le> maximum_array_elements L \<and>
     (\<exists>t'. (t = C_vector t' \<or> t = C_array t' (length vs)) \<and> (\<forall>x \<in> set vs. value_fits L T t' (depth + 1) x))"
  by (cases t) (auto simp: value_fits.simps [of L T _ depth "V_list vs"])

lemma value_fits_object:
  "value_fits L T t depth (V_object vs) \<longleftrightarrow> depth < maximum_depth L \<and> length vs \<le> maximum_object_members L \<and>
     (\<exists>name ob. t = C_object name \<and> T name = Some ob \<and> length vs = length (ob_fields ob) \<and>
        (\<forall>(f, x) \<in> set (zip (ob_fields ob) vs). value_fits L T (fi_type f) (depth + 1) x \<and>
           valid_utf8 (field_wire_name f) \<and> length (field_wire_name f) \<le> maximum_string_bytes L \<and>
           validate_field f x [] 0 = None))"
  by (cases t) (auto simp: value_fits.simps [of L T _ depth "V_object vs"] split: option.splits)

section \<open>The writer implements the reference\<close>

lemma append_escaped_string_eq: "append_escaped_string out s = out @ quoted s"
  by (simp add: append_escaped_string_def escape_loop_eq quoted_def)

lemma join_with_concat: "join_with c (p # ps) = p @ concat (map (\<lambda>q. c # q) ps)"
  by (induction ps arbitrary: p) simp_all

lemma append_elements_text:
  "\<forall>x \<in> set vs. \<forall>out. append_value T t x out = Inr (out @ json_text T t x) \<Longrightarrow>
   append_elements T t vs False out = Inr (out @ concat (map (\<lambda>x. CHR '','' # json_text T t x) vs))"
  by (induction vs arbitrary: out) simp_all

lemma append_elements_join:
  "\<forall>x \<in> set vs. \<forall>out. append_value T t x out = Inr (out @ json_text T t x) \<Longrightarrow>
   append_elements T t vs True out = Inr (out @ join_with (CHR '','') (map (json_text T t) vs))"
  using append_elements_text [of "tl vs"] by (cases vs) (auto simp: join_with_concat comp_def)

lemma append_fields_text:
  "length vs = length fs \<Longrightarrow> 0 < i \<Longrightarrow>
   \<forall>(f, x) \<in> set (zip fs vs). \<forall>out. append_value T (fi_type f) x out = Inr (out @ json_text T (fi_type f) x) \<Longrightarrow>
   append_object_fields T fs i vs out =
     Inr (out @ concat (map (\<lambda>(f, x). CHR '','' # member_text T f x) (zip fs vs)))"
proof (induction fs arbitrary: i vs out)
  case (Cons f fs)
  then obtain v vs' where "vs = v # vs'" by (cases vs) auto
  with Cons show ?case by (simp add: append_escaped_string_eq member_text_def Let_def)
qed simp

lemma append_fields_join:
  assumes "length vs = length fs"
    "\<forall>(f, x) \<in> set (zip fs vs). \<forall>out. append_value T (fi_type f) x out = Inr (out @ json_text T (fi_type f) x)"
  shows "append_object_fields T fs 0 vs out =
     Inr (out @ join_with (CHR '','') (map (\<lambda>(f, x). member_text T f x) (zip fs vs)))"
proof (cases fs)
  case (Cons f fs')
  then obtain v vs' where v: "vs = v # vs'" using assms(1) by (cases vs) auto
  have "append_object_fields T fs' 1 vs' o1 =
      Inr (o1 @ concat (map (\<lambda>(f, x). CHR '','' # member_text T f x) (zip fs' vs')))" for o1
    using append_fields_text [of vs' fs' 1 T o1] assms Cons v by simp
  with assms Cons v show ?thesis
    by (simp add: append_escaped_string_eq member_text_def Let_def join_with_concat comp_def case_prod_unfold)
qed simp

text \<open>Induction over the values that fit, one case per form of value.\<close>

lemma value_fits_induct [consumes 1, case_names string bool int enum null optional list object]:
  assumes "value_fits L T t depth v"
    and string: "\<And>depth s. valid_utf8 s \<Longrightarrow> length s \<le> maximum_string_bytes L \<Longrightarrow> P C_string depth (V_string s)"
    and bool: "\<And>depth b. P C_bool depth (V_bool b)"
    and int: "\<And>depth sgnd w i. w \<in> {8, 16, 32, 64} \<Longrightarrow> int_in_range sgnd w i \<Longrightarrow> P (C_int sgnd w) depth (V_int i)"
    and enum: "\<And>depth en i. enum_ok L en i \<Longrightarrow> P (C_enum en) depth (V_enum i)"
    and null: "\<And>depth t. P (C_optional t) depth V_null"
    and optional: "\<And>depth t x. \<forall>t2. t \<noteq> C_optional t2 \<Longrightarrow> value_fits L T t depth x \<Longrightarrow> P t depth x \<Longrightarrow>
      P (C_optional t) depth (V_some x)"
    and list: "\<And>depth t t' vs. depth < maximum_depth L \<Longrightarrow> length vs \<le> maximum_array_elements L \<Longrightarrow>
      t = C_vector t' \<or> t = C_array t' (length vs) \<Longrightarrow>
      (\<And>x. x \<in> set vs \<Longrightarrow> value_fits L T t' (depth + 1) x \<and> P t' (depth + 1) x) \<Longrightarrow> P t depth (V_list vs)"
    and object: "\<And>depth name ob vs. depth < maximum_depth L \<Longrightarrow> length vs \<le> maximum_object_members L \<Longrightarrow>
      T name = Some ob \<Longrightarrow> length vs = length (ob_fields ob) \<Longrightarrow>
      (\<And>f x. (f, x) \<in> set (zip (ob_fields ob) vs) \<Longrightarrow> value_fits L T (fi_type f) (depth + 1) x \<and> P (fi_type f) (depth + 1) x \<and>
           valid_utf8 (field_wire_name f) \<and> length (field_wire_name f) \<le> maximum_string_bytes L \<and>
           validate_field f x [] 0 = None) \<Longrightarrow>
      P (C_object name) depth (V_object vs)"
  shows "P t depth v"
  using assms(1)
proof (induction "size v" arbitrary: t depth v rule: less_induct)
  case less
  show ?case
  proof (cases v)
    case (V_some x)
    with less optional show ?thesis by (auto simp: value_fits_simps)
  next
    case (V_list vs)
    then obtain t' where t': "depth < maximum_depth L" "length vs \<le> maximum_array_elements L"
      "t = C_vector t' \<or> t = C_array t' (length vs)" "\<forall>x \<in> set vs. value_fits L T t' (depth + 1) x"
      using less.prems by (auto simp: value_fits_list)
    have "P t' (depth + 1) x" if "x \<in> set vs" for x
      using less.hyps [of x t' "depth + 1"] that t'(4) V_list
      by (simp add: less_Suc_eq_le size_list_estimation')
    with list [OF t'(1-3)] t'(4) V_list show ?thesis by blast
  next
    case (V_object vs)
    then obtain name ob where n: "depth < maximum_depth L" "length vs \<le> maximum_object_members L"
      "T name = Some ob" "length vs = length (ob_fields ob)" "t = C_object name"
      and f0: "\<forall>(f, x) \<in> set (zip (ob_fields ob) vs). value_fits L T (fi_type f) (depth + 1) x \<and>
           valid_utf8 (field_wire_name f) \<and> length (field_wire_name f) \<le> maximum_string_bytes L \<and>
           validate_field f x [] 0 = None"
      using less.prems unfolding V_object value_fits_object by blast
    have f: "value_fits L T (fi_type f) (depth + 1) x \<and>
           valid_utf8 (field_wire_name f) \<and> length (field_wire_name f) \<le> maximum_string_bytes L \<and>
           validate_field f x [] 0 = None" if "(f, x) \<in> set (zip (ob_fields ob) vs)" for f x
      using bspec [OF f0 that] by simp
    have "P (fi_type f) (depth + 1) x" if "(f, x) \<in> set (zip (ob_fields ob) vs)" for f x
      using less.hyps [of x "fi_type f" "depth + 1"] f [OF that] set_zip_rightD [OF that] V_object
      by (simp add: less_Suc_eq_le size_list_estimation')
    then have "P (C_object name) depth (V_object vs)"
      using f by (intro object [OF n(1-4)]) blast
    with n V_object show ?thesis by simp
  qed (use less.prems string bool int enum null in \<open>auto simp: value_fits_simps\<close>)
qed

lemma append_value_simps:
  "append_value T (C_optional t) (V_some x) out = append_value T t x out"
  "append_value T (C_optional t) V_null out = Inr (out @ ''null'')"
  "append_value T C_string (V_string s) out = Inr (append_escaped_string out s)"
  "append_value T C_bool (V_bool b) out = Inr (out @ (if b then ''true'' else ''false''))"
  "append_value T (C_int sgnd w) (V_int i) out = append_integer sgnd w i out"
  "append_value T (C_enum en) (V_enum i) out = append_enum en i out"
  "append_value T (C_vector t) (V_list vs) out =
     bind_sum (append_elements T t vs True (out @ ''['')) (\<lambda>o1. Inr (o1 @ '']''))"
  "append_value T (C_array t n) (V_list vs) out =
     bind_sum (append_elements T t vs True (out @ ''['')) (\<lambda>o1. Inr (o1 @ '']''))"
  "T name = Some ob \<Longrightarrow> append_value T (C_object name) (V_object vs) out =
     bind_sum (append_object_fields T (ob_fields ob) 0 vs (out @ ''{'')) (\<lambda>o1. Inr (o1 @ ''}''))"
  by (simp_all add: append_value.simps)

lemma writer_text:
  "value_fits L T t depth v \<Longrightarrow> append_value T t v out = Inr (out @ json_text T t v)"
proof (induction arbitrary: out rule: value_fits_induct)
  case (int depth sgnd w i)
  then show ?case by (simp add: append_value_simps append_integer_def to_chars_int_fits)
next
  case (enum depth en i)
  then show ?case by (simp add: append_value_simps append_enum_def enum_ok_def Let_def append_escaped_string_eq)
next
  case (list depth t t' vs)
  have "\<forall>x \<in> set vs. \<forall>out. append_value T t' x out = Inr (out @ json_text T t' x)"
    using list.IH by blast
  from append_elements_join [OF this] list.hyps show ?case by (auto simp: append_value_simps)
next
  case (object depth name ob vs)
  have "\<forall>(f, x) \<in> set (zip (ob_fields ob) vs). \<forall>out.
      append_value T (fi_type f) x out = Inr (out @ json_text T (fi_type f) x)"
    using object.IH by blast
  from append_fields_join [OF object.hyps(4) this] object.hyps show ?case
    by (simp add: append_value_simps json_text_object)
qed (simp_all add: append_value_simps append_escaped_string_eq)

end
