(* ===== verification/Flash_Json_Roundtrip.thy ===== *)
theory Flash_Json_Roundtrip
  imports Flash_Json_Text
begin

text \<open>
  Writing and reading are inverse: the reader walks over the reference text of a value that value_fits and
  returns the value. \<open>reads_to m v cu rest\<close> says that a reader succeeds with \<open>v\<close> and leaves \<open>rest\<close>.
\<close>

section \<open>Arriving\<close>

definition arrives :: "cursor \<Rightarrow> string \<Rightarrow> cursor \<Rightarrow> bool" where
  "arrives cu rest cu' \<longleftrightarrow> cu_input cu' = cu_input cu \<and> cu_limits cu' = cu_limits cu \<and> cursor_ok cu' \<and>
     left_text cu' = rest"

definition reads_to :: "'a outcome \<Rightarrow> 'a \<Rightarrow> cursor \<Rightarrow> string \<Rightarrow> bool" where
  "reads_to m v cu rest \<longleftrightarrow> (\<exists>cu'. m = Done v cu' \<and> arrives cu rest cu')"

lemma arrives_refl: "cursor_ok cu \<Longrightarrow> left_text cu = rest \<Longrightarrow> arrives cu rest cu"
  by (simp add: arrives_def)

lemma arrives_trans: "arrives a r b \<Longrightarrow> arrives b q c \<Longrightarrow> arrives a q c"
  by (simp add: arrives_def)

lemma arrives_ok: "arrives a r b \<Longrightarrow> cursor_ok b \<and> left_text b = r \<and> cu_limits b = cu_limits a"
  by (simp add: arrives_def)

lemma arrives_advance: "left_text cu = s @ r \<Longrightarrow> cursor_ok cu \<Longrightarrow> arrives cu r (advance (length s) cu)"
  using cursor_ok_advance left_text_decomp by (simp add: arrives_def)

lemma reads_to_Done: "arrives cu rest cu' \<Longrightarrow> reads_to (Done v cu') v cu rest"
  by (simp add: reads_to_def)

lemma reads_to_obind:
  assumes "reads_to m v cu r1" "\<And>cu'. arrives cu r1 cu' \<Longrightarrow> reads_to (f v cu') w cu' r2"
  shows "reads_to (obind m f) w cu r2"
proof -
  obtain c where c: "m = Done v c" "arrives cu r1 c" using assms(1) by (auto simp: reads_to_def)
  obtain d where "f v c = Done w d" "arrives c r2 d" using assms(2) [OF c(2)] by (auto simp: reads_to_def)
  then show ?thesis using c arrives_trans by (auto simp: reads_to_def)
qed

lemma reads_to_later: "arrives cu r1 cu' \<Longrightarrow> reads_to m w cu' r2 \<Longrightarrow> reads_to m w cu r2"
  using arrives_trans by (auto simp: reads_to_def)

section \<open>Single characters\<close>

lemma consume_hit: "left_text cu = c # r \<Longrightarrow> consume c cu = (True, advance 1 cu) \<and> arrives cu r (advance 1 cu)"
  using left_text_Cons [of cu c r] by (simp add: consume_def arrives_def)

lemma consume_miss: "left_text cu = d # r \<Longrightarrow> d \<noteq> c \<Longrightarrow> consume c cu = (False, cu)"
  using left_text_Cons [of cu d r] by (simp add: consume_def)

lemma skip_none: "left_text cu = c # r \<Longrightarrow> \<not> is_json_space c \<Longrightarrow> skip_whitespace cu = cu"
  using left_text_Cons [of cu c r] by (subst skip_whitespace.simps) simp

lemma not_space [simp]:
  "\<not> is_json_space (CHR 0x22)" "\<not> is_json_space (CHR '','')" "\<not> is_json_space (CHR '':'')"
  "\<not> is_json_space (CHR '']'')" "\<not> is_json_space (CHR ''}'')" "\<not> is_json_space (CHR ''['')"
  "\<not> is_json_space (CHR ''{'')" "\<not> is_json_space (CHR ''-'')" "\<not> is_json_space (CHR ''t'')"
  "\<not> is_json_space (CHR ''f'')" "\<not> is_json_space (CHR ''n'')"
  by (simp_all add: is_json_space_def)

lemma digit_not_space: "is_digit c \<Longrightarrow> \<not> is_json_space c"
  by (auto simp: is_json_space_def is_digit_def)

lemma number_ends_simps [simp]:
  "number_ends []" "number_ends (CHR '','' # r)" "number_ends (CHR '']'' # r)" "number_ends (CHR ''}'' # r)"
  by (simp_all add: number_ends_def is_digit_def)

section \<open>First characters\<close>

text \<open>No value starts with whitespace or a closing bracket, and only an absent optional with \<open>n\<close>.\<close>

definition value_start :: "char \<Rightarrow> bool" where
  "value_start c \<longleftrightarrow> \<not> is_json_space c \<and> c \<noteq> CHR '']'' \<and> c \<noteq> CHR ''}''"

lemma show_int_hd: "show_int i \<noteq> [] \<and> (hd (show_int i) = CHR ''-'' \<or> is_digit (hd (show_int i)))"
  using show_nat_digits [of "nat i"] hd_in_set [OF show_nat_not_Nil] by (auto simp: show_int_def)

lemma digit_start: "is_digit c \<Longrightarrow> value_start c \<and> c \<noteq> CHR ''n''"
  using digit_not_space by (auto simp: value_start_def is_digit_def)

lemma value_start_simps [simp]:
  "value_start (CHR 0x22)" "value_start (CHR ''['')" "value_start (CHR ''{'')" "value_start (CHR ''t'')"
  "value_start (CHR ''f'')" "value_start (CHR ''n'')" "value_start (CHR ''-'')"
  by (simp_all add: value_start_def)

lemma json_text_start:
  "value_fits L T t depth v \<Longrightarrow> \<exists>c r. json_text T t v = c # r \<and> value_start c \<and>
     ((\<forall>t'. t \<noteq> C_optional t') \<longrightarrow> c \<noteq> CHR ''n'')"
proof (induction rule: value_fits_induct)
  case (int depth sgnd w i)
  then show ?case using show_int_hd [of i] digit_start by (cases "show_int i") auto
qed (auto simp: quoted_def json_text_object)

section \<open>Lists of items\<close>

lemma close_hit:
  assumes "left_text cu = close # rest" "cursor_ok cu" "\<not> is_json_space close"
  shows "reads_to (close_or_comma close message path result again cu) result cu rest"
  using consume_hit [OF assms(1)] skip_none [OF assms(1,3)] by (simp add: close_or_comma_def reads_to_def)

lemma comma_hit:
  assumes "left_text cu = CHR '','' # c # r" "close \<noteq> CHR '',''" "\<not> is_json_space c"
    "\<And>cu'. arrives cu (c # r) cu' \<Longrightarrow> reads_to (again cu') w cu' rest"
  shows "reads_to (close_or_comma close message path result again cu) w cu rest"
proof -
  have c: "consume (CHR '','') cu = (True, advance 1 cu)" "arrives cu (c # r) (advance 1 cu)"
    using consume_hit [OF assms(1)] by simp_all
  then have s: "skip_whitespace (advance 1 cu) = advance 1 cu"
    using skip_none [of _ c r] assms(3) by (simp add: arrives_def)
  have "skip_whitespace cu = cu" using skip_none [OF assms(1)] by simp
  then have "close_or_comma close message path result again cu = again (advance 1 cu)"
    using consume_miss [OF assms(1)] assms(2) c(1) s by (simp add: close_or_comma_def)
  with assms(4) [OF c(2)] reads_to_later [OF c(2)] show ?thesis by simp
qed

lemma join_with_step: "vs \<noteq> [] \<Longrightarrow> join_with c (p # vs) = p @ c # join_with c vs"
  by (cases vs) simp_all

lemma join_start:
  "vs \<noteq> [] \<Longrightarrow> \<exists>c r. txt (hd vs) = c # r \<and> value_start c \<Longrightarrow>
   \<exists>c r. join_with (CHR '','') (map txt vs) = c # r \<and> value_start c"
  by (cases vs; cases "tl vs") (auto simp: join_with_step)

definition item_back :: "(nat \<Rightarrow> cursor \<Rightarrow> jvalue outcome) \<Rightarrow> read_limits \<Rightarrow> (jvalue \<Rightarrow> string) \<Rightarrow> jvalue \<Rightarrow> bool" where
  "item_back item L txt x \<longleftrightarrow> (\<forall>index c r. left_text c = txt x @ r \<longrightarrow> cursor_ok c \<longrightarrow> cu_limits c = L \<longrightarrow>
     number_ends r \<longrightarrow> reads_to (item index c) x c r)"

lemma item_backD:
  "item_back item L txt x \<Longrightarrow> left_text c = txt x @ r \<Longrightarrow> cursor_ok c \<Longrightarrow> cu_limits c = L \<Longrightarrow> number_ends r \<Longrightarrow>
   reads_to (item index c) x c r"
  by (simp add: item_back_def)

lemma vector_loop_back:
  assumes "\<forall>x \<in> set vs. item_back item L txt x" "\<forall>x \<in> set vs. \<exists>c r. txt x = c # r \<and> value_start c"
    "vs \<noteq> []" "length result + length vs \<le> maximum_array_elements L" "length vs \<le> k"
    "left_text cu = join_with (CHR '','') (map txt vs) @ CHR '']'' # rest" "cursor_ok cu" "cu_limits cu = L"
  shows "reads_to (vector_loop k item path result cu) (result @ vs) cu rest"
  using assms
proof (induction vs arbitrary: result k cu)
  case (Cons x xs)
  obtain k' where k: "k = Suc k'" using Cons.prems(5) by (cases k) simp_all
  note ok = Cons.prems(7) and lim = Cons.prems(8)
  have ib: "item_back item L txt x" using Cons.prems(1) by simp
  have small: "\<not> length result \<ge> maximum_array_elements (cu_limits cu)" using Cons.prems(4) lim by simp
  let ?next = "close_or_comma (CHR '']'') array_comma path (result @ [x]) (vector_loop k' item path (result @ [x]))"
  have "reads_to (obind (item (length result) cu) (\<lambda>element.
      close_or_comma (CHR '']'') array_comma path (result @ [element])
        (vector_loop k' item path (result @ [element])))) (result @ x # xs) cu rest"
  proof (cases "xs = []")
    case True
    then have l: "left_text cu = txt x @ CHR '']'' # rest" using Cons.prems(6) by simp
    have "reads_to (item (length result) cu) x cu (CHR '']'' # rest)"
      using item_backD [OF ib l ok lim] by simp
    then show ?thesis
      by (rule reads_to_obind) (use True in \<open>auto dest!: arrives_ok intro!: close_hit\<close>)
  next
    case False
    let ?tail = "join_with (CHR '','') (map txt xs) @ CHR '']'' # rest"
    have l: "left_text cu = txt x @ CHR '','' # ?tail"
      using Cons.prems(6) False by (simp add: join_with_step)
    have it: "reads_to (item (length result) cu) x cu (CHR '','' # ?tail)"
      using item_backD [OF ib l ok lim] by simp
    obtain c r where cr: "?tail = c # r" "value_start c"
      using join_start [of xs "txt"] False Cons.prems(2) by (cases xs) auto
    show ?thesis
    proof (rule reads_to_obind [OF it])
      fix cu1
      assume a: "arrives cu (CHR '','' # ?tail) cu1"
      show "reads_to (?next cu1) (result @ x # xs) cu1 rest"
      proof (rule comma_hit [of _ c r])
        show "left_text cu1 = CHR '','' # c # r" using a cr(1) by (simp add: arrives_def)
        show "\<not> is_json_space c" using cr(2) by (simp add: value_start_def)
        fix cu2
        assume b: "arrives cu1 (c # r) cu2"
        have "reads_to (vector_loop k' item path (result @ [x]) cu2) ((result @ [x]) @ xs) cu2 rest"
        proof (rule Cons.IH)
          show "left_text cu2 = ?tail" using b cr(1) by (simp add: arrives_def)
          show "cursor_ok cu2" "cu_limits cu2 = L" using a b lim by (simp_all add: arrives_def)
        qed (use Cons.prems k False in simp_all)
        then show "reads_to (vector_loop k' item path (result @ [x]) cu2) (result @ x # xs) cu2 rest" by simp
      qed simp
    qed
  qed
  with small k show ?case by simp
qed simp

lemma array_loop_back:
  assumes "\<forall>x \<in> set vs. item_back item L txt x" "\<forall>x \<in> set vs. \<exists>c r. txt x = c # r \<and> value_start c"
    "vs \<noteq> []" "left_text cu = join_with (CHR '','') (map txt vs) @ CHR '']'' # rest" "cursor_ok cu" "cu_limits cu = L"
  shows "reads_to (array_loop (length vs) item path result cu) (result @ vs) cu (CHR '']'' # rest)"
  using assms
proof (induction vs arbitrary: result cu)
  case (Cons x xs)
  note ok = Cons.prems(5) and lim = Cons.prems(6)
  have ib: "item_back item L txt x" using Cons.prems(1) by simp
  show ?case
  proof (cases "xs = []")
    case True
    then have l: "left_text cu = txt x @ CHR '']'' # rest" using Cons.prems(4) by simp
    have "reads_to (item (length result) cu) x cu (CHR '']'' # rest)"
      using item_backD [OF ib l ok lim] by simp
    then show ?thesis unfolding list.size add_0 array_loop.simps
      using True by (auto intro!: reads_to_obind [where m = "item (length result) cu"] reads_to_Done arrives_refl
          simp: arrives_def skip_none)
  next
    case False
    let ?tail = "join_with (CHR '','') (map txt xs) @ CHR '']'' # rest"
    have l: "left_text cu = txt x @ CHR '','' # ?tail"
      using Cons.prems(4) False by (simp add: join_with_step)
    have it: "reads_to (item (length result) cu) x cu (CHR '','' # ?tail)"
      using item_backD [OF ib l ok lim] by simp
    obtain c r where cr: "?tail = c # r" "value_start c"
      using join_start [of xs "txt"] False Cons.prems(2) by (cases xs) auto
    have "reads_to (obind (item (length result) cu) (\<lambda>element cu1.
       let cu2 = skip_whitespace cu1 in
       if length xs \<noteq> 0 then
         (case consume (CHR '','') cu2 of
            (False, cu3) \<Rightarrow> Fail (cursor_error cu3 ''array_size''
                               ''JSON array has fewer elements than the fixed array size.'' path)
          | (True, cu3) \<Rightarrow> array_loop (length xs) item path (result @ [element]) (skip_whitespace cu3))
       else array_loop (length xs) item path (result @ [element]) cu2)) (result @ x # xs) cu (CHR '']'' # rest)"
    proof (rule reads_to_obind [OF it])
      fix cu1
      assume a: "arrives cu (CHR '','' # ?tail) cu1"
      have l1: "left_text cu1 = CHR '','' # ?tail" using a by (simp add: arrives_def)
      note h = consume_hit [OF l1]
      have s1: "skip_whitespace cu1 = cu1" using skip_none [OF l1] by simp
      have l2: "left_text (advance 1 cu1) = c # r" using h cr(1) by (simp add: arrives_def)
      have s2: "skip_whitespace (advance 1 cu1) = advance 1 cu1"
        using skip_none [OF l2] cr(2) by (simp add: value_start_def)
      have "reads_to (array_loop (length xs) item path (result @ [x]) (advance 1 cu1)) ((result @ [x]) @ xs)
          (advance 1 cu1) (CHR '']'' # rest)"
        by (rule Cons.IH) (use Cons.prems False h a l2 cr(1) lim in \<open>auto simp: arrives_def\<close>)
      then have "reads_to (array_loop (length xs) item path (result @ [x]) (advance 1 cu1)) (result @ x # xs) cu1 (CHR '']'' # rest)"
        using reads_to_later h by fastforce
      with False h s1 s2 show "reads_to (let cu2 = skip_whitespace cu1 in
       if length xs \<noteq> 0 then
         (case consume (CHR '','') cu2 of
            (False, cu3) \<Rightarrow> Fail (cursor_error cu3 ''array_size''
                               ''JSON array has fewer elements than the fixed array size.'' path)
          | (True, cu3) \<Rightarrow> array_loop (length xs) item path (result @ [x]) (skip_whitespace cu3))
       else array_loop (length xs) item path (result @ [x]) cu2) (result @ x # xs) cu1 (CHR '']'' # rest)"
        by (simp add: Let_def)
    qed
    then show ?thesis by simp
  qed
qed simp

section \<open>Objects\<close>

lemma parse_quoted:
  assumes "left_text cu = quoted s @ rest" "valid_utf8 s" "length s \<le> maximum_string_bytes (cu_limits cu)"
    "cursor_ok cu"
  shows "\<exists>p. ps_view p = s \<and> reads_to (parse_string path cu) p cu rest"
proof -
  have l: "left_text cu = CHR 0x22 # escaped s @ CHR 0x22 # rest" using assms(1) by (simp add: quoted_def)
  obtain p where "parse_string path cu = Done p (advance (length (quoted s)) cu)" "ps_view p = s"
    using parse_string_escaped [OF l assms(2,3)] by (auto simp: quoted_def)
  then show ?thesis using arrives_advance [OF assms(1,4)] by (auto simp: reads_to_def)
qed

lemma colon_hit:
  assumes "left_text cu = CHR '':'' # r" "\<And>cu'. arrives cu r cu' \<Longrightarrow> reads_to (after cu') w cu' q"
  shows "reads_to (expect_colon path after cu) w cu q"
proof -
  have c: "consume (CHR '':'') cu = (True, advance 1 cu)" "arrives cu r (advance 1 cu)"
    using consume_hit [OF assms(1)] by simp_all
  with skip_none [OF assms(1)] have "expect_colon path after cu = after (advance 1 cu)"
    by (simp add: expect_colon_def)
  with assms(2) [OF c(2)] reads_to_later [OF c(2)] show ?thesis by simp
qed

lemma read_named_field_skip:
  "\<forall>g \<in> set gs1. field_wire_name g \<noteq> name \<Longrightarrow>
   read_named_field rv (gs1 @ gs2) j name path depth ob cu =
     read_named_field rv gs2 (j + length gs1) name path depth ob cu"
  by (induction gs1 arbitrary: j) auto

text \<open>The object after its first \<open>i\<close> fields.\<close>

definition filled :: "jvalue list \<Rightarrow> nat \<Rightarrow> partial_object" where
  "filled vs i = (take i vs @ replicate (length vs - i) V_null, replicate i True @ replicate (length vs - i) False)"

lemma filled_step:
  "i < length vs \<Longrightarrow> ((fst (filled vs i))[i := vs ! i], (snd (filled vs i))[i := True]) = filled vs (Suc i)"
proof -
  assume i: "i < length vs"
  then obtain d where d: "length vs - i = Suc d" "length vs - Suc i = d" by (metis Suc_diff_Suc)
  have t: "replicate i True @ True # r = True # replicate i True @ r" for r
    using replicate_app_Cons_same [of i True r] by simp
  from i d t show ?thesis
    by (simp add: filled_def list_update_append take_Suc_conv_app_nth)
qed

lemma filled_unseen: "i < length vs \<Longrightarrow> \<not> snd (filled vs i) ! i"
  by (simp add: filled_def nth_append)

lemma finish_all_seen:
  "\<forall>i < length fs. snd ob ! (index + i) \<Longrightarrow> finish_missing_fields fs index ob path off = Inr (fst ob)"
proof (induction fs arbitrary: index)
  case (Cons f fs)
  have "snd ob ! index" using Cons.prems by force
  moreover have "\<forall>i < length fs. snd ob ! (index + 1 + i)" using Cons.prems by force
  ultimately show ?case using Cons.IH [of "index + 1"] by simp
qed simp

definition value_back :: "type_table \<Rightarrow> read_limits \<Rightarrow> reader \<Rightarrow> nat \<Rightarrow> ctype \<Rightarrow> jvalue \<Rightarrow> bool" where
  "value_back T L rv depth t v \<longleftrightarrow> (\<forall>path cu rest. left_text cu = json_text T t v @ rest \<longrightarrow> cursor_ok cu \<longrightarrow>
     cu_limits cu = L \<longrightarrow> number_ends rest \<longrightarrow> reads_to (rv t depth path cu) v cu rest)"

lemma value_backD:
  "value_back T L rv depth t v \<Longrightarrow> left_text cu = json_text T t v @ rest \<Longrightarrow> cursor_ok cu \<Longrightarrow>
   cu_limits cu = L \<Longrightarrow> number_ends rest \<Longrightarrow> reads_to (rv t depth path cu) v cu rest"
  by (simp add: value_back_def)

definition field_back :: "type_table \<Rightarrow> read_limits \<Rightarrow> reader \<Rightarrow> nat \<Rightarrow> field_info \<Rightarrow> jvalue \<Rightarrow> bool" where
  "field_back T L rv depth f x \<longleftrightarrow> value_back T L rv (depth + 1) (fi_type f) x \<and> valid_utf8 (field_wire_name f) \<and>
     length (field_wire_name f) \<le> maximum_string_bytes L \<and> validate_field f x [] 0 = None \<and>
     (\<exists>c r. json_text T (fi_type f) x = c # r \<and> value_start c)"

lemma read_named_field_back:
  assumes "distinct (map field_wire_name fs)" "i < length fs" "length vs = length fs"
    "field_back T L rv depth (fs ! i) (vs ! i)"
    "left_text cu = json_text T (fi_type (fs ! i)) (vs ! i) @ rest" "cursor_ok cu" "cu_limits cu = L" "number_ends rest"
  shows "reads_to (read_named_field rv fs 0 (field_wire_name (fs ! i)) path (depth + 1) (filled vs i) cu)
     (True, filled vs (Suc i)) cu rest"
proof -
  let ?f = "fs ! i" let ?n = "field_wire_name (fs ! i)"
  have fs: "fs = take i fs @ ?f # drop (Suc i) fs" using assms(2) by (rule id_take_nth_drop)
  have "\<forall>g \<in> set (take i fs). field_wire_name g \<noteq> ?n"
    using assms(1,2) by (auto simp: in_set_conv_nth distinct_conv_nth)
  from read_named_field_skip [OF this, of rv "?f # drop (Suc i) fs" 0] fs assms(2)
  have eq: "read_named_field rv fs 0 ?n path (depth + 1) (filled vs i) cu =
      read_named_field rv (?f # drop (Suc i) fs) i ?n path (depth + 1) (filled vs i) cu" by simp
  have "reads_to (rv (fi_type ?f) (depth + 1) (child_path path ?n) cu) (vs ! i) cu rest"
    using assms(4-8) by (auto simp: field_back_def intro: value_backD)
  moreover have "validate_field ?f (vs ! i) (child_path path ?n) (cu_position cu) = None"
    using assms(4) validate_field_path [of ?f "vs ! i" _ "cu_position cu" "[]" 0] by (simp add: field_back_def)
  ultimately show ?thesis
    unfolding eq using filled_unseen [of i vs] filled_step [of i vs] assms(2,3)
    by (auto simp: Let_def reads_to_def)
qed

lemma read_member_back:
  assumes "distinct (map field_wire_name fs)" "i < length fs" "length vs = length fs"
    "field_back T L rv depth (fs ! i) (vs ! i)"
    "left_text cu = member_text T (fs ! i) (vs ! i) @ rest" "cursor_ok cu" "cu_limits cu = L" "number_ends rest"
  shows "reads_to (read_member rv skip fs depth path (filled vs i) cu) (filled vs (Suc i)) cu rest"
proof -
  let ?f = "fs ! i" let ?n = "field_wire_name (fs ! i)" let ?v = "json_text T (fi_type (fs ! i)) (vs ! i)"
  note fb = assms(4) [unfolded field_back_def]
  have l: "left_text cu = quoted ?n @ CHR '':'' # ?v @ rest" using assms(5) by (simp add: member_text_def)
  obtain p where p: "ps_view p = ?n" "reads_to (parse_string path cu) p cu (CHR '':'' # ?v @ rest)"
    using parse_quoted [OF l] fb assms(6,7) by blast
  obtain c r where cr: "?v = c # r" "value_start c" using fb by blast
  show ?thesis unfolding read_member_def
  proof (rule reads_to_obind [OF p(2)])
    fix cu1
    assume a: "arrives cu (CHR '':'' # ?v @ rest) cu1"
    let ?rest = "\<lambda>(known, ob') cu3.
             if \<not> known then
               (let unknown_path = child_path path (ps_view p) in
                if reject_unknown_fields (cu_limits cu3)
                then Fail (cursor_error cu3 ''unknown_field''
                       ''JSON object contains an unknown field.'' unknown_path)
                else obind (skip unknown_path cu3) (\<lambda>_. Done ob'))
             else Done ob' cu3"
    show "reads_to (expect_colon path (\<lambda>cu2.
         obind (read_named_field rv fs 0 (ps_view p) path (depth + 1) (filled vs i) (skip_whitespace cu2)) ?rest) cu1)
       (filled vs (Suc i)) cu1 rest"
    proof (rule colon_hit)
      show "left_text cu1 = CHR '':'' # ?v @ rest" using a by (simp add: arrives_def)
      fix cu2
      assume b: "arrives cu1 (?v @ rest) cu2"
      have l2: "left_text cu2 = ?v @ rest" "cursor_ok cu2" "cu_limits cu2 = L"
        using a b assms(7) by (simp_all add: arrives_def)
      have s: "skip_whitespace cu2 = cu2"
        using skip_none [of cu2 c "r @ rest"] l2(1) cr by (simp add: value_start_def)
      show "reads_to (obind (read_named_field rv fs 0 (ps_view p) path (depth + 1) (filled vs i) (skip_whitespace cu2)) ?rest)
          (filled vs (Suc i)) cu2 rest"
        unfolding s p(1)
        by (rule reads_to_obind [OF read_named_field_back [OF assms(1-4) l2 assms(8)]])
          (auto simp: arrives_def intro!: reads_to_Done)
    qed
  qed
qed

lemma quoted_start: "\<exists>r. member_text T f x = CHR 0x22 # r"
  by (simp add: member_text_def quoted_def)

lemma object_loop_back:
  assumes dist: "distinct (map field_wire_name fs)" and len: "length vs = length fs"
    and fb: "\<forall>i < length fs. field_back T L rv depth (fs ! i) (vs ! i)"
    and "i < length fs" "members + (length fs - i) \<le> maximum_object_members L" "length fs - i \<le> k"
    "left_text cu = join_with (CHR '','') (map (\<lambda>(f, x). member_text T f x) (drop i (zip fs vs))) @ CHR ''}'' # rest"
    "cursor_ok cu" "cu_limits cu = L"
  shows "reads_to (object_loop k (read_member rv skip fs depth path) members path (filled vs i) cu)
     (filled vs (length vs)) cu rest"
  using assms(4-)
proof (induction "length fs - i" arbitrary: i k members cu)
  case (Suc n)
  obtain k' where k: "k = Suc k'" using Suc.prems(1,3) by (cases k) simp_all
  note ok = Suc.prems(5) and lim = Suc.prems(6)
  have small: "\<not> members + 1 > maximum_object_members (cu_limits cu)" using Suc.prems(1,2) lim by simp
  have zi: "drop i (zip fs vs) = (fs ! i, vs ! i) # drop (Suc i) (zip fs vs)"
    using Suc.prems(1) len Cons_nth_drop_Suc [of i "zip fs vs"] by simp
  have fbi: "field_back T L rv depth (fs ! i) (vs ! i)" using fb Suc.prems(1) by blast
  let ?mt = "map (\<lambda>(f, x). member_text T f x)"
  let ?again = "\<lambda>ob1. object_loop k' (read_member rv skip fs depth path) (members + 1) path ob1"
  have "reads_to (obind (read_member rv skip fs depth path (filled vs i) cu)
      (\<lambda>ob1. close_or_comma (CHR ''}'') object_comma path ob1 (?again ob1))) (filled vs (length vs)) cu rest"
  proof (cases "Suc i < length fs")
    case False
    then have "drop (Suc i) (zip fs vs) = []" "Suc i = length vs" using Suc.prems(1) len by simp_all
    then have l: "left_text cu = member_text T (fs ! i) (vs ! i) @ CHR ''}'' # rest"
      using Suc.prems(4) zi by simp
    show ?thesis
      by (rule reads_to_obind [OF read_member_back [OF dist Suc.prems(1) len fbi l ok lim]])
        (use \<open>Suc i = length vs\<close> in \<open>auto dest!: arrives_ok intro!: close_hit\<close>)
  next
    case True
    let ?tail = "join_with (CHR '','') (?mt (drop (Suc i) (zip fs vs))) @ CHR ''}'' # rest"
    have ne: "?mt (drop (Suc i) (zip fs vs)) \<noteq> []" using True len by simp
    have l: "left_text cu = member_text T (fs ! i) (vs ! i) @ CHR '','' # ?tail"
      using Suc.prems(4) zi join_with_step [OF ne] by simp
    obtain r where r: "?tail = CHR 0x22 # r"
      using quoted_start [of T "fs ! Suc i" "vs ! Suc i"] True len Cons_nth_drop_Suc [of "Suc i" "zip fs vs"]
      by (auto simp: join_with_concat simp flip: Cons_nth_drop_Suc)
    show ?thesis
    proof (rule reads_to_obind [OF read_member_back [OF dist Suc.prems(1) len fbi l ok lim]])
      fix cu1
      assume a: "arrives cu (CHR '','' # ?tail) cu1"
      show "reads_to (close_or_comma (CHR ''}'') object_comma path (filled vs (Suc i)) (?again (filled vs (Suc i))) cu1)
          (filled vs (length vs)) cu1 rest"
      proof (rule comma_hit [of _ "CHR 0x22" r])
        show "left_text cu1 = CHR '','' # CHR 0x22 # r" using a r by (simp add: arrives_def)
        fix cu2
        assume b: "arrives cu1 (CHR 0x22 # r) cu2"
        show "reads_to (?again (filled vs (Suc i)) cu2) (filled vs (length vs)) cu2 rest"
        proof (rule Suc.hyps(1))
          show "left_text cu2 = ?tail" using b r by (simp add: arrives_def)
        qed (use Suc.hyps(2) Suc.prems True k a b lim in \<open>auto simp: arrives_def\<close>)
      qed simp_all
    qed simp
  qed
  with small k show ?case by simp
qed simp

section \<open>Scalars\<close>

lemma digit_char_zero: "d < 10 \<Longrightarrow> digit_char d = CHR ''0'' \<longleftrightarrow> d = 0"
proof -
  have z: "digit_char 0 = CHR ''0''" "digit_value (CHR ''0'') = 0" by code_simp+
  then show "d < 10 \<Longrightarrow> digit_char d = CHR ''0'' \<longleftrightarrow> d = 0" using digit_value_char [of d] by auto
qed

lemma show_nat_no_zero: "0 < n \<Longrightarrow> hd (show_nat n) \<noteq> CHR ''0''"
proof (induction n rule: show_nat.induct)
  case (1 n)
  show ?case
  proof (cases "n < 10")
    case True
    with "1.prems" show ?thesis by (simp add: show_nat.simps [of n] digit_char_zero)
  next
    case False
    then show ?thesis using 1 by (subst show_nat.simps) (simp add: hd_append)
  qed
qed

lemma json_number_show_int: "json_number (show_int i)"
proof -
  have "int_text (show_nat n)" for n
  proof (cases "n = 0")
    case True
    then show ?thesis by (simp add: int_text_def show_nat.simps [of 0] digit_char_zero)
  next
    case False
    then show ?thesis using show_nat_no_zero [of n] show_nat_digits [of n]
      by (auto simp: int_text_def digits_def list_all_iff)
  qed
  moreover have "show_int i = (if i < 0 then ''-'' else []) @ show_nat (nat \<bar>i\<bar>) @ [] @ []"
    by (simp add: show_int_def)
  moreover have "fraction_text []" "exponent_text []" by (simp_all add: fraction_text_def exponent_text_def)
  moreover have "(if i < 0 then ''-'' else []) = [] \<or> (if i < 0 then ''-'' else []) = ''-''" by simp
  ultimately show ?thesis unfolding json_number_def by blast
qed

lemma parse_enum_name:
  "distinct (map fst es) \<Longrightarrow> enum_name es i \<noteq> [] \<Longrightarrow> parse_enum es (enum_name es i) = Some i"
proof (induction es i rule: enum_name.induct)
  case (2 n c es v)
  have "enum_name es v \<in> fst ` set es" if "enum_name es v \<noteq> []" for es
    using that by (induction es v rule: enum_name.induct) auto
  with 2 show ?case by auto
qed simp

lemma read_integer_back:
  assumes "int_in_range sgnd w i" "left_text cu = show_int i @ rest" "cursor_ok cu" "number_ends rest"
  shows "reads_to (read_integer sgnd w path cu) (V_int i) cu rest"
  using parse_number_complete [OF assms(2) json_number_show_int assms(3,4)] from_chars_show_int [OF assms(1)]
    arrives_advance [OF assms(2,3)]
  by (simp add: read_integer_def reads_to_def)

lemma read_literal_back:
  assumes "left_text cu = s @ rest" "cursor_ok cu"
  shows "reads_to (consume_literal s path cu) () cu rest"
  using arrives_advance [OF assms] assms by (auto simp: consume_literal_def starts_with_left reads_to_def)

lemma read_bool_back:
  assumes "left_text cu = (if b then ''true'' else ''false'') @ rest" "cursor_ok cu"
  shows "reads_to (read_bool path cu) (V_bool b) cu rest"
  using assms read_literal_back [of cu "if b then ''true'' else ''false''" rest path]
  by (cases b) (auto simp: read_bool_def starts_with_left reads_to_def)

lemma read_text_back:
  assumes "left_text cu = quoted s @ rest" "valid_utf8 s" "length s \<le> maximum_string_bytes (cu_limits cu)"
    "cursor_ok cu" "\<And>p cu'. ps_view p = s \<Longrightarrow> f p cu' = Done v cu'"
  shows "reads_to (obind (parse_string path cu) f) v cu rest"
  using parse_quoted [OF assms(1-4), of path] assms(5) by (auto simp: reads_to_def)

lemma read_enum_back:
  assumes "left_text cu = quoted (enum_name (en_enumerators en) i) @ rest" "enum_ok L en i" "cu_limits cu = L"
    "cursor_ok cu"
  shows "reads_to (read_enum en path cu) (V_enum i) cu rest"
  unfolding read_enum_def
  by (rule read_text_back [OF assms(1)]) (use assms parse_enum_name in \<open>auto simp: enum_ok_def Let_def\<close>)

section \<open>Containers\<close>

lemma read_vector_back:
  assumes "\<forall>x \<in> set vs. value_back T L rv (depth + 1) t x" "\<forall>x \<in> set vs. \<exists>c r. json_text T t x = c # r \<and> value_start c"
    "depth < maximum_depth L" "length vs \<le> maximum_array_elements L"
    "left_text cu = ''['' @ join_with (CHR '','') (map (json_text T t) vs) @ '']'' @ rest" "cursor_ok cu" "cu_limits cu = L"
  shows "reads_to (read_vector rv t depth path cu) (V_list vs) cu rest"
proof -
  let ?j = "join_with (CHR '','') (map (json_text T t) vs) @ CHR '']'' # rest"
  have l: "left_text cu = CHR ''['' # ?j" using assms(5) by simp
  obtain cu1 where c1: "consume (CHR ''['') cu = (True, cu1)" "arrives cu ?j cu1" using consume_hit [OF l] by blast
  have ok: "cursor_ok cu1" "cu_limits cu1 = L" "left_text cu1 = ?j" using c1 assms(7) by (simp_all add: arrives_def)
  have "reads_to (case consume (CHR '']'') (skip_whitespace cu1) of
          (True, cu2) \<Rightarrow> Done (V_list []) cu2
        | (False, cu2) \<Rightarrow> obind (vector_loop (loop_bound cu2) (\<lambda>index. rv t (depth + 1) (element_path path index)) path [] cu2)
            (\<lambda>vs cu3. Done (V_list vs) cu3)) (V_list vs) cu1 rest"
  proof (cases "vs = []")
    case True
    then have "left_text cu1 = CHR '']'' # rest" using ok(3) by simp
    with consume_hit [OF this] skip_none [OF this] True show ?thesis by (simp add: reads_to_def)
  next
    case False
    obtain c r where cr: "?j = c # r" "value_start c"
      using join_start [of vs "json_text T t"] False assms(2) by (cases vs) auto
    have s: "skip_whitespace cu1 = cu1" "consume (CHR '']'') cu1 = (False, cu1)"
      using skip_none [of cu1 c r] consume_miss [of cu1 c r "CHR '']''"] ok(3) cr by (simp_all add: value_start_def)
    have item: "\<forall>x \<in> set vs. item_back (\<lambda>index. rv t (depth + 1) (element_path path index)) L (json_text T t) x"
      using assms(1) by (auto simp: item_back_def intro: value_backD)
    have "length vs \<le> Suc (length ?j)"
      by (induction vs) (auto simp: join_with_concat length_concat comp_def sum_list_Suc)
    then have "length vs \<le> loop_bound cu1"
      using ok(3) length_left_text [of cu1] by (simp add: loop_bound_def)
    from vector_loop_back [where result = "[]" and path = path, OF item assms(2) False _ this ok(3,1,2)] assms(4)
    have "reads_to (vector_loop (loop_bound cu1) (\<lambda>index. rv t (depth + 1) (element_path path index)) path [] cu1) vs cu1 rest"
      by simp
    with s show ?thesis by (auto intro!: reads_to_obind reads_to_Done arrives_refl simp: arrives_def)
  qed
  with c1 assms(3,7) show ?thesis by (auto simp: read_vector_def intro: reads_to_later)
qed

lemma read_array_back:
  assumes "\<forall>x \<in> set vs. value_back T L rv (depth + 1) t x" "\<forall>x \<in> set vs. \<exists>c r. json_text T t x = c # r \<and> value_start c"
    "depth < maximum_depth L" "length vs \<le> maximum_array_elements L"
    "left_text cu = ''['' @ join_with (CHR '','') (map (json_text T t) vs) @ '']'' @ rest" "cursor_ok cu" "cu_limits cu = L"
  shows "reads_to (read_array rv t (length vs) depth path cu) (V_list vs) cu rest"
proof -
  let ?j = "join_with (CHR '','') (map (json_text T t) vs) @ CHR '']'' # rest"
  have l: "left_text cu = CHR ''['' # ?j" using assms(5) by simp
  obtain cu1 where c1: "consume (CHR ''['') cu = (True, cu1)" "arrives cu ?j cu1" using consume_hit [OF l] by blast
  have ok: "cursor_ok cu1" "cu_limits cu1 = L" "left_text cu1 = ?j" using c1 assms(7) by (simp_all add: arrives_def)
  show ?thesis
  proof (cases "vs = []")
    case True
    then have l1: "left_text cu1 = CHR '']'' # rest" using ok(3) by simp
    have "reads_to (Done (V_list []) (advance 1 cu1)) (V_list vs) cu1 rest"
      using consume_hit [OF l1] True by (simp add: reads_to_def)
    with consume_hit [OF l1] skip_none [OF l1] True c1 assms(3,7) ok show ?thesis
      by (auto simp: read_array_def intro: reads_to_later)
  next
    case False
    obtain c r where cr: "?j = c # r" "value_start c"
      using join_start [of vs "json_text T t"] False assms(2) by (cases vs) auto
    have s: "skip_whitespace cu1 = cu1" "consume (CHR '']'') cu1 = (False, cu1)"
      using skip_none [of cu1 c r] consume_miss [of cu1 c r "CHR '']''"] ok(3) cr by (simp_all add: value_start_def)
    have item: "\<forall>x \<in> set vs. item_back (\<lambda>index. rv t (depth + 1) (element_path path index)) L (json_text T t) x"
      using assms(1) by (auto simp: item_back_def intro: value_backD)
    have "reads_to (array_loop (length vs) (\<lambda>index. rv t (depth + 1) (element_path path index)) path [] cu1) vs cu1 (CHR '']'' # rest)"
      using array_loop_back [where result = "[]" and path = path, OF item assms(2) False ok(3,1,2)] by simp
    then have "reads_to (obind (array_loop (length vs) (\<lambda>index. rv t (depth + 1) (element_path path index)) path [] cu1)
        (\<lambda>vs cu3. case consume (CHR '']'') cu3 of
            (False, cu4) \<Rightarrow> Fail (cursor_error cu4 ''array_size''
               ''JSON array has more elements than the fixed array size.'' path)
          | (True, cu4) \<Rightarrow> Done (V_list vs) cu4)) (V_list vs) cu1 rest"
    proof (rule reads_to_obind)
      fix cu2
      assume "arrives cu1 (CHR '']'' # rest) cu2"
      then have "left_text cu2 = CHR '']'' # rest" by (simp add: arrives_def)
      from consume_hit [OF this]
      show "reads_to (case consume (CHR '']'') cu2 of
            (False, cu4) \<Rightarrow> Fail (cursor_error cu4 ''array_size''
               ''JSON array has more elements than the fixed array size.'' path)
          | (True, cu4) \<Rightarrow> Done (V_list vs) cu4) (V_list vs) cu2 rest"
        by (simp add: reads_to_def)
    qed
    with s c1 assms(3,4,7) ok False show ?thesis
      by (auto simp: read_array_def intro: reads_to_later)
  qed
qed

lemma read_object_back:
  assumes dist: "distinct (map field_wire_name fs)" and len: "length vs = length fs"
    and fb: "\<forall>i < length fs. field_back T L rv depth (fs ! i) (vs ! i)"
    and lims: "depth < maximum_depth L" "length vs \<le> maximum_object_members L"
    and l: "left_text cu = ''{'' @ join_with (CHR '','') (map (\<lambda>(f, x). member_text T f x) (zip fs vs)) @ ''}'' @ rest"
    and "cursor_ok cu" "cu_limits cu = L"
  shows "reads_to (read_object rv skip fs depth path cu) (V_object vs) cu rest"
proof -
  let ?j = "join_with (CHR '','') (map (\<lambda>(f, x). member_text T f x) (zip fs vs)) @ CHR ''}'' # rest"
  let ?ob = "(replicate (length fs) V_null, replicate (length fs) False)"
  have l: "left_text cu = CHR ''{'' # ?j" using l by simp
  obtain cu1 where c1: "consume (CHR ''{'') cu = (True, cu1)" "arrives cu ?j cu1" using consume_hit [OF l] by blast
  have ok: "cursor_ok cu1" "cu_limits cu1 = L" "left_text cu1 = ?j" using c1 assms(8) by (simp_all add: arrives_def)
  have f0: "?ob = filled vs 0" using len by (simp add: filled_def)
  have members: "reads_to (case consume (CHR ''}'') (skip_whitespace cu1) of
                  (True, cu2) \<Rightarrow> Done ?ob cu2
                | (False, cu2) \<Rightarrow>
                    object_loop (loop_bound cu2) (read_member rv skip fs depth path) 0 path ?ob cu2)
      (filled vs (length vs)) cu1 rest"
  proof (cases "fs = []")
    case True
    then have l1: "left_text cu1 = CHR ''}'' # rest" using ok(3) by simp
    with consume_hit [OF l1] skip_none [OF l1] True len show ?thesis by (simp add: reads_to_def filled_def)
  next
    case False
    then have ne: "zip fs vs \<noteq> []" using len by (cases vs) (auto simp: neq_Nil_conv)
    then obtain f x zs where z: "zip fs vs = (f, x) # zs" by (cases "zip fs vs") auto
    obtain r where cr: "?j = CHR 0x22 # r"
      using quoted_start [of T f x] unfolding z by (auto simp: join_with_concat)
    have s: "skip_whitespace cu1 = cu1" "consume (CHR ''}'') cu1 = (False, cu1)"
      using skip_none [of cu1 _ r] consume_miss [of cu1 _ r "CHR ''}''"] ok(3) cr by simp_all
    have "length zs \<le> Suc (length (join_with (CHR '','') (map (\<lambda>(f, x). member_text T f x) zs)))" for zs
      by (induction zs) (auto simp: join_with_concat length_concat comp_def sum_list_Suc)
    from this [of "zip fs vs"] have "length fs \<le> loop_bound cu1"
      using ok(3) length_left_text [of cu1] len by (simp add: loop_bound_def)
    with object_loop_back [OF dist len fb, of 0 0 "loop_bound cu1" cu1 rest skip path] False lims len ok s f0
    show ?thesis by simp
  qed
  have "reads_to (obind (case consume (CHR ''}'') (skip_whitespace cu1) of
                  (True, cu2) \<Rightarrow> Done ?ob cu2
                | (False, cu2) \<Rightarrow>
                    object_loop (loop_bound cu2) (read_member rv skip fs depth path) 0 path ?ob cu2)
                (\<lambda>ob cu3.
                  case finish_missing_fields fs 0 ob path (cu_position cu3) of
                    Inl e \<Rightarrow> Fail e
                  | Inr values \<Rightarrow> Done (V_object values) cu3)) (V_object vs) cu1 rest"
    by (rule reads_to_obind [OF members])
      (use len in \<open>auto simp: finish_all_seen filled_def arrives_def intro!: reads_to_Done\<close>)
  with c1 lims assms(8) show ?thesis by (auto simp: read_object_def Let_def intro: reads_to_later)
qed

section \<open>Values\<close>

lemma plain_back:
  assumes "value_fits L T t depth v" "\<forall>t'. t \<noteq> C_optional t'"
    "\<And>path cu rest. left_text cu = json_text T t v @ rest \<Longrightarrow> cursor_ok cu \<Longrightarrow> cu_limits cu = L \<Longrightarrow> number_ends rest \<Longrightarrow>
       reads_to (read_plain (read_value n T) (skip_value n) T t depth path cu) v cu rest"
  shows "value_back T L (read_value (Suc n) T) depth t v"
  unfolding value_back_def
proof (intro allI impI)
  fix path cu rest
  assume l: "left_text cu = json_text T t v @ rest" "cursor_ok cu" "cu_limits cu = L" "number_ends rest"
  obtain c r where cr: "json_text T t v = c # r" "value_start c" "c \<noteq> CHR ''n''"
    using json_text_start [OF assms(1)] assms(2) by blast
  have "skip_whitespace cu = cu" using skip_none [of cu c "r @ rest"] l(1) cr by (simp add: value_start_def)
  moreover have "\<not> cursor_starts_with cu ''null''" using l(1) cr by (auto simp: starts_with_left)
  ultimately show "reads_to (read_value (Suc n) T t depth path cu) v cu rest"
    using assms(3) [OF l] by (simp add: read_value_plain [OF assms(2)])
qed

lemma optional_back:
  assumes "value_fits L T t depth x" "\<forall>t2. t \<noteq> C_optional t2" "value_back T L (read_value n T) depth t x"
  shows "value_back T L (read_value n T) depth (C_optional t) (V_some x)"
  unfolding value_back_def
proof (intro allI impI)
  fix path cu rest
  assume l: "left_text cu = json_text T (C_optional t) (V_some x) @ rest" "cursor_ok cu" "cu_limits cu = L" "number_ends rest"
  obtain c r where cr: "json_text T t x = c # r" "value_start c" "c \<noteq> CHR ''n''"
    using json_text_start [OF assms(1)] assms(2) by blast
  have "skip_whitespace cu = cu" using skip_none [of cu c "r @ rest"] l(1) cr by (simp add: value_start_def)
  moreover have "\<not> cursor_starts_with cu ''null''" using l(1) cr by (auto simp: starts_with_left)
  moreover have "reads_to (read_value n T t depth path cu) x cu rest" using value_backD [OF assms(3)] l by simp
  then have "reads_to (obind (read_value n T t depth path cu) (\<lambda>v. Done (V_some v))) (V_some x) cu rest"
    by (rule reads_to_obind) (auto simp: arrives_def intro!: reads_to_Done)
  ultimately show "reads_to (read_value n T (C_optional t) depth path cu) (V_some x) cu rest"
    by (simp add: read_value_optional)
qed

lemma null_back: "value_back T L (read_value n T) depth (C_optional t) V_null"
  unfolding value_back_def
proof (intro allI impI)
  fix path cu rest
  assume l: "left_text cu = json_text T (C_optional t) V_null @ rest" "cursor_ok cu" "cu_limits cu = L" "number_ends rest"
  have n: "left_text cu = ''null'' @ rest" using l(1) by simp
  have "skip_whitespace cu = cu" using skip_none [of cu "CHR ''n''" "''ull'' @ rest"] n by simp
  moreover have "cursor_starts_with cu ''null''" using n by (auto simp: starts_with_left)
  moreover have "reads_to (obind (consume_literal ''null'' path cu) (\<lambda>_. Done V_null)) V_null cu rest"
    by (rule reads_to_obind [OF read_literal_back [OF n l(2)]]) (auto simp: arrives_def intro!: reads_to_Done)
  ultimately show "reads_to (read_value n T (C_optional t) depth path cu) V_null cu rest"
    by (simp add: read_value_optional)
qed

lemma read_value_back:
  assumes "value_fits L T t depth v" "maximum_depth L < n + depth" "0 < n"
    "\<forall>name ob. T name = Some ob \<longrightarrow> distinct (map field_wire_name (ob_fields ob))"
  shows "value_back T L (read_value n T) depth t v"
  using assms
proof (induction arbitrary: n rule: value_fits_induct)
  case (string depth s)
  then obtain m where n: "n = Suc m" by (cases n) simp_all
  have f: "value_fits L T C_string depth (V_string s)" using string by (simp add: value_fits_simps)
  show ?case unfolding n
    by (rule plain_back [OF f]) (use string in \<open>auto simp: read_string_def intro!: read_text_back\<close>)
next
  case (bool depth b)
  then obtain m where n: "n = Suc m" by (cases n) simp_all
  have f: "value_fits L T C_bool depth (V_bool b)" by (simp add: value_fits_simps)
  show ?case unfolding n by (rule plain_back [OF f]) (use read_bool_back in auto)
next
  case (int depth sgnd w i)
  then obtain m where n: "n = Suc m" by (cases n) simp_all
  have f: "value_fits L T (C_int sgnd w) depth (V_int i)" using int by (simp add: value_fits_simps)
  show ?case unfolding n by (rule plain_back [OF f]) (use read_integer_back [OF int(2)] in auto)
next
  case (enum depth en i)
  then obtain m where n: "n = Suc m" by (cases n) simp_all
  have f: "value_fits L T (C_enum en) depth (V_enum i)" using enum by (simp add: value_fits_simps)
  show ?case unfolding n by (rule plain_back [OF f]) (use read_enum_back [OF _ enum(1)] in auto)
next
  case (null depth t)
  show ?case by (rule null_back)
next
  case (optional depth t x)
  then show ?case by (intro optional_back) auto
next
  case (list depth t t' vs)
  then obtain m where n: "n = Suc m" by (cases n) simp_all
  have f: "value_fits L T t depth (V_list vs)" using list.hyps list.IH by (auto simp: value_fits_list)
  have items: "\<forall>x \<in> set vs. value_back T L (read_value m T) (depth + 1) t' x"
    using list.IH list.prems list.hyps n by auto
  have starts: "\<forall>x \<in> set vs. \<exists>c r. json_text T t' x = c # r \<and> value_start c"
    using list.IH json_text_start by blast
  show ?case unfolding n
  proof (rule plain_back [OF f])
    fix path cu rest
    assume l: "left_text cu = json_text T t (V_list vs) @ rest" "cursor_ok cu" "cu_limits cu = L" "number_ends rest"
    from list.hyps(3)
    show "reads_to (read_plain (read_value m T) (skip_value m) T t depth path cu) (V_list vs) cu rest"
      using read_vector_back [OF items starts list.hyps(1,2) _ l(2,3), of rest path]
        read_array_back [OF items starts list.hyps(1,2) _ l(2,3), of rest path] l(1) by auto
  qed (use list.hyps(3) in auto)
next
  case (object depth name ob vs)
  then obtain m where n: "n = Suc m" by (cases n) simp_all
  have f: "value_fits L T (C_object name) depth (V_object vs)" using object.hyps object.IH by (auto simp: value_fits_object)
  have fb: "field_back T L (read_value m T) depth (ob_fields ob ! i) (vs ! i)" if "i < length (ob_fields ob)" for i
  proof -
    have mem: "(ob_fields ob ! i, vs ! i) \<in> set (zip (ob_fields ob) vs)"
      using that object.hyps(4) by (auto simp: set_zip)
    note ih = object.IH [OF mem]
    have "value_back T L (read_value m T) (depth + 1) (fi_type (ob_fields ob ! i)) (vs ! i)"
      using ih object.prems object.hyps(1) n by auto
    then show ?thesis using ih json_text_start [of L T _ "depth + 1"] unfolding field_back_def by blast
  qed
  have dist: "distinct (map field_wire_name (ob_fields ob))" using object.prems(3) object.hyps(3) by blast
  show ?case unfolding n
  proof (rule plain_back [OF f])
    fix path cu rest
    assume l: "left_text cu = json_text T (C_object name) (V_object vs) @ rest" "cursor_ok cu" "cu_limits cu = L"
    have "left_text cu = ''{'' @ join_with (CHR '','') (map (\<lambda>(f, x). member_text T f x) (zip (ob_fields ob) vs)) @ ''}'' @ rest"
      using l(1) object.hyps(3) by (simp add: json_text_object)
    from read_object_back [OF dist object.hyps(4) _ object.hyps(1,2) this l(2,3)] fb object.hyps(3)
    show "reads_to (read_plain (read_value m T) (skip_value m) T (C_object name) depth path cu) (V_object vs) cu rest"
      by simp
  qed simp
qed

lemma json_read_back:
  assumes "table_ok T" "value_fits limits T t 0 v"
  shows "\<exists>text. write_json T t v = Inr text \<and>
    (length text \<le> maximum_input_bytes limits \<longrightarrow> (\<exists>cu. read_json T t text limits = Done v cu))"
proof -
  let ?text = "json_text T t v"
  have w: "write_json T t v = Inr ?text" using writer_text [OF assms(2)] by (simp add: write_json_def)
  have "\<exists>cu. read_json T t ?text limits = Done v cu" if len: "length ?text \<le> maximum_input_bytes limits"
  proof -
    let ?cu = "\<lparr>cu_input = ?text, cu_limits = limits, cu_position = 0\<rparr>"
    have "\<forall>name ob. T name = Some ob \<longrightarrow> distinct (map field_wire_name (ob_fields ob))"
      using assms(1) by (auto simp: table_ok_def validate_input_schema_def validate_output_schema_iff)
    then have "value_back T limits (read_value (Suc (maximum_depth limits)) T) 0 t v"
      by (intro read_value_back [OF assms(2)]) simp_all
    then have "reads_to (read_value (Suc (maximum_depth limits)) T t 0 ''$'' ?cu) v ?cu []"
      by (rule value_backD) (simp_all add: left_text_def cursor_ok_def)
    then obtain cu1 where c: "read_value (Suc (maximum_depth limits)) T t 0 ''$'' ?cu = Done v cu1" "arrives ?cu [] cu1"
      by (auto simp: reads_to_def)
    then have "at_end cu1" "skip_whitespace cu1 = cu1"
      using left_text_Nil [of cu1] by (auto simp: arrives_def skip_whitespace.simps [of cu1])
    with c(1) len have "read_json T t ?text limits = Done v cu1"
      by (simp add: read_json_def Let_def)
    then show ?thesis by blast
  qed
  with w show ?thesis by blast
qed

text \<open>C7. Writing and reading JSON are inverse. For a table of types that compiles, whatever value of a
  type keeps to the reader's limits and its fields' constraints (\<open>value_fits\<close>: strings of UTF-8, integers in
  range, enumerators with a name, no floating-point number and no optional of an optional) is written without an exception, and the
  reader returns the same value from the text, whatever the other limits and the policy on unknown fields.\<close>

theorem json_roundtrip:
  assumes "table_ok T" "value_fits limits T t 0 v"
  shows "\<exists>text. write_json T t v = Inr text \<and>
    (length text \<le> maximum_input_bytes limits \<longrightarrow> (\<exists>cu. read_json T t text limits = Done v cu))"
  by (rule json_read_back [OF assms])

theorem json_roundtrip_witness:
  "\<exists>text. write_json sample_table (C_object ''Item'')
       (V_object [V_int 7, V_list [V_string ''a'', V_string []],
          V_some (V_object [V_int 8, V_list [], V_null])]) = Inr text \<and>
     (length text \<le> maximum_input_bytes default_limits \<longrightarrow>
      (\<exists>cu. read_json sample_table (C_object ''Item'') text default_limits =
         Done (V_object [V_int 7, V_list [V_string ''a'', V_string []],
          V_some (V_object [V_int 8, V_list [], V_null])]) cu))"
proof (rule json_roundtrip [OF sample_table_ok])
  have u: "valid_utf8 ''a''" "valid_utf8 []" "valid_utf8 ''id''" "valid_utf8 ''tags''" "valid_utf8 ''parent''" by code_simp+
  have w: "map field_wire_name sample_fields = [''id'', ''tags'', ''parent'']" by code_simp
  show "value_fits default_limits sample_table (C_object ''Item'') 0
     (V_object [V_int 7, V_list [V_string ''a'', V_string []], V_some (V_object [V_int 8, V_list [], V_null])])"
    using u w by (simp add: value_fits_simps value_fits_list value_fits_object sample_table_def sample_fields_def default_limits_def
        int_in_range_def validate_field_def constraint_valid_def size_constraint_def)
      (rule exI [of _ False], simp)
qed

end
