(* ===== verification/Flash_Binding_Meta.thy ===== *)
theory Flash_Binding_Meta
  imports Flash_Matcher
begin

text \<open>
  \<open>include/flash/binding/meta.hpp\<close>: where each parameter of an endpoint takes its value from, and the
  compile-time checks that tie parameters to the placeholders of the route. Everything here is
  \<open>consteval\<close>: \<open>None\<close> is a program that does not compile.
\<close>

section \<open>Sources and names of parameters\<close>

definition inferred_source :: source_annotation where
  "inferred_source = \<lparr>sa_source = Src_inferred, sa_wire_name = fixed_string_empty\<rparr>"

definition explicit_source :: "decl_info \<Rightarrow> nat \<Rightarrow> source_annotation option" where
  "explicit_source f index = (case parameter_at f index of None \<Rightarrow> None
    | Some p \<Rightarrow>
        (if \<not> length (pi_sources p) \<le> 1 then None
         else if length (pi_sources p) = 1 then Some (pi_sources p ! 0)
         else Some inferred_source))"

definition wire_name :: "decl_info \<Rightarrow> nat \<Rightarrow> string option" where
  "wire_name f index = (case explicit_source f index of None \<Rightarrow> None
    | Some source \<Rightarrow>
        (if \<not> fs_empty (sa_wire_name source) then Some (view (sa_wire_name source))
         else parameter_name f index))"

text \<open>The loop over the segments, shared by \<open>name_appears_in_route\<close> and \<open>route_has_wire_name\<close>.\<close>

fun names_placeholder :: "route_segment list \<Rightarrow> string \<Rightarrow> bool" where
  "names_placeholder [] name = False"
| "names_placeholder (s # ss) name =
     (if seg_kind s \<noteq> Literal \<and> view (seg_text s) = name then True else names_placeholder ss name)"

definition name_appears_in_route :: "decl_info \<Rightarrow> nat \<Rightarrow> bool option" where
  "name_appears_in_route f index =
     Option.bind (route_pattern_of f) (\<lambda>route.
     Option.bind (wire_name f index) (\<lambda>name. Some (names_placeholder (rp_segments route) name)))"

definition route_has_wire_name :: "decl_info \<Rightarrow> nat \<Rightarrow> bool option" where
  "route_has_wire_name f index =
     Option.bind (route_pattern_of f) (\<lambda>route.
     Option.bind (wire_name f index) (\<lambda>name. Some (names_placeholder (rp_segments route) name)))"

text \<open>\<open>std::is_aggregate_v\<close> of a parameter or result type.\<close>

fun is_aggregate :: "type_table \<Rightarrow> ctype \<Rightarrow> bool" where
  "is_aggregate T (C_object name) = (case T name of None \<Rightarrow> False | Some ob \<Rightarrow> ob_aggregate ob)"
| "is_aggregate T (C_array t n) = True"
| "is_aggregate T C_text = True"
| "is_aggregate T C_bytes = True"
| "is_aggregate T (C_created t) = True"
| "is_aggregate T (C_response t) = True"
| "is_aggregate T C_response_message = True"
| "is_aggregate T C_request_context = True"
| "is_aggregate T _ = False"

definition is_context_type :: "ctype \<Rightarrow> bool" where
  "is_context_type t = (t = C_request_context \<or> t = C_raw_request_view)"

definition is_state_wrapper :: "ctype \<Rightarrow> bool" where
  "is_state_wrapper t = (case t of C_state _ \<Rightarrow> True | _ \<Rightarrow> False)"

definition inferred_kind :: "type_table \<Rightarrow> ctype \<Rightarrow> http_method \<Rightarrow> source_kind" where
  "inferred_kind T t method =
     (if is_context_type t then Src_context
      else if is_state_wrapper t then Src_state
      else if is_aggregate T t \<and> t \<noteq> C_string then
        (if method = Post \<or> method = Put \<or> method = Patch then Src_body else Src_query)
      else Src_query)"

definition parameter_source :: "type_table \<Rightarrow> decl_info \<Rightarrow> nat \<Rightarrow> source_kind option" where
  "parameter_source T f index =
     Option.bind (explicit_source f index) (\<lambda>explicit.
       if sa_source explicit \<noteq> Src_inferred then Some (sa_source explicit)
       else
         Option.bind (name_appears_in_route f index) (\<lambda>appears.
           if appears then Some Src_path
           else
             Option.bind (parameter_at f index) (\<lambda>p.
             Option.bind (route_of f) (\<lambda>r. Some (inferred_kind T (pi_type p) (ra_method r))))))"

definition default_annotation_count :: "parameter_info \<Rightarrow> nat" where
  "default_annotation_count p = length (pi_defaults p)"

definition parameter_constraint :: "parameter_info \<Rightarrow> nat \<Rightarrow> constraint_annotation option" where
  "parameter_constraint p index =
     (if index < length (pi_constraints p) then Some (pi_constraints p ! index) else None)"

section \<open>The checks\<close>

text \<open>
  The inner loop of \<open>every_placeholder_is_bound_once\<close>: \<open>Some None\<close> is its early \<open>return false\<close>.
\<close>

fun placeholder_bindings :: "parameter_info list \<Rightarrow> string \<Rightarrow> nat \<Rightarrow> nat option option" where
  "placeholder_bindings [] text bindings = Some (Some bindings)"
| "placeholder_bindings (p # ps) text bindings =
     (if length (pi_sources p) > 1 then Some None
      else if length (pi_sources p) = 1 then
        (let source = pi_sources p ! 0 in
         case (if fs_empty (sa_wire_name source) then pi_identifier p else Some (view (sa_wire_name source))) of
           None \<Rightarrow> None
         | Some name \<Rightarrow>
             placeholder_bindings ps text
               (if sa_source source = Src_path \<and> name = text then bindings + 1 else bindings))
      else (case pi_identifier p of
           None \<Rightarrow> None
         | Some name \<Rightarrow> placeholder_bindings ps text (if name = text then bindings + 1 else bindings)))"

fun bound_once_loop :: "parameter_info list \<Rightarrow> route_segment list \<Rightarrow> bool option" where
  "bound_once_loop ps [] = Some True"
| "bound_once_loop ps (s # ss) =
     (if seg_kind s = Literal then bound_once_loop ps ss
      else (case placeholder_bindings ps (view (seg_text s)) 0 of
          None \<Rightarrow> None
        | Some None \<Rightarrow> Some False
        | Some (Some bindings) \<Rightarrow> if bindings \<noteq> 1 then Some False else bound_once_loop ps ss))"

definition every_placeholder_is_bound_once :: "decl_info \<Rightarrow> bool option" where
  "every_placeholder_is_bound_once f =
     Option.bind (route_pattern_of f) (\<lambda>route. bound_once_loop (d_parameters f) (rp_segments route))"

text \<open>The recursions over \<open>Index\<close>, with the number of parameters that are left.\<close>

fun every_explicit_path_exists :: "type_table \<Rightarrow> decl_info \<Rightarrow> nat \<Rightarrow> nat \<Rightarrow> bool option" where
  "every_explicit_path_exists T f index 0 = Some True"
| "every_explicit_path_exists T f index (Suc rest) =
     Option.bind (parameter_source T f index) (\<lambda>source.
     Option.bind (if source = Src_path then route_has_wire_name f index else Some True) (\<lambda>has.
       if \<not> has then Some False else every_explicit_path_exists T f (index + 1) rest))"

fun parameter_annotations_valid :: "parameter_info list \<Rightarrow> bool" where
  "parameter_annotations_valid [] = True"
| "parameter_annotations_valid (p # ps) =
     (if length (pi_sources p) > 1 \<or> default_annotation_count p > 1 then False
      else parameter_annotations_valid ps)"

fun body_parameter_count :: "type_table \<Rightarrow> decl_info \<Rightarrow> nat \<Rightarrow> nat \<Rightarrow> nat option" where
  "body_parameter_count T f index 0 = Some 0"
| "body_parameter_count T f index (Suc rest) =
     Option.bind (parameter_source T f index) (\<lambda>source.
       map_option (\<lambda>n. (if source = Src_body then 1 else 0) + n)
         (body_parameter_count T f (index + 1) rest))"

text \<open>All four assertions hold.\<close>

definition validate_endpoint_binding :: "type_table \<Rightarrow> decl_info \<Rightarrow> bool" where
  "validate_endpoint_binding T f \<longleftrightarrow>
     parameter_annotations_valid (d_parameters f) \<and>
     every_placeholder_is_bound_once f = Some True \<and>
     every_explicit_path_exists T f 0 (length (d_parameters f)) = Some True \<and>
     (case body_parameter_count T f 0 (length (d_parameters f)) of None \<Rightarrow> False | Some n \<Rightarrow> n \<le> 1)"

end
