(* ===== verification/Flash_Binding_Props.thy ===== *)
theory Flash_Binding_Props
  imports Flash_Binding_Meta Flash_Routing
begin

text \<open>
  What the checks of \<open>meta.hpp\<close> establish: in an endpoint that compiles, the placeholders of the route
  and the parameters taken from the path correspond one to one.
\<close>

lemma names_placeholder_iff:
  "names_placeholder ss name \<longleftrightarrow> (\<exists>s \<in> set ss. seg_kind s \<noteq> Literal \<and> view (seg_text s) = name)"
  by (induction ss) auto

text \<open>Whether a parameter is counted for a placeholder.\<close>

definition counts_for :: "string \<Rightarrow> parameter_info \<Rightarrow> bool" where
  "counts_for text p \<longleftrightarrow>
     (if length (pi_sources p) = 1 then
        sa_source (pi_sources p ! 0) = Src_path \<and>
        (if fs_empty (sa_wire_name (pi_sources p ! 0)) then pi_identifier p
         else Some (view (sa_wire_name (pi_sources p ! 0)))) = Some text
      else pi_identifier p = Some text)"

lemma placeholder_bindings_count:
  "placeholder_bindings ps text b = Some (Some k) \<Longrightarrow>
   k = b + length (filter (counts_for text) ps) \<and> (\<forall>p \<in> set ps. length (pi_sources p) \<le> 1)"
proof (induction ps arbitrary: b)
  case (Cons p ps)
  have small: "length (pi_sources p) \<le> 1" using Cons.prems by (auto split: if_splits)
  have "placeholder_bindings ps text (if counts_for text p then b + 1 else b) = Some (Some k)"
    using Cons.prems small
    by (cases "length (pi_sources p) = 1")
      (auto simp: counts_for_def [of "text" p] Let_def split: option.splits if_splits)
  from Cons.IH [OF this] small show ?case by simp
qed simp

lemma bound_once_loopD:
  "bound_once_loop ps ss = Some True \<Longrightarrow> s \<in> set ss \<Longrightarrow> seg_kind s \<noteq> Literal \<Longrightarrow>
   placeholder_bindings ps (view (seg_text s)) 0 = Some (Some 1)"
  by (induction ps ss rule: bound_once_loop.induct) (auto split: if_splits option.splits)

lemma every_explicit_path_existsD:
  "every_explicit_path_exists T f i rest = Some True \<Longrightarrow> i \<le> j \<Longrightarrow> j < i + rest \<Longrightarrow>
   parameter_source T f j = Some Src_path \<Longrightarrow> route_has_wire_name f j = Some True"
proof (induction T f i rest rule: every_explicit_path_exists.induct)
  case (2 T f i rest)
  obtain source where s: "parameter_source T f i = Some source" using "2.prems"(1) by (auto simp: bind_eq_Some_conv)
  obtain has where h: "(if source = Src_path then route_has_wire_name f i else Some True) = Some has"
    using "2.prems"(1) s by (auto simp: bind_eq_Some_conv)
  have r: "has" "every_explicit_path_exists T f (i + 1) rest = Some True"
    using "2.prems"(1) s h by (auto split: if_splits)
  show ?case
  proof (cases "j = i")
    case True
    with s h r "2.prems"(4) show ?thesis by simp
  next
    case False
    with "2.IH" [OF s h _ r(2)] r(1) "2.prems" show ?thesis by simp
  qed
qed simp

text \<open>The builders of annotations never produce the inferred kind.\<close>

definition explicit_kinds :: "decl_info \<Rightarrow> bool" where
  "explicit_kinds f \<longleftrightarrow> (\<forall>p \<in> set (d_parameters f). \<forall>s \<in> set (pi_sources p). sa_source s \<noteq> Src_inferred)"

lemma parameter_at_nth: "parameter_at f i = Some p \<longleftrightarrow> d_is_function f \<and> i < length (d_parameters f) \<and> d_parameters f ! i = p"
  by (auto simp: parameter_at_def)

lemma counts_for_iff:
  assumes "parameter_at f i = Some p" "length (pi_sources p) \<le> 1" "explicit_kinds f"
    "route_pattern_of f = Some route" "names_placeholder (rp_segments route) text"
  shows "counts_for text p \<longleftrightarrow> parameter_source T f i = Some Src_path \<and> wire_name f i = Some text"
proof (cases "pi_sources p")
  case Nil
  have "wire_name f i = pi_identifier p"
    using assms(1) Nil by (simp add: wire_name_def explicit_source_def inferred_source_def parameter_name_def
        fs_empty_def fixed_string_empty_def)
  moreover have "parameter_source T f i = Some Src_path" if "pi_identifier p = Some text"
    using assms(1,4,5) Nil that calculation
    by (simp add: parameter_source_def explicit_source_def inferred_source_def name_appears_in_route_def)
  ultimately show ?thesis using Nil by (auto simp: counts_for_def)
next
  case (Cons s ss)
  then have s: "pi_sources p = [s]" using assms(2) by simp
  have "p \<in> set (d_parameters f)" using assms(1) by (auto simp: parameter_at_nth)
  then have k: "sa_source s \<noteq> Src_inferred" using assms(3) s by (auto simp: explicit_kinds_def)
  have "wire_name f i = (if fs_empty (sa_wire_name s) then pi_identifier p else Some (view (sa_wire_name s)))"
    using assms(1) s by (simp add: wire_name_def explicit_source_def parameter_name_def)
  moreover have "parameter_source T f i = Some (sa_source s)"
    using assms(1) s k by (simp add: parameter_source_def explicit_source_def)
  ultimately show ?thesis using s by (simp add: counts_for_def)
qed

text \<open>C18. In an endpoint that compiles, the placeholders of the route and the parameters taken from the
  path correspond one to one: every placeholder is the name of exactly one path parameter, and every path
  parameter names a placeholder. (Explicit source annotations are those of the builders, which never leave
  the kind open.)\<close>

theorem placeholders_bound_once:
  assumes "validate_endpoint_binding T f" "explicit_kinds f" "d_is_function f" "route_pattern_of f = Some route"
  shows "(\<forall>text. names_placeholder (rp_segments route) text \<longrightarrow>
      (\<exists>!i. i < length (d_parameters f) \<and> parameter_source T f i = Some Src_path \<and> wire_name f i = Some text)) \<and>
    (\<forall>i < length (d_parameters f). parameter_source T f i = Some Src_path \<longrightarrow>
      (\<exists>text. wire_name f i = Some text \<and> names_placeholder (rp_segments route) text))"
proof (intro conjI allI impI)
  fix nm
  assume n: "names_placeholder (rp_segments route) nm"
  then obtain s where s: "s \<in> set (rp_segments route)" "seg_kind s \<noteq> Literal" "view (seg_text s) = nm"
    by (auto simp: names_placeholder_iff)
  have "bound_once_loop (d_parameters f) (rp_segments route) = Some True"
    using assms(1,4) by (simp add: validate_endpoint_binding_def every_placeholder_is_bound_once_def)
  from bound_once_loopD [OF this s(1,2)] s(3)
  have "placeholder_bindings (d_parameters f) nm 0 = Some (Some 1)" by simp
  note count = placeholder_bindings_count [OF this]
  have one: "length (filter (counts_for nm) (d_parameters f)) = 1" using count by simp
  have small: "\<forall>p \<in> set (d_parameters f). length (pi_sources p) \<le> 1" by (rule conjunct2 [OF count])
  have iff: "counts_for nm (d_parameters f ! i) \<longleftrightarrow> parameter_source T f i = Some Src_path \<and> wire_name f i = Some nm"
    if "i < length (d_parameters f)" for i
    using counts_for_iff [OF _ _ assms(2,4) n, of i "d_parameters f ! i" T] that small assms(3)
    by (simp add: parameter_at_nth)
  have "card {i. i < length (d_parameters f) \<and> counts_for nm (d_parameters f ! i)} = 1"
    using one by (simp add: length_filter_conv_card)
  then obtain i where "{i. i < length (d_parameters f) \<and> counts_for nm (d_parameters f ! i)} = {i}"
    by (rule card_1_singletonE)
  then have "\<And>j. (j < length (d_parameters f) \<and> counts_for nm (d_parameters f ! j)) \<longleftrightarrow> j = i" by blast
  with iff show "\<exists>!i. i < length (d_parameters f) \<and> parameter_source T f i = Some Src_path \<and> wire_name f i = Some nm"
    by metis
next
  fix i
  assume i: "i < length (d_parameters f)" "parameter_source T f i = Some Src_path"
  have "every_explicit_path_exists T f 0 (length (d_parameters f)) = Some True"
    using assms(1) by (simp add: validate_endpoint_binding_def)
  from every_explicit_path_existsD [OF this _ _ i(2)] i(1)
  have "route_has_wire_name f i = Some True" by simp
  then show "\<exists>text. wire_name f i = Some text \<and> names_placeholder (rp_segments route) text"
    using assms(4) by (auto simp: route_has_wire_name_def bind_eq_Some_conv)
qed

text \<open>The handler \<open>[[=get("/{id}")]] void h(int id)\<close>, used by the witnesses.\<close>

definition sample_handler :: decl_info where
  "sample_handler = \<lparr>d_is_function = True, d_identifier = ''h'',
     d_routes = [\<lparr>ra_method = Get, ra_path = the (fixed_string_lit ''/{id}'')\<rparr>],
     d_parameters = [\<lparr>pi_identifier = Some ''id'', pi_type = C_int True 32, pi_sources = [],
       pi_defaults = [], pi_constraints = [], pi_descriptions = [], pi_deprecated = 0\<rparr>],
     d_return = C_void, d_descriptions = [], d_deprecated = 0\<rparr>"

lemma sample_handler_ok:
  "validate_endpoint_binding (\<lambda>_. None) sample_handler" "explicit_kinds sample_handler"
  "d_is_function sample_handler"
  "case route_pattern_of sample_handler of None \<Rightarrow> False | Some route \<Rightarrow> names_placeholder (rp_segments route) ''id''"
  by code_simp+

theorem placeholders_bound_once_witness:
  "\<exists>!i. i < length (d_parameters sample_handler) \<and>
     parameter_source (\<lambda>_. None) sample_handler i = Some Src_path \<and> wire_name sample_handler i = Some ''id''"
proof -
  obtain route where r: "route_pattern_of sample_handler = Some route" "names_placeholder (rp_segments route) ''id''"
    using sample_handler_ok(4) by (auto split: option.splits)
  show ?thesis using placeholders_bound_once [OF sample_handler_ok(1-3) r(1)] r(2) by blast
qed

end
