(* ===== verification/Flash_Context.thy ===== *)
theory Flash_Context
  imports Flash_Reflection Flash_Http
begin

text \<open>
  \<open>include/flash/context.hpp\<close>: the context of a request and the registry of application state. A
  registry holds pointers; a pointer is the address of the object, a number. \<open>None\<close> is a failed
  \<open>static_assert\<close>.
\<close>

record request_context =
  ctx_request :: request_view
  ctx_request_id :: string
  ctx_stop_token :: stop_token

type_synonym state_registry = "(cv_type \<times> nat) list"

section \<open>The registry\<close>

fun exact_count :: "cv_type \<Rightarrow> state_registry \<Rightarrow> nat" where
  "exact_count v [] = 0"
| "exact_count v (r # rs) = (if v = fst r then 1 else 0) + exact_count v rs"

fun unqualified_count :: "cv_type \<Rightarrow> state_registry \<Rightarrow> nat" where
  "unqualified_count v [] = 0"
| "unqualified_count v (r # rs) =
     (if cv_class v = cv_class (fst r) then 1 else 0) + unqualified_count v rs"

definition registry_ok :: "state_registry \<Rightarrow> bool" where
  "registry_ok rs \<longleftrightarrow> list_all (\<lambda>r. unqualified_count (fst r) rs = 1) rs"

text \<open>\<open>std::get<Value*>\<close> of the tuple, and \<open>get\<close> with its assertion.\<close>

fun registry_pointer :: "state_registry \<Rightarrow> cv_type \<Rightarrow> nat option" where
  "registry_pointer [] v = None"
| "registry_pointer (r # rs) v = (if fst r = v then Some (snd r) else registry_pointer rs v)"

definition get_state :: "state_registry \<Rightarrow> cv_type \<Rightarrow> nat option" where
  "get_state rs v = (if exact_count v rs = 1 then registry_pointer rs v else None)"

section \<open>Lookup\<close>

lemma unqualified_count_eq: "unqualified_count v rs = count_list (map (cv_class \<circ> fst) rs) (cv_class v)"
  by (induction rs) auto

lemma exact_count_eq: "exact_count v rs = count_list (map fst rs) v"
  by (induction rs) auto

lemma distinct_count_list: "distinct xs \<longleftrightarrow> (\<forall>x \<in> set xs. count_list xs x = 1)"
proof (induction xs)
  case (Cons y ys)
  show ?case
  proof
    assume d: "distinct (y # ys)"
    then show "\<forall>x \<in> set (y # ys). count_list (y # ys) x = 1"
      using Cons.IH by (auto simp: count_list_0_iff)
  next
    assume c: "\<forall>x \<in> set (y # ys). count_list (y # ys) x = 1"
    then have "count_list ys y = 0" by simp
    then have y: "y \<notin> set ys" by (simp add: count_list_0_iff)
    with c have "\<forall>x \<in> set ys. count_list ys x = 1" by (auto split: if_splits)
    with Cons.IH y show "distinct (y # ys)" by simp
  qed
qed simp

lemma registry_ok_iff: "registry_ok rs \<longleftrightarrow> distinct (map (cv_class \<circ> fst) rs)"
  unfolding registry_ok_def distinct_count_list unqualified_count_eq by (auto simp: list_all_iff)

lemma registry_ok_distinct: "registry_ok rs \<Longrightarrow> distinct (map fst rs)"
  unfolding registry_ok_iff by (metis distinct_map list.map_comp)

lemma registry_pointer_map_of: "registry_pointer rs v = map_of rs v"
  by (induction rs) auto

lemma get_state_iff:
  assumes "registry_ok rs"
  shows "get_state rs v = Some a \<longleftrightarrow> (v, a) \<in> set rs"
proof -
  have d: "distinct (map fst rs)" using assms by (rule registry_ok_distinct)
  then have "map_of rs v = Some a \<longleftrightarrow> (v, a) \<in> set rs" by simp
  moreover have "(v, a) \<in> set rs \<Longrightarrow> exact_count v rs = 1"
    using d unfolding exact_count_eq distinct_count_list by force
  ultimately show ?thesis by (auto simp: get_state_def registry_pointer_map_of)
qed

lemma get_state_class:
  assumes "registry_ok rs" "get_state rs v = Some a" "get_state rs w = Some b" "cv_class v = cv_class w"
  shows "v = w \<and> a = b"
proof -
  have "(v, a) \<in> set rs" "(w, b) \<in> set rs" using assms by (simp_all add: get_state_iff)
  moreover have "inj_on (cv_class \<circ> fst) (set rs)"
    using assms(1) by (simp add: registry_ok_iff distinct_map)
  ultimately have "(v, a) = (w, b)" using assms(4) inj_onD [of _ _ "(v, a)" "(w, b)"] by force
  then show ?thesis by simp
qed

end
