(* ===== verification/Flash_Bind.thy ===== *)
theory Flash_Bind
  imports Flash_Binding_Props Flash_Binding_Request Flash_Json_Reads Flash_Context
begin

text \<open>
  \<open>include/flash/binding/bind.hpp\<close>: the value of one parameter of an endpoint, from the path, the query,
  a header, a cookie, the body, the context or the registered state. The outer option is compilation:
  \<open>None\<close> is a parameter whose type has no codec for its source, or a state that is not registered.
\<close>

record binding_error =
  be_source :: source_kind
  be_name :: string
  be_code :: string
  be_message :: string
  be_status :: status

text \<open>The storage of a bound parameter; a \<open>state\<close> holds the address of the registered object.\<close>

datatype bound_value =
    B_value jvalue
  | B_context request_context
  | B_request request_view
  | B_state nat

section \<open>Media types\<close>

definition is_json_media_type :: "string \<Rightarrow> bool" where
  "is_json_media_type value0 =
     (let value = trim_optional_whitespace value0;
          parameter = str_find value (CHR '';'') 0;
          media_type = trim_optional_whitespace (before_index value parameter)
      in if ascii_iequals media_type ''application/json'' then True
         else
           (let suffix = ''+json'' in
            length media_type > length suffix \<and>
            ascii_iequals (drop (length media_type - length suffix) media_type) suffix \<and>
            str_find media_type (CHR ''/'') 0 \<noteq> None))"

section \<open>Scalars\<close>

fun validate_parameter_constraints :: "ctype \<Rightarrow> jvalue \<Rightarrow> constraint_annotation list \<Rightarrow> scalar_error option" where
  "validate_parameter_constraints t v [] = None"
| "validate_parameter_constraints t v (c # cs) =
     (case validate_constraint t v c [] 0 of
        Some e \<Rightarrow> Some (scalar_error (re_code e) (re_message e))
      | None \<Rightarrow> validate_parameter_constraints t v cs)"

fun find_path_value_loop :: "path_capture list \<Rightarrow> string \<Rightarrow> string option" where
  "find_path_value_loop [] name = None"
| "find_path_value_loop (c # cs) name =
     (if pc_name c = name then Some (pc_value c) else find_path_value_loop cs name)"

definition find_path_value :: "route_match \<Rightarrow> string \<Rightarrow> string option" where
  "find_path_value m name = find_path_value_loop (captures m) name"

definition parse_decoded_scalar :: "ctype \<Rightarrow> string \<Rightarrow> bool \<Rightarrow> (scalar_error + jvalue) option" where
  "parse_decoded_scalar t raw plus_as_space =
     (if \<not> scalar_bindable t then None
      else
        (case percent_decode raw plus_as_space of
           Inl e \<Rightarrow> Some (Inl e)
         | Inr decoded \<Rightarrow>
             if t = C_string_view \<and> dv_owns decoded
             then Some (Inl (scalar_error ''escaped_borrowed_string''
                    ''Escaped input cannot bind to string_view; use std::string for ownership.''))
             else parse_scalar t (dv_view decoded)))"

section \<open>One parameter\<close>

definition scalar_binding_error :: "source_kind \<Rightarrow> string \<Rightarrow> scalar_error \<Rightarrow> binding_error" where
  "scalar_binding_error source name e =
     \<lparr>be_source = source, be_name = name, be_code = se_code e, be_message = se_message e,
      be_status = Unprocessable_content422\<rparr>"

definition missing_parameter :: "source_kind \<Rightarrow> string \<Rightarrow> binding_error" where
  "missing_parameter source name =
     scalar_binding_error source name (scalar_error ''missing_parameter'' ''Required parameter is missing.'')"

definition raw_parameter ::
    "source_kind \<Rightarrow> request_view \<Rightarrow> route_match \<Rightarrow> string \<Rightarrow> scalar_error + string option" where
  "raw_parameter source request m name = (case source of
       Src_path \<Rightarrow> Inr (find_path_value m name)
     | Src_query \<Rightarrow> find_query_value request name
     | Src_header \<Rightarrow> find_header_value request name
     | Src_cookie \<Rightarrow> find_cookie_value request name
     | _ \<Rightarrow> Inr None)"

text \<open>A value that is there: decode and parse it as \<open>value_type\<close>, then check the constraints.\<close>

definition bind_present ::
    "ctype \<Rightarrow> constraint_annotation list \<Rightarrow> source_kind \<Rightarrow> string \<Rightarrow> string \<Rightarrow>
     (binding_error + jvalue) option" where
  "bind_present value_type constraints source name raw =
     map_option (\<lambda>parsed. case parsed of
         Inl e \<Rightarrow> Inl (scalar_binding_error source name e)
       | Inr v \<Rightarrow>
           (case validate_parameter_constraints value_type v constraints of
              Some e \<Rightarrow> Inl (scalar_binding_error source name e)
            | None \<Rightarrow> Inr v))
       (parse_decoded_scalar value_type raw (source = Src_query))"

definition bind_scalar ::
    "parameter_info \<Rightarrow> source_kind \<Rightarrow> string \<Rightarrow> request_view \<Rightarrow> route_match \<Rightarrow>
     (binding_error + jvalue) option" where
  "bind_scalar p source name request m =
     (case raw_parameter source request m name of
        Inl e \<Rightarrow> Some (Inl (scalar_binding_error source name e))
      | Inr None \<Rightarrow>
          (case pi_type p of
             C_optional t \<Rightarrow> Some (Inr V_null)
           | _ \<Rightarrow>
               (if default_annotation_count p = 1 then Some (Inr (pi_defaults p ! 0))
                else Some (Inl (missing_parameter source name))))
      | Inr (Some raw) \<Rightarrow>
          (case pi_type p of
             C_optional t \<Rightarrow>
               map_option (map_sum id V_some) (bind_present t (pi_constraints p) source name raw)
           | t \<Rightarrow> bind_present t (pi_constraints p) source name raw))"

text \<open>A body whose reading does not end would be \<open>None\<close>; \<open>read_json_total\<close> excludes it for readable types.\<close>

definition bind_body ::
    "type_table \<Rightarrow> ctype \<Rightarrow> string \<Rightarrow> request_view \<Rightarrow> (binding_error + jvalue) option" where
  "bind_body T t name request =
     (case find_header_value request ''Content-Type'' of
        Inl e \<Rightarrow> Some (Inl ((scalar_binding_error Src_body name e)\<lparr>be_status := Bad_request400\<rparr>))
      | Inr content_type \<Rightarrow>
          (if (case content_type of None \<Rightarrow> True | Some v \<Rightarrow> \<not> is_json_media_type v)
           then Some (Inl \<lparr>be_source = Src_body, be_name = name, be_code = ''unsupported_media_type'',
                  be_message = ''A JSON request body requires an application/json media type.'',
                  be_status = Unsupported_media_type415\<rparr>)
           else
             (case read_json T t (rv_body request) default_limits of
                Done v cu \<Rightarrow> Some (Inr v)
              | Fail e \<Rightarrow> Some (Inl \<lparr>be_source = Src_body, be_name = re_path e, be_code = re_code e,
                    be_message = re_message e, be_status = Unprocessable_content422\<rparr>)
              | Out_of_fuel \<Rightarrow> None)))"

definition bind_parameter ::
    "type_table \<Rightarrow> decl_info \<Rightarrow> nat \<Rightarrow> request_view \<Rightarrow> route_match \<Rightarrow> state_registry \<Rightarrow> string \<Rightarrow>
     (binding_error + bound_value) option" where
  "bind_parameter T f index request m states request_id =
     Option.bind (parameter_at f index) (\<lambda>p.
     Option.bind (parameter_source T f index) (\<lambda>source.
     Option.bind (wire_name f index) (\<lambda>name.
       (case source of
          Src_context \<Rightarrow>
            (case pi_type p of
               C_request_context \<Rightarrow> Some (Inr (B_context
                 \<lparr>ctx_request = request, ctx_request_id = request_id, ctx_stop_token = rv_stop_token request\<rparr>))
             | C_raw_request_view \<Rightarrow> Some (Inr (B_request request))
             | _ \<Rightarrow> None)
        | Src_body \<Rightarrow> map_option (map_sum id B_value) (bind_body T (pi_type p) name request)
        | Src_state \<Rightarrow>
            (case pi_type p of
               C_state v \<Rightarrow> map_option (\<lambda>a. Inr (B_state a)) (get_state states v)
             | _ \<Rightarrow> None)
        | _ \<Rightarrow> map_option (map_sum id B_value) (bind_scalar p source name request m)))))"

text \<open>The overload without state and request id.\<close>

definition bind_parameter_plain ::
    "type_table \<Rightarrow> decl_info \<Rightarrow> nat \<Rightarrow> request_view \<Rightarrow> route_match \<Rightarrow>
     (binding_error + bound_value) option" where
  "bind_parameter_plain T f index request m = bind_parameter T f index request m [] []"

end
