(* ===== verification/Flash_Bind_Props.thy ===== *)
theory Flash_Bind_Props
  imports Flash_Bind
begin

text \<open>
  What binding gives: a path parameter of an endpoint that compiles and matches is always present, and
  how a failure is classified.
\<close>

section \<open>Captures\<close>

lemma names_placeholder_names_of: "names_placeholder ss name \<longleftrightarrow> name \<in> set (names_of ss)"
  by (induction ss) auto

lemma filter_key_unique: "distinct (map k xs) \<Longrightarrow> x \<in> set xs \<Longrightarrow> filter (\<lambda>y. k y = k x) xs = [x]"
proof (induction xs)
  case (Cons z zs)
  show ?case
  proof (cases "x = z")
    case True
    then have "\<forall>y \<in> set zs. k y \<noteq> k x" using Cons.prems(1) by (auto simp: image_iff)
    then show ?thesis using True by (simp add: filter_empty_conv)
  next
    case False
    then show ?thesis using Cons by (auto simp: image_iff)
  qed
qed simp

lemma matched_captures:
  assumes "wf_fixed_string f" "route_valid (parse_route f)" "matched (match_route (parse_route f) path)"
  defines "cs \<equiv> captures (match_route (parse_route f) path)"
  shows "map pc_name cs = names_of (rp_segments (parse_route f))" "distinct (map pc_name cs)"
    "\<forall>c \<in> set cs. pc_value c \<noteq> []"
proof -
  let ?p = "parse_route f"
  have "map pc_name cs = names_of (rp_segments ?p) \<and> (\<forall>c \<in> set cs. pc_value c \<noteq> [])"
  proof (cases "rp_segments ?p = []")
    case True
    then show ?thesis using assms(2,3) by (simp add: cs_def match_route_empty no_match_def names_of_def split: if_splits)
  next
    case False
    then have "spec_match (rp_segments ?p) (split_on (CHR ''/'') (tl path)) = Some cs"
      using assms(3) unfolding cs_def match_route_spec [OF False]
      by (auto simp: no_match_def split: if_splits option.splits)
    from spec_match_sound [OF this parse_route_literals_ok(2) [OF assms(1,2)]]
    show ?thesis by blast
  qed
  then show "map pc_name cs = names_of (rp_segments ?p)" "\<forall>c \<in> set cs. pc_value c \<noteq> []" by simp_all
  obtain ks where g: "route_grammar (view f) ks" using parse_route_valid_iff assms(1,2) by blast
  have "distinct (names_of (rp_segments ?p))"
    using grammar_bounds(3) [OF g] parse_route_keys(2) [OF assms(1) g] by (simp add: names_of_def)
  then show "distinct (map pc_name cs)" using \<open>map pc_name cs = names_of (rp_segments ?p)\<close> by simp
qed

lemma find_path_value_eq: "find_path_value m name = map_of (map (\<lambda>c. (pc_name c, pc_value c)) (captures m)) name"
proof -
  have "find_path_value_loop cs name = map_of (map (\<lambda>c. (pc_name c, pc_value c)) cs) name" for cs
    by (induction cs) auto
  then show ?thesis by (simp add: find_path_value_def)
qed

lemma find_path_value_Some:
  "distinct (map pc_name (captures m)) \<Longrightarrow> c \<in> set (captures m) \<Longrightarrow> pc_name c = name \<Longrightarrow>
   find_path_value m name = Some (pc_value c)"
  unfolding find_path_value_eq by (rule map_of_is_SomeI) (auto simp: comp_def intro: image_eqI [where x = c])

section \<open>Errors of one parameter\<close>

text \<open>The type that is parsed, and why parsing a value that is there can fail.\<close>

definition value_type_of :: "ctype \<Rightarrow> ctype" where
  "value_type_of t = (case t of C_optional u \<Rightarrow> u | _ \<Rightarrow> t)"

definition rejects :: "ctype \<Rightarrow> constraint_annotation list \<Rightarrow> bool \<Rightarrow> string \<Rightarrow> scalar_error \<Rightarrow> bool" where
  "rejects t cs sp raw e \<longleftrightarrow> parse_decoded_scalar t raw sp = Some (Inl e) \<or>
     (\<exists>v. parse_decoded_scalar t raw sp = Some (Inr v) \<and> validate_parameter_constraints t v cs = Some e)"

lemma bind_present_error:
  "bind_present t cs source name raw = Some (Inl e) \<longleftrightarrow>
     (\<exists>se. e = scalar_binding_error source name se \<and> rejects t cs (source = Src_query) raw se)"
proof (cases "parse_decoded_scalar t raw (source = Src_query)")
  case (Some z)
  then show ?thesis
    by (cases z) (auto simp: bind_present_def rejects_def split: option.splits)
qed (simp add: bind_present_def rejects_def)

lemma bind_scalar_present:
  assumes "raw_parameter source request m name = Inr (Some raw)"
  shows "bind_scalar p source name request m = Some (Inl e) \<longleftrightarrow>
    (\<exists>se. e = scalar_binding_error source name se \<and>
      rejects (value_type_of (pi_type p)) (pi_constraints p) (source = Src_query) raw se)"
proof -
  have "map_option (map_sum id V_some) x = Some (Inl e) \<longleftrightarrow> x = Some (Inl e)" for x :: "(binding_error + jvalue) option"
    by (cases x; cases "the x") auto
  then show ?thesis
    using assms by (cases "pi_type p") (simp_all add: bind_scalar_def value_type_of_def bind_present_error)
qed

lemma bind_scalar_error_fields:
  "bind_scalar p source name request m = Some (Inl e) \<Longrightarrow>
   be_source e = source \<and> be_name e = name \<and> be_status e = Unprocessable_content422"
proof (cases "raw_parameter source request m name")
  case (Inr r)
  assume b: "bind_scalar p source name request m = Some (Inl e)"
  show ?thesis
  proof (cases r)
    case None
    then show ?thesis using b Inr
      by (cases "pi_type p") (auto simp: bind_scalar_def missing_parameter_def scalar_binding_error_def split: if_splits)
  next
    case (Some raw)
    then show ?thesis using b Inr bind_scalar_present [of source request m name raw p e]
      by (auto simp: scalar_binding_error_def)
  qed
qed (auto simp: bind_scalar_def scalar_binding_error_def)

lemma map_option_B_value_Inl:
  "map_option (map_sum id B_value) x = Some (Inl e) \<longleftrightarrow> x = Some (Inl e)"
  by (cases x; cases "the x") auto

lemma bind_parameter_scalar:
  assumes "parameter_at f i = Some p" "parameter_source T f i = Some source" "wire_name f i = Some name"
    "source \<in> {Src_path, Src_query, Src_header, Src_cookie}"
  shows "bind_parameter T f i request m states request_id =
    map_option (map_sum id B_value) (bind_scalar p source name request m)"
  using assms by (cases source) (simp_all add: bind_parameter_def)

section \<open>Properties\<close>

text \<open>C19. A path parameter is never missing: in an endpoint that compiles, when its route matches the
  path, every parameter taken from the path finds exactly one capture of its wire name, with a nonempty
  text, and the only way binding it fails is that this text does not parse as the parameter's type or
  violates one of its constraints; the failure is then a 422 that names the parameter.\<close>

theorem path_parameter_present:
  assumes "validate_endpoint_binding T f" "explicit_kinds f" "d_is_function f"
    "route_of f = Some r" "wf_fixed_string (ra_path r)" "route_pattern_of f = Some route"
    "matched (match_route route path)" "parameter_at f i = Some p" "parameter_source T f i = Some Src_path"
  shows "\<exists>name v. wire_name f i = Some name \<and> v \<noteq> [] \<and>
    filter (\<lambda>c. pc_name c = name) (captures (match_route route path)) = [\<lparr>pc_name = name, pc_value = v\<rparr>] \<and>
    (\<forall>e. bind_parameter T f i request (match_route route path) states request_id = Some (Inl e) \<longleftrightarrow>
      (\<exists>se. e = scalar_binding_error Src_path name se \<and>
        rejects (value_type_of (pi_type p)) (pi_constraints p) False v se))"
proof -
  have route: "route = parse_route (ra_path r)" "route_valid (parse_route (ra_path r))"
    using assms(4,6) by (auto simp: route_pattern_of_def route_valid_def Let_def split: if_splits)
  let ?m = "match_route route path"
  note caps = matched_captures [OF assms(5) route(2), folded route(1), OF assms(7)]
  have "route_has_wire_name f i = Some True"
  proof -
    have "every_explicit_path_exists T f 0 (length (d_parameters f)) = Some True"
      using assms(1) by (simp add: validate_endpoint_binding_def)
    from every_explicit_path_existsD [OF this _ _ assms(9)] show ?thesis
      using assms(8) by (simp add: parameter_at_nth)
  qed
  then obtain name where name: "wire_name f i = Some name" "name \<in> set (map pc_name (captures ?m))"
    using assms(6) caps(1) by (auto simp: route_has_wire_name_def names_placeholder_names_of bind_eq_Some_conv)
  then obtain c where c: "c \<in> set (captures ?m)" "pc_name c = name" by auto
  have "filter (\<lambda>d. pc_name d = name) (captures ?m) = [c]"
    using filter_key_unique [OF caps(2) c(1)] c(2) by simp
  moreover have "raw_parameter Src_path request ?m name = Inr (Some (pc_value c))"
    using find_path_value_Some [OF caps(2) c] by (simp add: raw_parameter_def)
  note present = bind_scalar_present [OF this, of p]
  have "bind_parameter T f i request ?m states request_id = Some (Inl e) \<longleftrightarrow>
      (\<exists>se. e = scalar_binding_error Src_path name se \<and>
        rejects (value_type_of (pi_type p)) (pi_constraints p) False (pc_value c) se)" for e
    using present unfolding bind_parameter_scalar [OF assms(8,9) name(1) insertI1] map_option_B_value_Inl by simp
  ultimately show ?thesis using name(1) caps(3) c by (intro exI [of _ name] exI [of _ "pc_value c"]) auto
qed

theorem path_parameter_present_witness:
  "\<exists>name v. wire_name sample_handler 0 = Some name \<and> v \<noteq> [] \<and>
     filter (\<lambda>c. pc_name c = name) (captures (match_route (parse_route (the (fixed_string_lit ''/{id}''))) ''/7'')) =
       [\<lparr>pc_name = name, pc_value = v\<rparr>]"
proof -
  let ?f = "the (fixed_string_lit ''/{id}'')" and ?p = "d_parameters sample_handler ! 0"
  have f: "fixed_string_lit ''/{id}'' = Some ?f" by (simp add: fixed_string_lit_def annotation_text_capacity_def)
  have wf: "wf_fixed_string (ra_path \<lparr>ra_method = Get, ra_path = ?f\<rparr>)" using fixed_string_lit_wf [OF f] by simp
  have r: "route_of sample_handler = Some \<lparr>ra_method = Get, ra_path = ?f\<rparr>"
    by (simp add: route_of_def sample_handler_def)
  have "route_valid (parse_route ?f)" by code_simp
  then have p: "route_pattern_of sample_handler = Some (parse_route ?f)"
    by (simp add: route_pattern_of_def r route_valid_def Let_def)
  have m: "matched (match_route (parse_route ?f) ''/7'')" by code_simp
  have a: "parameter_at sample_handler 0 = Some ?p" by (simp add: parameter_at_def sample_handler_def)
  have s: "parameter_source (\<lambda>_. None) sample_handler 0 = Some Src_path" by code_simp
  from path_parameter_present [OF sample_handler_ok(1-3) r wf p m a s] show ?thesis by blast
qed

text \<open>C20. Binding failures are classified the same way for every source: the error carries the source of
  the parameter; for a scalar source it names the parameter and is a 422; for a body it is a 400 exactly
  when the Content-Type header is duplicated, a 415 exactly when it is absent or not a JSON media type, and
  a 422 otherwise; context and state parameters never fail at run time.\<close>

theorem binding_errors_classified:
  assumes "parameter_source T f i = Some source" "wire_name f i = Some name"
    "bind_parameter T f i request m states request_id = Some (Inl e)"
  shows "be_source e = source \<and> source \<notin> {Src_context, Src_state} \<and>
    (source \<noteq> Src_body \<longrightarrow> be_name e = name \<and> be_status e = Unprocessable_content422) \<and>
    (source = Src_body \<longrightarrow>
      (be_status e = Bad_request400 \<longleftrightarrow> (\<exists>se. find_header_value request ''Content-Type'' = Inl se)) \<and>
      (be_status e = Unsupported_media_type415 \<longleftrightarrow>
        (\<exists>ct. find_header_value request ''Content-Type'' = Inr ct \<and> \<not> (\<exists>v. ct = Some v \<and> is_json_media_type v))) \<and>
      be_status e \<in> {Bad_request400, Unsupported_media_type415, Unprocessable_content422})"
proof -
  obtain p where p: "parameter_at f i = Some p"
    using assms(3) by (auto simp: bind_parameter_def bind_eq_Some_conv)
  have body: "bind_body T (pi_type p) name request = Some (Inl e)" if "source = Src_body"
    using assms p that by (simp add: bind_parameter_def map_option_B_value_Inl del: map_option_eq_Some)
  have scalar: "bind_scalar p source name request m = Some (Inl e)"
    if "source \<notin> {Src_body, Src_context, Src_state}"
    using assms p that by (cases source) (simp_all add: bind_parameter_def map_option_B_value_Inl del: map_option_eq_Some)
  have "source \<notin> {Src_context, Src_state}"
    using assms p by (cases source; cases "pi_type p") (auto simp: bind_parameter_def)
  moreover have "be_source e = source \<and> be_name e = name \<and> be_status e = Unprocessable_content422"
    if "source \<notin> {Src_body, Src_context, Src_state}"
    using bind_scalar_error_fields [OF scalar [OF that]] .
  moreover have "be_source e = Src_body \<and>
      (be_status e = Bad_request400 \<longleftrightarrow> (\<exists>se. find_header_value request ''Content-Type'' = Inl se)) \<and>
      (be_status e = Unsupported_media_type415 \<longleftrightarrow>
        (\<exists>ct. find_header_value request ''Content-Type'' = Inr ct \<and> \<not> (\<exists>v. ct = Some v \<and> is_json_media_type v))) \<and>
      be_status e \<in> {Bad_request400, Unsupported_media_type415, Unprocessable_content422}"
    if "source = Src_body"
    using body [OF that]
    by (auto simp: bind_body_def scalar_binding_error_def split: sum.splits option.splits outcome.splits if_splits)
  ultimately show ?thesis by auto
qed

definition body_handler :: decl_info where
  "body_handler = \<lparr>d_is_function = True, d_identifier = ''make'',
     d_routes = [\<lparr>ra_method = Post, ra_path = the (fixed_string_lit ''/'')\<rparr>],
     d_parameters = [\<lparr>pi_identifier = Some ''item'', pi_type = C_object ''Item'', pi_sources = [],
       pi_defaults = [], pi_constraints = [], pi_descriptions = [], pi_deprecated = 0\<rparr>],
     d_return = C_void, d_descriptions = [], d_deprecated = 0\<rparr>"

theorem binding_errors_classified_witness:
  "\<exists>e. bind_parameter sample_table body_handler 0 (make_request Post ''/'' [] ''{}'' True None) no_match [] []
      = Some (Inl e) \<and> be_status e = Unsupported_media_type415"
proof -
  let ?r = "make_request Post ''/'' [] ''{}'' True None"
  have s: "parameter_source sample_table body_handler 0 = Some Src_body"
    "wire_name body_handler 0 = Some ''item''" by code_simp+
  have h: "find_header_value ?r ''Content-Type'' = Inr None" by code_simp
  have b: "parameter_at body_handler 0 = Some (d_parameters body_handler ! 0)"
    by (simp add: parameter_at_def body_handler_def)
  have "\<exists>e. bind_parameter sample_table body_handler 0 ?r no_match [] [] = Some (Inl e)"
    by (simp add: bind_parameter_def b s bind_body_def h)
  then obtain e where e: "bind_parameter sample_table body_handler 0 ?r no_match [] [] = Some (Inl e)" by blast
  from binding_errors_classified [OF s e] h e show ?thesis by auto
qed

end
