(* ===== verification/Flash_Middleware.thy ===== *)
theory Flash_Middleware
  imports Flash_Context Flash_Problem
begin

unbundle bit_operations_syntax

text \<open>
  \<open>include/flash/middleware.hpp\<close>: request ids, access logging, exception recovery, and the
  composition of middleware around the final handler. A task is a state transformer: it takes the request
  context, which the layers share by reference, and the world outside, and gives a response or an
  exception with both as they are then. The world has the counter of request ids, the readings of the
  steady clock in nanoseconds, of which \<open>w_reads\<close> have been taken, and the state of the application.
\<close>

record 'a world =
  w_sequence :: "64 word"
  w_clock :: "nat \<Rightarrow> int"
  w_reads :: nat
  w_app :: 'a

type_synonym 'a action = "request_context \<Rightarrow> 'a world \<Rightarrow> response_message throwing \<times> request_context \<times> 'a world"
type_synonym 'a middleware = "'a action \<Rightarrow> 'a action"

definition clock_now :: "'a world \<Rightarrow> int \<times> 'a world" where
  "clock_now w = (w_clock w (w_reads w), w\<lparr>w_reads := w_reads w + 1\<rparr>)"

record access_log_entry =
  le_method :: http_method
  le_target :: string
  le_status :: status
  le_duration :: int
  le_request_id :: string

section \<open>request_id\<close>

definition id_character :: "char \<Rightarrow> bool" where
  "id_character c =
     (let n = of_char c :: nat;
          alpha_numeric = (97 \<le> n \<and> n \<le> 122) \<or> (65 \<le> n \<and> n \<le> 90) \<or> (48 \<le> n \<and> n \<le> 57)
      in alpha_numeric \<or> c = CHR ''-'' \<or> c = CHR ''_'' \<or> c = CHR ''.'')"

fun id_characters_ok :: "string \<Rightarrow> bool" where
  "id_characters_ok [] = True"
| "id_characters_ok (c # cs) = (if \<not> id_character c then False else id_characters_ok cs)"

definition valid_id :: "string \<Rightarrow> bool" where
  "valid_id value = (if value = [] \<or> length value > 128 then False else id_characters_ok value)"

fun incoming_loop :: "header_view list \<Rightarrow> string \<Rightarrow> nat \<Rightarrow> string \<times> nat" where
  "incoming_loop [] value count = (value, count)"
| "incoming_loop (h # hs) value count =
     (if ascii_iequals (hv_name h) ''X-Request-ID'' then incoming_loop hs (hv_value h) (count + 1)
      else incoming_loop hs value count)"

definition incoming_id :: "request_view \<Rightarrow> string" where
  "incoming_id request = (case incoming_loop (rv_headers request) [] 0 of (value, count) \<Rightarrow>
     if count = 1 \<and> valid_id value then value else [])"

definition id_digits :: string where
  "id_digits = ''0123456789abcdef''"

text \<open>The two halves of the output array, filled by one loop; \<open>shift\<close> is \<open>(15 - index) * 4\<close>.\<close>

definition id_digit :: "64 word \<Rightarrow> nat \<Rightarrow> char" where
  "id_digit n index = id_digits ! unat (drop_bit ((15 - index) * 4) n AND 0x0f)"

definition format_id :: "64 word \<Rightarrow> 64 word \<Rightarrow> string" where
  "format_id clock sequence = map (id_digit clock) [0..<16] @ map (id_digit sequence) [0..<16]"

definition generate_id :: "'a world \<Rightarrow> string \<times> 'a world" where
  "generate_id w0 =
     (let sequence = w_sequence w0;
          w1 = w0\<lparr>w_sequence := sequence + 1\<rparr>;
          (now, w2) = clock_now w1
      in (format_id (word_of_int now) sequence, w2))"

definition request_id :: "'a middleware" where
  "request_id next context w =
     (let incoming = incoming_id (ctx_request context);
          (identifier, w1) = (if incoming = [] then generate_id w else (incoming, w))
      in case next (context\<lparr>ctx_request_id := identifier\<rparr>) w1 of
           (Inl e, context', w') \<Rightarrow> (Inl e, context', w')
         | (Inr response, context', w') \<Rightarrow>
             (set_header ''X-Request-ID'' (ctx_request_id context') response, context', w'))"

section \<open>access_log\<close>

type_synonym 'a sink = "access_log_entry \<Rightarrow> 'a \<Rightarrow> unit throwing \<times> 'a"

text \<open>\<open>record\<close>: whatever the sink throws is swallowed.\<close>

definition record_entry :: "'a sink option \<Rightarrow> request_context \<Rightarrow> status \<Rightarrow> int \<Rightarrow> 'a world \<Rightarrow> 'a world" where
  "record_entry sink context code started w = (case sink of None \<Rightarrow> w
     | Some f \<Rightarrow>
         (let (now, w1) = clock_now w;
              entry = \<lparr>le_method = rv_method (ctx_request context), le_target = rv_target (ctx_request context),
                le_status = code, le_duration = now - started, le_request_id = ctx_request_id context\<rparr>
          in w1\<lparr>w_app := snd (f entry (w_app w1))\<rparr>))"

definition access_log :: "'a sink option \<Rightarrow> 'a middleware" where
  "access_log sink next context w =
     (let (started, w1) = clock_now w
      in case next context w1 of
           (Inr response, context', w') \<Rightarrow>
             (Inr response, context', record_entry sink context' (rm_status response) started w')
         | (Inl e, context', w') \<Rightarrow>
             (Inl e, context', record_entry sink context' Internal_server_error500 started w'))"

section \<open>recover_exceptions\<close>

definition recovered :: "request_context \<Rightarrow> response_message" where
  "recovered context = make_problem_response
     \<lparr>pd_type = ''https://flash.dev/problems/internal-server-error'',
      pd_title = ''Internal server error'', pd_status = Internal_server_error500,
      pd_detail = ''The request could not be completed.'', pd_instance = rv_target (ctx_request context),
      pd_errors = [], pd_request_id = ctx_request_id context\<rparr>"

definition recover_exceptions :: "'a middleware" where
  "recover_exceptions next context w = (case next context w of
       (Inr response, context', w') \<Rightarrow> (Inr response, context', w')
     | (Inl e, context', w') \<Rightarrow> (Inr (recovered context'), context', w'))"

section \<open>application\<close>

fun invoke :: "'a middleware list \<Rightarrow> 'a action \<Rightarrow> 'a action" where
  "invoke [] final = final"
| "invoke (m # ms) final = m (invoke ms final)"

lemma invoke_append: "invoke (ms @ ns) final = invoke ms (invoke ns final)"
  by (induction ms) auto

section \<open>Request ids are header values\<close>

lemma id_characters_ok_iff: "id_characters_ok s \<longleftrightarrow> (\<forall>c \<in> set s. id_character c)"
  by (induction s) auto

lemma id_character_code: "id_character c \<Longrightarrow> 32 \<le> (of_char c :: nat)"
  by (auto simp: id_character_def Let_def)

lemma valid_id_header: "valid_id s \<Longrightarrow> valid_header_value s"
  by (auto simp: valid_id_def valid_header_value_def header_value_chars_ok_iff id_characters_ok_iff
      dest: id_character_code split: if_splits)

lemma incoming_loop_eq:
  "incoming_loop hs v n = (last (v # map hv_value (filter (\<lambda>h. ascii_iequals (hv_name h) ''X-Request-ID'') hs)),
     n + length (filter (\<lambda>h. ascii_iequals (hv_name h) ''X-Request-ID'') hs))"
  by (induction hs arbitrary: v n) auto

lemma incoming_id_valid: "incoming_id r \<noteq> [] \<Longrightarrow> valid_id (incoming_id r)"
  by (auto simp: incoming_id_def split: prod.splits if_splits)

lemma id_nibble_less: "unat (drop_bit k n AND 0x0f :: 64 word) < 16"
proof -
  have "(drop_bit k n AND 0x0f :: 64 word) \<le> 0x0f" by (rule word_and_le1)
  then show ?thesis by (simp add: word_le_nat_alt)
qed

lemma id_digits_ok: "i < 16 \<Longrightarrow> id_character (id_digits ! i)"
proof -
  have "list_all id_character id_digits" "length id_digits = 16" by code_simp+
  then show "i < 16 \<Longrightarrow> id_character (id_digits ! i)" by (simp add: list_all_length)
qed

lemma id_digits_inj: "i < 16 \<Longrightarrow> j < 16 \<Longrightarrow> id_digits ! i = id_digits ! j \<longleftrightarrow> i = j"
proof -
  have "distinct id_digits" "length id_digits = 16" by code_simp+
  then show "i < 16 \<Longrightarrow> j < 16 \<Longrightarrow> ?thesis" by (simp add: nth_eq_iff_index_eq)
qed

lemma format_id_valid: "valid_id (format_id c s)"
  by (auto simp: valid_id_def format_id_def id_characters_ok_iff id_digit_def intro: id_digits_ok id_nibble_less)

lemma length_format_id [simp]: "length (format_id c s) = 32"
  by (simp add: format_id_def)

section \<open>Request ids are unique\<close>

lemma bit_nibble:
  fixes n m :: "64 word"
  assumes "unat (drop_bit k n AND 0x0f) = unat (drop_bit k m AND 0x0f)" "k \<le> i" "i < k + 4"
  shows "bit n i \<longleftrightarrow> bit m i"
proof -
  have eq: "drop_bit k n AND 0x0f = drop_bit k m AND 0x0f" using assms(1) by (simp only: word_unat_eq_iff)
  have f: "(0x0f :: 64 word) = mask 4" by (simp add: mask_eq_exp_minus_1)
  have "bit (drop_bit k n AND mask 4) (i - k) \<longleftrightarrow> bit (drop_bit k m AND mask 4) (i - k)"
    using eq unfolding f by simp
  then show ?thesis using assms(2,3) by (auto simp: bit_simps)
qed

lemma id_digits_determine:
  assumes "\<forall>j < 16. id_digit n j = id_digit m j"
  shows "n = m"
proof (rule bit_word_eqI)
  fix i assume "i < LENGTH(64)"
  then have i: "i < 64" by simp
  define j where "j = 15 - i div 4"
  have "i div 4 \<le> 15" using i by linarith
  then have j: "j < 16" "15 - j = i div 4" by (simp_all add: j_def)
  have "id_digit n j = id_digit m j" using j(1) assms by blast
  then have "unat (drop_bit (i div 4 * 4) n AND 0x0f) = unat (drop_bit (i div 4 * 4) m AND 0x0f)"
    unfolding id_digit_def j(2) using id_digits_inj [OF id_nibble_less id_nibble_less] by blast
  then show "bit n i \<longleftrightarrow> bit m i" by (rule bit_nibble) simp_all
qed

lemma format_id_inj: "format_id c s = format_id c' s' \<longleftrightarrow> c = c' \<and> s = s'"
proof -
  have "map (id_digit n) [0..<16] = map (id_digit m) [0..<16] \<longleftrightarrow> n = m" for n m
    using id_digits_determine [of n m] by (auto simp del: upt_Suc)
  then show ?thesis by (simp add: format_id_def del: upt_Suc map_eq_conv)
qed

end
