(* ===== verification/Flash_Middleware_Props.thy ===== *)
theory Flash_Middleware_Props
  imports Flash_Middleware
begin

text \<open>
  What a chain of middleware guarantees. Two interfaces: a layer that keeps the request id a header value
  and never turns a response into an exception, and a layer that also stops the exceptions of what it
  wraps. The lemmas on chains are proved in the interfaces and interpreted on the library's own layers.
\<close>

section \<open>Actions that cannot fail\<close>

definition keeps_id :: "'a action \<Rightarrow> bool" where
  "keeps_id a \<longleftrightarrow> (\<forall>c w. valid_header_value (ctx_request_id c) \<longrightarrow>
     valid_header_value (ctx_request_id (fst (snd (a c w)))))"

definition safe_action :: "'a action \<Rightarrow> bool" where
  "safe_action a \<longleftrightarrow> keeps_id a \<and>
     (\<forall>c w. valid_header_value (ctx_request_id c) \<longrightarrow> (\<exists>r. fst (a c w) = Inr r))"

lemma safe_actionD: "safe_action a \<Longrightarrow> keeps_id a"
  by (simp add: safe_action_def)

locale sound_layer =
  fixes layer :: "'a action \<Rightarrow> 'a action"
  assumes layer_keeps: "keeps_id next \<Longrightarrow> keeps_id (layer next)"
    and layer_safe: "safe_action next \<Longrightarrow> safe_action (layer next)"
begin

lemma chain_safe: "safe_action (invoke ms final) \<Longrightarrow> safe_action (invoke (layer # ms) final)"
  by (simp add: layer_safe)

lemma chain_keeps: "keeps_id (invoke ms final) \<Longrightarrow> keeps_id (invoke (layer # ms) final)"
  by (simp add: layer_keeps)

end

locale guarding_layer = sound_layer +
  assumes layer_guards: "keeps_id next \<Longrightarrow> safe_action (layer next)"
begin

lemma chain_guarded: "keeps_id (invoke ms final) \<Longrightarrow> safe_action (invoke (layer # ms) final)"
  by (simp add: layer_guards)

end

lemma idt_valid:
  assumes "(idt, w1) = (if incoming_id r = [] then generate_id w else (incoming_id r, w))"
  shows "valid_id idt"
  using assms incoming_id_valid [of r] format_id_valid
  by (auto simp: generate_id_def Let_def split: if_splits prod.splits)

lemma request_id_unfold:
  obtains idt w1 res c' w' where
    "(idt, w1) = (if incoming_id (ctx_request c) = [] then generate_id w else (incoming_id (ctx_request c), w))"
    "valid_id idt" "next (c\<lparr>ctx_request_id := idt\<rparr>) w1 = (res, c', w')"
    "request_id next c w = (case res of Inl e \<Rightarrow> (Inl e, c', w')
       | Inr r \<Rightarrow> (set_header ''X-Request-ID'' (ctx_request_id c') r, c', w'))"
proof -
  obtain idt w1 where i: "(idt, w1) =
      (if incoming_id (ctx_request c) = [] then generate_id w else (incoming_id (ctx_request c), w))"
    by (metis surj_pair)
  obtain res c' w' where n: "next (c\<lparr>ctx_request_id := idt\<rparr>) w1 = (res, c', w')" by (metis surj_pair)
  have "request_id next c w = (case res of Inl e \<Rightarrow> (Inl e, c', w')
       | Inr r \<Rightarrow> (set_header ''X-Request-ID'' (ctx_request_id c') r, c', w'))"
    using n by (cases res) (simp_all add: request_id_def Let_def i [symmetric])
  then show thesis using that [OF i idt_valid [OF i] n] by blast
qed

lemma request_id_header_name: "valid_header_name ''X-Request-ID''"
  by code_simp

lemma request_id_keeps: "keeps_id next \<Longrightarrow> keeps_id (request_id next)"
  unfolding keeps_id_def
proof (intro allI impI)
  fix c w
  assume k: "\<forall>c w. valid_header_value (ctx_request_id c) \<longrightarrow> valid_header_value (ctx_request_id (fst (snd (next c w))))"
  obtain idt w1 res c' w' where u: "valid_id idt"
    "next (c\<lparr>ctx_request_id := idt\<rparr>) w1 = (res, c', w')"
    "request_id next c w = (case res of Inl e \<Rightarrow> (Inl e, c', w')
       | Inr r \<Rightarrow> (set_header ''X-Request-ID'' (ctx_request_id c') r, c', w'))"
    by (rule request_id_unfold)
  have "valid_header_value (ctx_request_id c')"
    using k [rule_format, of "c\<lparr>ctx_request_id := idt\<rparr>" w1] u(1,2) by (simp add: valid_id_header)
  then show "valid_header_value (ctx_request_id (fst (snd (request_id next c w))))"
    using u(3) by (cases res) simp_all
qed

lemma request_id_safe: "safe_action next \<Longrightarrow> safe_action (request_id next)"
proof -
  assume s: "safe_action next"
  have "\<exists>r. fst (request_id next c w) = Inr r" for c w
  proof -
    obtain idt w1 res c' w' where u: "valid_id idt"
      "next (c\<lparr>ctx_request_id := idt\<rparr>) w1 = (res, c', w')"
      "request_id next c w = (case res of Inl e \<Rightarrow> (Inl e, c', w')
         | Inr r \<Rightarrow> (set_header ''X-Request-ID'' (ctx_request_id c') r, c', w'))"
      by (rule request_id_unfold)
    have v: "valid_header_value (ctx_request_id (c\<lparr>ctx_request_id := idt\<rparr>))"
      using u(1) by (simp add: valid_id_header)
    have "\<exists>r. res = Inr r" "valid_header_value (ctx_request_id c')"
      using s v u(2) unfolding safe_action_def keeps_id_def by (metis fst_conv snd_conv)+
    then show ?thesis using u(3) request_id_header_name by (auto simp: set_header_def)
  qed
  then show ?thesis using request_id_keeps [OF safe_actionD [OF s]] by (simp add: safe_action_def)
qed

interpretation rid: sound_layer request_id
  by unfold_locales (simp_all add: request_id_keeps request_id_safe)

lemma access_log_parts [simp]:
  "fst (access_log sink next c w) = fst (next c (snd (clock_now w)))"
  "fst (snd (access_log sink next c w)) = fst (snd (next c (snd (clock_now w))))"
  by (simp_all add: access_log_def split: prod.splits sum.splits)

lemma recover_exceptions_parts [simp]:
  "fst (recover_exceptions next c w) =
     (case fst (next c w) of Inr r \<Rightarrow> Inr r | Inl e \<Rightarrow> Inr (recovered (fst (snd (next c w)))))"
  "fst (snd (recover_exceptions next c w)) = fst (snd (next c w))"
  by (simp_all add: recover_exceptions_def split: prod.splits sum.splits)

interpretation log: sound_layer "access_log sink" for sink
  by unfold_locales (simp_all add: keeps_id_def safe_action_def)

interpretation rec: guarding_layer recover_exceptions
  by unfold_locales (simp_all add: keeps_id_def safe_action_def split: sum.splits)

section \<open>Chains of the library's layers\<close>

datatype 'a layer = Request_id | Access_log "'a sink option" | Recover

fun layer_of :: "'a layer \<Rightarrow> 'a middleware" where
  "layer_of Request_id = request_id"
| "layer_of (Access_log sink) = access_log sink"
| "layer_of Recover = recover_exceptions"

lemma layers_keep: "keeps_id final \<Longrightarrow> keeps_id (invoke (map layer_of ls) final)"
proof (induction ls)
  case (Cons l ls)
  then show ?case by (cases l) (simp_all add: rid.layer_keeps log.layer_keeps rec.layer_keeps)
qed simp

lemma layers_safe: "safe_action inner \<Longrightarrow> safe_action (invoke (map layer_of ls) inner)"
proof (induction ls)
  case (Cons l ls)
  then show ?case by (cases l) (simp_all add: rid.layer_safe log.layer_safe rec.layer_safe)
qed simp

section \<open>Unique ids\<close>

text \<open>Ids generated one after another; between two of them \<open>env\<close> changes anything but the counter.\<close>

fun generate_ids :: "(nat \<Rightarrow> 'a world \<Rightarrow> 'a world) \<Rightarrow> nat \<Rightarrow> 'a world \<Rightarrow> string list" where
  "generate_ids env 0 w = []"
| "generate_ids env (Suc k) w = (case generate_id (env k w) of (i, w') \<Rightarrow> i # generate_ids env k w')"

lemma generate_id_eq: "generate_id w = (format_id (word_of_int (w_clock w (w_reads w))) (w_sequence w),
    w\<lparr>w_sequence := w_sequence w + 1, w_reads := w_reads w + 1\<rparr>)"
  by (simp add: generate_id_def clock_now_def Let_def)

lemma generate_ids_nth:
  assumes "\<And>k w. w_sequence (env k w) = w_sequence w"
  shows "j < k \<Longrightarrow> \<exists>c. generate_ids env k w ! j = format_id c (w_sequence w + of_nat j)"
proof (induction k arbitrary: j w)
  case (Suc k)
  show ?case
  proof (cases j)
    case 0
    then show ?thesis using assms by (auto simp: generate_id_eq)
  next
    case (Suc i)
    then show ?thesis
      using Suc.IH [of i "snd (generate_id (env k w))"] Suc.prems assms by (auto simp: generate_id_eq add_ac)
  qed
qed simp

lemma length_generate_ids: "length (generate_ids env k w) = k"
  by (induction k arbitrary: w) (auto simp: generate_id_eq)

section \<open>Properties\<close>

text \<open>C14. An application with exception recovery anywhere in its chain never lets an exception out: with
  \<open>recover_exceptions\<close> somewhere among the library's layers, whatever the handler throws, the chain answers
  every request with a response (a request id is always a legal header value, so echoing it cannot throw
  either).\<close>

theorem guarded_application_total:
  assumes "keeps_id final" "valid_header_value (ctx_request_id c)"
  shows "\<exists>r. fst (invoke (map layer_of (outer @ Recover # inner)) final c w) = Inr r"
proof -
  have "safe_action (invoke (map layer_of (Recover # inner)) final)"
    using rec.chain_guarded [OF layers_keep [OF assms(1)]] by simp
  from layers_safe [OF this, of outer] assms(2) show ?thesis
    by (simp add: safe_action_def invoke_append del: invoke.simps)
qed

definition sample_context :: request_context where
  "sample_context = \<lparr>ctx_request = make_request Get ''/'' [] [] True None, ctx_request_id = [], ctx_stop_token = None\<rparr>"

definition sample_world :: "unit world" where
  "sample_world = \<lparr>w_sequence = 0, w_clock = (\<lambda>n. int n), w_reads = 0, w_app = ()\<rparr>"

theorem guarded_application_total_witness:
  "\<exists>r. fst (invoke [request_id, recover_exceptions, access_log None]
      (\<lambda>c w. (Inl (Runtime_error ''boom''), c, w)) sample_context sample_world) = Inr r"
proof -
  have "keeps_id (\<lambda>c (w :: unit world). (Inl (Runtime_error ''boom'') :: response_message throwing, c, w))"
    by (simp add: keeps_id_def)
  moreover have "valid_header_value (ctx_request_id sample_context)"
    by (simp add: sample_context_def valid_header_value_def)
  ultimately show ?thesis
    using guarded_application_total [of _ sample_context "[Request_id]" "[Access_log None]" sample_world] by simp
qed

text \<open>C35. Every response behind \<open>request_id\<close> carries the id of its request: the id is the incoming one when
  the request has exactly one, well-formed, \<open>X-Request-ID\<close> header, and a fresh one of 32 characters
  otherwise; in both cases it is well formed, so no header can be injected through it, and the response
  has it under \<open>X-Request-ID\<close> and is otherwise what the next layer returned.\<close>

theorem request_id_echoed:
  assumes "\<And>c w. ctx_request_id (fst (snd (next c w))) = ctx_request_id c"
    "request_id next c w = (Inr r, c', w')"
  defines "incoming \<equiv> filter (\<lambda>h. ascii_iequals (hv_name h) ''X-Request-ID'') (rv_headers (ctx_request c))"
  shows "valid_id (ctx_request_id c') \<and>
    (\<forall>h. incoming = [h] \<and> valid_id (hv_value h) \<longrightarrow> ctx_request_id c' = hv_value h) \<and>
    ((\<nexists>h. incoming = [h] \<and> valid_id (hv_value h)) \<longrightarrow> ctx_request_id c' = fst (generate_id w)) \<and>
    (\<exists>c1 w1 r0. fst (next c1 w1) = Inr r0 \<and> header_map r = (header_map r0)(''X-Request-ID'' \<mapsto> ctx_request_id c') \<and>
      r = r0\<lparr>rm_headers := rm_headers r\<rparr>)"
proof -
  obtain idt w1 res c1 w2 where u:
    "(idt, w1) = (if incoming_id (ctx_request c) = [] then generate_id w else (incoming_id (ctx_request c), w))"
    "valid_id idt" "next (c\<lparr>ctx_request_id := idt\<rparr>) w1 = (res, c1, w2)"
    "request_id next c w = (case res of Inl e \<Rightarrow> (Inl e, c1, w2)
       | Inr r \<Rightarrow> (set_header ''X-Request-ID'' (ctx_request_id c1) r, c1, w2))"
    by (rule request_id_unfold)
  obtain r0 where r0: "res = Inr r0" "set_header ''X-Request-ID'' (ctx_request_id c1) r0 = Inr r" "c1 = c'"
    using assms(2) u(4) by (cases res) auto
  have c': "ctx_request_id c' = idt" using assms(1) [of "c\<lparr>ctx_request_id := idt\<rparr>" w1] u(3) r0(3) by simp
  have inc: "incoming_id (ctx_request c) =
      (case incoming of [h] \<Rightarrow> if valid_id (hv_value h) then hv_value h else [] | _ \<Rightarrow> [])"
    by (auto simp: incoming_id_def incoming_loop_eq incoming_def split: list.splits)
  have "\<not> valid_id []" by (simp add: valid_id_def)
  then have "\<forall>h. incoming = [h] \<and> valid_id (hv_value h) \<longrightarrow> idt = hv_value h"
    using u(1) inc by (auto split: if_splits)
  moreover have "(\<nexists>h. incoming = [h] \<and> valid_id (hv_value h)) \<longrightarrow> idt = fst (generate_id w)"
    using u(1) inc by (auto split: if_splits list.splits) (metis fst_conv)+
  moreover have "\<exists>c1 w1 r0. fst (next c1 w1) = Inr r0 \<and>
      header_map r = (header_map r0)(''X-Request-ID'' \<mapsto> idt) \<and> r = r0\<lparr>rm_headers := rm_headers r\<rparr>"
  proof (intro exI conjI)
    show "fst (next (c\<lparr>ctx_request_id := idt\<rparr>) w1) = Inr r0" using u(3) r0(1) by simp
    show "header_map r = (header_map r0)(''X-Request-ID'' \<mapsto> idt)" using rm.put_get [OF r0(2)] c' r0(3) by simp
    show "r = r0\<lparr>rm_headers := rm_headers r\<rparr>" using r0(2) by (auto simp: set_header_Inr_iff)
  qed
  ultimately show ?thesis unfolding c' using u(2) by (intro conjI) assumption+
qed

theorem request_id_echoed_witness:
  "\<exists>r c' w'. request_id (\<lambda>c w. (Inr default_response, c, w)) sample_context sample_world = (Inr r, c', w') \<and>
     header_map r ''X-Request-ID'' = Some (fst (generate_id sample_world))"
proof -
  let ?next = "\<lambda>c (w :: unit world). (Inr default_response :: response_message throwing, c :: request_context, w)"
  obtain r c' w' where r: "request_id ?next sample_context sample_world = (Inr r, c', w')"
  proof -
    have "safe_action ?next" by (simp add: safe_action_def keeps_id_def)
    from rid.layer_safe [OF this] have "\<exists>r. fst (request_id ?next sample_context sample_world) = Inr r"
      by (simp add: safe_action_def sample_context_def valid_header_value_def)
    then show thesis using that by (metis prod.collapse)
  qed
  from request_id_echoed [OF _ r] have
    "header_map r ''X-Request-ID'' = Some (ctx_request_id c')" "ctx_request_id c' = fst (generate_id sample_world)"
    by (auto simp: sample_context_def)
  with r show ?thesis by auto
qed

text \<open>C36. Generated request ids never repeat within \<open>2 ^ 64\<close> requests, whatever the clock reads (it may
  stand still or jump back) and whatever else happens between two of them.\<close>

theorem request_ids_unique:
  assumes "\<And>k w. w_sequence (env k w) = w_sequence w" "n \<le> 2 ^ 64"
  shows "distinct (generate_ids env n w)"
  unfolding distinct_conv_nth length_generate_ids
proof (intro allI impI)
  fix i j
  assume ij: "i < n" "j < n" "i \<noteq> j"
  obtain c d where cd: "generate_ids env n w ! i = format_id c (w_sequence w + of_nat i)"
    "generate_ids env n w ! j = format_id d (w_sequence w + of_nat j)"
    using generate_ids_nth [of env, OF assms(1)] ij by metis
  have "(of_nat i :: 64 word) \<noteq> of_nat j"
  proof
    assume "(of_nat i :: 64 word) = of_nat j"
    then have "i mod 2 ^ 64 = j mod 2 ^ 64" by (simp add: word_of_nat_eq_iff take_bit_eq_mod)
    then show False using ij assms(2) by simp
  qed
  then show "generate_ids env n w ! i \<noteq> generate_ids env n w ! j" by (simp add: cd format_id_inj)
qed

theorem request_ids_unique_witness:
  "distinct (generate_ids (\<lambda>_ w. w\<lparr>w_reads := 0\<rparr>) 1000 sample_world)"
  by (rule request_ids_unique) simp_all

end
