(* ===== verification/Flash_Error_Mapping.thy ===== *)
theory Flash_Error_Mapping
  imports Flash_Reflection Flash_Http
begin

text \<open>
  \<open>include/flash/error_mapping.hpp\<close>: the table from the enumerators of a domain error to status,
  code and title, the check that it covers every enumerator once, and its lookup. The variable template
  \<open>error_map\<close>, which the application specialises, is a map from enumerations to tables; an enumeration it
  does not hold has a \<open>missing_error_mapping\<close>.
\<close>

record error_mapping =
  em_value :: int
  em_status :: status
  em_code :: fixed_string
  em_title :: fixed_string

type_synonym error_map = "enum_info \<Rightarrow> error_mapping list option"

text \<open>\<open>map\<close> on two string literals.\<close>

definition map_error :: "int \<Rightarrow> status \<Rightarrow> string \<Rightarrow> string \<Rightarrow> error_mapping option" where
  "map_error value code_status code title =
     Option.bind (fixed_string_lit code) (\<lambda>c.
     Option.bind (fixed_string_lit title) (\<lambda>t.
       Some \<lparr>em_value = value, em_status = code_status, em_code = c, em_title = t\<rparr>))"

definition reflected_error_count :: "enum_info \<Rightarrow> nat" where
  "reflected_error_count e = length (en_enumerators e)"

definition reflected_error_value :: "enum_info \<Rightarrow> nat \<Rightarrow> int" where
  "reflected_error_value e index = snd (en_enumerators e ! index)"

fun mapping_count_for_error :: "error_mapping list \<Rightarrow> int \<Rightarrow> nat" where
  "mapping_count_for_error [] value = 0"
| "mapping_count_for_error (m # ms) value =
     (if em_value m = value then 1 else 0) + mapping_count_for_error ms value"

text \<open>The recursion over \<open>EnumIndex\<close>, with the number of enumerators that are left.\<close>

fun every_error_mapped_once :: "enum_info \<Rightarrow> error_mapping list \<Rightarrow> nat \<Rightarrow> nat \<Rightarrow> bool" where
  "every_error_mapped_once e ms index 0 = True"
| "every_error_mapped_once e ms index (Suc rest) =
     (if mapping_count_for_error ms (reflected_error_value e index) \<noteq> 1 then False
      else every_error_mapped_once e ms (index + 1) rest)"

definition validate_error_mapping :: "error_map \<Rightarrow> enum_info \<Rightarrow> bool" where
  "validate_error_mapping em e = (case em e of None \<Rightarrow> False
     | Some ms \<Rightarrow> every_error_mapped_once e ms 0 (reflected_error_count e))"

text \<open>The loop over the entries; \<open>None\<close> is \<open>std::unreachable()\<close>.\<close>

fun mapped_error_loop :: "error_mapping list \<Rightarrow> int \<Rightarrow> error_mapping option" where
  "mapped_error_loop [] error = None"
| "mapped_error_loop (m # ms) error = (if em_value m = error then Some m else mapped_error_loop ms error)"

definition mapped_error :: "error_map \<Rightarrow> enum_info \<Rightarrow> int \<Rightarrow> error_mapping option" where
  "mapped_error em e error = (case em e of None \<Rightarrow> None | Some ms \<Rightarrow> mapped_error_loop ms error)"

section \<open>The check makes the lookup total and unambiguous\<close>

lemma mapping_count_filter: "mapping_count_for_error ms v = length (filter (\<lambda>m. em_value m = v) ms)"
  by (induction ms) auto

lemma mapped_error_loop_find: "mapped_error_loop ms v = find (\<lambda>m. em_value m = v) ms"
  by (induction ms) auto

lemma every_error_mapped_once_iff:
  "every_error_mapped_once e ms i k \<longleftrightarrow>
     (\<forall>j. i \<le> j \<longrightarrow> j < i + k \<longrightarrow> mapping_count_for_error ms (reflected_error_value e j) = 1)"
proof (induction e ms i k rule: every_error_mapped_once.induct)
  case (2 e ms i k)
  have "(\<forall>j. i \<le> j \<longrightarrow> j < i + Suc k \<longrightarrow> P j) \<longleftrightarrow> P i \<and> (\<forall>j. i + 1 \<le> j \<longrightarrow> j < i + 1 + k \<longrightarrow> P j)" for P
    by (metis Suc_eq_plus1 Suc_le_eq add_Suc_shift le_add1 le_eq_less_or_eq less_add_Suc1 order_refl add_Suc)
  with 2 show ?case by simp
qed simp

lemma filter_singleton_find: "filter P xs = [x] \<Longrightarrow> find P xs = Some x"
  by (induction xs) (auto split: if_splits)

text \<open>C37. Every domain error has exactly one response: once the compile-time check accepts a mapping, the
  lookup of any enumerator of the error type yields an entry with that value, and no other entry of the
  table has it; \<open>std::unreachable\<close> is reached only by a value that is no enumerator.\<close>

theorem domain_errors_covered:
  assumes "validate_error_mapping em e"
  shows "(\<forall>v \<in> snd ` set (en_enumerators e). \<exists>m. mapped_error em e v = Some m \<and> em_value m = v \<and>
      (\<forall>m' \<in> set (the (em e)). em_value m' = v \<longrightarrow> m' = m)) \<and>
    (mapped_error em e w = None \<longrightarrow> w \<notin> snd ` set (en_enumerators e))"
proof -
  obtain ms where ms: "em e = Some ms" "every_error_mapped_once e ms 0 (reflected_error_count e)"
    using assms(1) by (auto simp: validate_error_mapping_def split: option.splits)
  have cover: "\<exists>m. mapped_error em e v = Some m \<and> em_value m = v \<and>
      (\<forall>m' \<in> set ms. em_value m' = v \<longrightarrow> m' = m)" if v: "v \<in> snd ` set (en_enumerators e)" for v
  proof -
    obtain j where "j < reflected_error_count e" "v = reflected_error_value e j"
      using v by (auto simp: in_set_conv_nth reflected_error_count_def reflected_error_value_def)
    then have "length (filter (\<lambda>m. em_value m = v) ms) = 1"
      using ms(2) by (simp add: every_error_mapped_once_iff mapping_count_filter)
    then obtain m where m: "filter (\<lambda>m. em_value m = v) ms = [m]" by (auto simp: length_Suc_conv)
    have "set (filter (\<lambda>m. em_value m = v) ms) = {m}" using m by simp
    then have u: "m' \<in> set ms \<and> em_value m' = v \<longleftrightarrow> m' = m" for m' by auto
    from filter_singleton_find [OF m] have "mapped_error em e v = Some m"
      by (simp add: mapped_error_def ms(1) mapped_error_loop_find)
    then show ?thesis using u by blast
  qed
  then show ?thesis using ms(1) by fastforce
qed

definition sample_errors :: enum_info where
  "sample_errors = \<lparr>en_name = ''item_error'', en_enumerators = [(''missing'', 0), (''taken'', 1)]\<rparr>"

definition sample_error_map :: error_map where
  "sample_error_map e = (if e = sample_errors then Some
     [the (map_error 1 Conflict409 ''taken'' ''Taken''),
      the (map_error 0 Not_found404 ''missing'' ''Not found'')] else None)"

lemma sample_error_map_ok: "validate_error_mapping sample_error_map sample_errors"
  by (simp add: validate_error_mapping_def sample_error_map_def) code_simp

theorem domain_errors_covered_witness:
  "\<exists>m. mapped_error sample_error_map sample_errors 1 = Some m \<and> em_value m = 1"
  using domain_errors_covered [OF sample_error_map_ok, of 0] by (auto simp: sample_errors_def)

end
