(* ===== verification/Flash_Openapi_Schema.thy ===== *)
theory Flash_Openapi_Schema
  imports Flash_Binding_Props Flash_Json_Write Flash_Error_Mapping
begin

text \<open>
  \<open>include/flash/openapi/schema.hpp\<close>: the classes a document describes, their component names, and the
  text of a JSON schema. A class is its name in the type table; the library's own aggregates \<open>text\<close>,
  \<open>bytes\<close>, \<open>response_message\<close> and \<open>request_context\<close> are classes like the others. The recursion over class
  types is bounded by a number of levels: \<open>None\<close> is running out of them, which \<open>collect_terminates\<close>
  excludes when there are at least as many levels as classes. Appending gives the longer output or the
  exception of the JSON writer; \<open>not_compiled\<close> is a failed \<open>static_assert\<close>.
\<close>

section \<open>Collecting classes\<close>

definition class_name :: "ctype \<Rightarrow> string option" where
  "class_name t = (case t of
       C_object name \<Rightarrow> Some name
     | C_text \<Rightarrow> Some ''flash::text''
     | C_bytes \<Rightarrow> Some ''flash::bytes''
     | C_response_message \<Rightarrow> Some ''flash::response_message''
     | C_request_context \<Rightarrow> Some ''flash::request_context''
     | _ \<Rightarrow> None)"

text \<open>\<open>reflectable_object\<close>: a class that is an aggregate.\<close>

definition reflectable_object :: "type_table \<Rightarrow> ctype \<Rightarrow> (string \<times> object_info) option" where
  "reflectable_object T t = Option.bind (class_name t) (\<lambda>name.
     Option.bind (T name) (\<lambda>ob. if ob_aggregate ob then Some (name, ob) else None))"

text \<open>The partial specialisations of \<open>collect_type\<close> that unwrap a template.\<close>

definition unwrapped :: "ctype \<Rightarrow> ctype option" where
  "unwrapped t = (case t of
       C_optional u \<Rightarrow> Some u
     | C_vector u \<Rightarrow> Some u
     | C_array u n \<Rightarrow> Some u
     | C_expected u e \<Rightarrow> Some u
     | C_created u \<Rightarrow> Some u
     | C_response u \<Rightarrow> Some u
     | C_task u \<Rightarrow> Some u
     | _ \<Rightarrow> None)"

lemma size_unwrapped [termination_simp]: "unwrapped t = Some u \<Longrightarrow> size u < size t"
  by (cases t) (auto simp: unwrapped_def)

function collect_type :: "nat \<Rightarrow> type_table \<Rightarrow> ctype \<Rightarrow> string list \<Rightarrow> string list option"
and collect_fields :: "nat \<Rightarrow> type_table \<Rightarrow> field_info list \<Rightarrow> string list \<Rightarrow> string list option"
where
  "collect_type n T t l = (case unwrapped t of
       Some u \<Rightarrow> collect_type n T u l
     | None \<Rightarrow>
         (case reflectable_object T t of
            None \<Rightarrow> Some l
          | Some (name, ob) \<Rightarrow>
              if name \<in> set l then Some l
              else (case n of 0 \<Rightarrow> None
                | Suc m \<Rightarrow> collect_fields m T (ob_fields ob) (l @ [name]))))"
| "collect_fields n T [] l = Some l"
| "collect_fields n T (f # fs) l = Option.bind (collect_type n T (fi_type f) l) (collect_fields n T fs)"
  by pat_completeness auto
termination
  by (relation "measures [\<lambda>x. case x of Inl (n, T, t, l) \<Rightarrow> n | Inr (n, T, fs, l) \<Rightarrow> n,
     \<lambda>x. case x of Inl _ \<Rightarrow> 0 | Inr _ \<Rightarrow> 1,
     \<lambda>x. case x of Inl (n, T, t, l) \<Rightarrow> size t | Inr (n, T, fs, l) \<Rightarrow> length fs]")
    (auto simp: size_unwrapped)

declare collect_type.simps [simp del]

text \<open>The recursions over \<open>Index\<close> take the list of the indices that are left.\<close>

fun collect_body_types :: "nat \<Rightarrow> type_table \<Rightarrow> decl_info \<Rightarrow> nat list \<Rightarrow> string list \<Rightarrow> string list option" where
  "collect_body_types n T f [] l = Some l"
| "collect_body_types n T f (i # is) l =
     Option.bind (parameter_source T f i) (\<lambda>source.
     Option.bind (parameter_at f i) (\<lambda>p.
     Option.bind (if source = Src_body then collect_type n T (pi_type p) l else Some l)
       (collect_body_types n T f is)))"

definition collect_endpoint_types ::
    "nat \<Rightarrow> type_table \<Rightarrow> decl_info \<Rightarrow> string list \<Rightarrow> string list option" where
  "collect_endpoint_types n T f l =
     Option.bind (collect_body_types n T f [0..<length (d_parameters f)] l) (collect_type n T (d_return f))"

fun collect_api_types :: "nat \<Rightarrow> type_table \<Rightarrow> decl_info list \<Rightarrow> string list \<Rightarrow> string list option" where
  "collect_api_types n T [] l = Some l"
| "collect_api_types n T (f # fs) l =
     Option.bind (collect_endpoint_types n T f l) (collect_api_types n T fs)"

text \<open>\<open>api_schema_types\<close>; the endpoints of a namespace, in order, are those of \<open>endpoint_at\<close>.\<close>

definition api_schema_types :: "nat \<Rightarrow> type_table \<Rightarrow> decl_info list \<Rightarrow> string list option" where
  "api_schema_types n T ns = collect_api_types n T (endpoints ns) []"

section \<open>Component names\<close>

fun sanitize :: "string \<Rightarrow> string" where
  "sanitize [] = []"
| "sanitize (c # cs) = (if alpha_numeric c \<or> c = CHR ''_'' then c else CHR ''_'') # sanitize cs"

definition component_name_value :: "object_info \<Rightarrow> fixed_string option" where
  "component_name_value ob =
     (if length (ob_schema_names ob) > 1 then None
      else if length (ob_schema_names ob) = 1 then Some (ob_schema_names ob ! 0)
      else if length (ob_display ob) < annotation_text_capacity
      then Some (fixed_substring (sanitize (ob_display ob)) 0 (length (ob_display ob)))
      else None)"

definition component_name :: "type_table \<Rightarrow> string \<Rightarrow> string option" where
  "component_name T name = Option.bind (T name) (\<lambda>ob. map_option view (component_name_value ob))"

definition component_name_values :: "type_table \<Rightarrow> string list \<Rightarrow> fixed_string list option" where
  "component_name_values T types = those (map (\<lambda>name. Option.bind (T name) component_name_value) types)"

function component_names_unique :: "fixed_string list \<Rightarrow> nat \<Rightarrow> nat \<Rightarrow> bool" where
  "component_names_unique names left right =
     (if left \<ge> length names then True
      else if right \<ge> length names then component_names_unique names (left + 1) (left + 2)
      else if fs_eq (names ! left) (names ! right) then False
      else component_names_unique names left (right + 1))"
  by pat_completeness auto
termination
  by (relation "measures [\<lambda>(names, left, right). length names - left,
       \<lambda>(names, left, right). length names - right]") auto

declare component_names_unique.simps [simp del]

definition validate_component_names :: "type_table \<Rightarrow> string list \<Rightarrow> bool" where
  "validate_component_names T types = (case component_name_values T types of None \<Rightarrow> False
     | Some names \<Rightarrow> component_names_unique names 0 1)"

section \<open>Schemas\<close>

fun append_enum_values :: "(string \<times> int) list \<Rightarrow> nat \<Rightarrow> string \<Rightarrow> string throwing" where
  "append_enum_values [] index output = Inr output"
| "append_enum_values (e # es) index output =
     append_enum_values es (index + 1)
       (append_escaped_string (if index \<noteq> 0 then output @ '','' else output) (fst e))"

definition rule_keyword :: "constraint_kind \<Rightarrow> string" where
  "rule_keyword k = (case k of
       Minimum \<Rightarrow> ''minimum''
     | Exclusive_minimum \<Rightarrow> ''exclusiveMinimum''
     | Maximum \<Rightarrow> ''maximum''
     | Exclusive_maximum \<Rightarrow> ''exclusiveMaximum''
     | Min_length \<Rightarrow> ''minLength''
     | Max_length \<Rightarrow> ''maxLength''
     | Min_items \<Rightarrow> ''minItems''
     | Max_items \<Rightarrow> ''maxItems'')"

text \<open>The \<open>switch\<close> on a rule; \<open>json::append\<close> of a \<open>double\<close> or of a \<open>size_t\<close>.\<close>

definition append_rule :: "constraint_annotation \<Rightarrow> string \<Rightarrow> string throwing" where
  "append_rule rule output =
     (let o1 = output @ '',\"'' @ rule_keyword (ca_kind rule) @ ''\":'' in
      if ca_kind rule \<in> {Minimum, Exclusive_minimum, Maximum, Exclusive_maximum}
      then append_float Binary64 (ca_numeric rule) o1
      else append_integer False 64 (int (ca_size rule)) o1)"

fun append_rules :: "constraint_annotation list \<Rightarrow> string \<Rightarrow> string throwing" where
  "append_rules [] output = Inr output"
| "append_rules (rule # rules) output = bind_sum (append_rule rule output) (append_rules rules)"

definition append_constraints :: "field_info \<Rightarrow> string \<Rightarrow> string throwing" where
  "append_constraints f = append_rules (fi_constraints f)"

definition schema_reference :: "string \<Rightarrow> string" where
  "schema_reference name = ''\"$ref\":\"#/components/schemas/'' @ name @ ''\"''"

function append_schema :: "type_table \<Rightarrow> ctype \<Rightarrow> string \<Rightarrow> string throwing" where
  "append_schema T t output = (case t of
       C_optional u \<Rightarrow>
         bind_sum (append_schema T u (output @ ''\"anyOf\":[{''))
           (\<lambda>o1. Inr (o1 @ ''},{\"type\":\"null\"}]''))
     | C_string \<Rightarrow> Inr (output @ ''\"type\":\"string\"'')
     | C_string_view \<Rightarrow> Inr (output @ ''\"type\":\"string\"'')
     | C_bool \<Rightarrow> Inr (output @ ''\"type\":\"boolean\"'')
     | C_int sgnd w \<Rightarrow> Inr (output @ ''\"type\":\"integer\"'' @
         (if w \<le> 32 then '',\"format\":\"int32\"'' else '',\"format\":\"int64\"''))
     | C_float f \<Rightarrow> Inr (output @ ''\"type\":\"number\"'' @
         (if f = Binary32 then '',\"format\":\"float\"'' else '',\"format\":\"double\"''))
     | C_enum en \<Rightarrow>
         bind_sum (append_enum_values (en_enumerators en) 0 (output @ ''\"type\":\"string\",\"enum\":[''))
           (\<lambda>o1. Inr (o1 @ '']''))
     | C_vector u \<Rightarrow>
         bind_sum (append_schema T u (output @ ''\"type\":\"array\",\"items\":{'')) (\<lambda>o1. Inr (o1 @ ''}''))
     | C_array u n \<Rightarrow>
         bind_sum (append_schema T u (output @ ''\"type\":\"array\",\"items\":{'')) (\<lambda>o1.
         bind_sum (append_integer False 64 (int n) (o1 @ ''},\"minItems\":'')) (\<lambda>o2.
           append_integer False 64 (int n) (o2 @ '',\"maxItems\":'')))
     | C_void \<Rightarrow> Inr output
     | _ \<Rightarrow>
         (case reflectable_object T t of
            None \<Rightarrow> not_compiled
          | Some (name, ob) \<Rightarrow>
              (case component_name T name of
                 None \<Rightarrow> not_compiled
               | Some cn \<Rightarrow> Inr (output @ schema_reference cn))))"
  by pat_completeness auto
termination
  by (relation "measure (\<lambda>(T, t, output). size t)") auto

declare append_schema.simps [simp del]

text \<open>
  The assertion on a second description is in a template that is only instantiated for exactly one, so
  with two of them nothing is appended.
\<close>

definition append_description :: "fixed_string list \<Rightarrow> string \<Rightarrow> string" where
  "append_description ds output =
     (if length ds = 1 then append_escaped_string (output @ '',\"description\":'') (view (ds ! 0))
      else output)"

definition append_deprecated :: "nat \<Rightarrow> string \<Rightarrow> string" where
  "append_deprecated n output = (if n \<noteq> 0 then output @ '',\"deprecated\":true'' else output)"

definition append_default :: "type_table \<Rightarrow> ctype \<Rightarrow> jvalue list \<Rightarrow> string \<Rightarrow> string throwing" where
  "append_default T t defaults output =
     (if length defaults = 1 then append_value T t (defaults ! 0) (output @ '',\"default\":'')
      else Inr output)"

definition append_property :: "type_table \<Rightarrow> field_info \<Rightarrow> string \<Rightarrow> string throwing" where
  "append_property T f output =
     bind_sum (append_schema T (fi_type f) (append_escaped_string output (field_wire_name f) @ '':{'')) (\<lambda>o1.
     bind_sum (append_constraints f o1) (\<lambda>o2.
     bind_sum (append_default T (fi_type f) (fi_defaults f) o2) (\<lambda>o3.
       Inr (append_deprecated (fi_deprecated f) (append_description (fi_descriptions f) o3) @ ''}''))))"

fun append_properties :: "type_table \<Rightarrow> field_info list \<Rightarrow> nat \<Rightarrow> string \<Rightarrow> string throwing" where
  "append_properties T [] index output = Inr output"
| "append_properties T (f # fs) index output =
     bind_sum (append_property T f (if index \<noteq> 0 then output @ '','' else output))
       (append_properties T fs (index + 1))"

definition is_required :: "field_info \<Rightarrow> bool" where
  "is_required f \<longleftrightarrow> (case fi_type f of C_optional _ \<Rightarrow> False | _ \<Rightarrow> True) \<and> length (fi_defaults f) = 0"

fun append_required :: "field_info list \<Rightarrow> bool \<Rightarrow> string \<Rightarrow> string" where
  "append_required [] first output = output"
| "append_required (f # fs) first output =
     (if is_required f
      then append_required fs False
        (append_escaped_string (if \<not> first then output @ '','' else output) (field_wire_name f))
      else append_required fs first output)"

definition append_component :: "type_table \<Rightarrow> object_info \<Rightarrow> string \<Rightarrow> string throwing" where
  "append_component T ob output =
     (if \<not> validate_output_schema ob then not_compiled
      else
        bind_sum (append_properties T (ob_fields ob) 0
            (output @ ''{\"type\":\"object\",\"additionalProperties\":false,\"properties\":{'')) (\<lambda>o1.
          Inr (append_required (ob_fields ob) True (o1 @ ''},\"required\":['') @ '']}'')))"

fun append_components :: "type_table \<Rightarrow> string list \<Rightarrow> bool \<Rightarrow> string \<Rightarrow> string throwing" where
  "append_components T [] first output = Inr output"
| "append_components T (name # names) first output =
     (case (T name, component_name T name) of
        (Some ob, Some cn) \<Rightarrow>
          bind_sum (append_component T ob
              (append_escaped_string (if \<not> first then output @ '','' else output) cn @ '':''))
            (append_components T names False)
      | _ \<Rightarrow> not_compiled)"

definition component_schema :: "type_table \<Rightarrow> string \<Rightarrow> string throwing" where
  "component_schema T name = (case T name of None \<Rightarrow> not_compiled | Some ob \<Rightarrow> append_component T ob [])"

end
