(* ===== verification/Flash_Openapi_Document.thy ===== *)
theory Flash_Openapi_Document
  imports Flash_Openapi_Schema Flash_Problem
begin

text \<open>
  \<open>include/flash/openapi/document.hpp\<close>: parameters, request bodies, responses and paths of the generated
  document; and \<open>include/flash/openapi/docs.hpp\<close>: the documentation routes of development mode.
\<close>

section \<open>Names and paths\<close>

definition method_name :: "http_method \<Rightarrow> string" where
  "method_name m = (case m of Get \<Rightarrow> ''get'' | Post \<Rightarrow> ''post'' | Put \<Rightarrow> ''put'' | Patch \<Rightarrow> ''patch''
     | Delete \<Rightarrow> ''delete'' | Head \<Rightarrow> ''head'' | Options \<Rightarrow> ''options'')"

definition append_status :: "string \<Rightarrow> status \<Rightarrow> string" where
  "append_status output value = output @ show_nat (status_code value)"

fun normalize_path :: "string \<Rightarrow> string" where
  "normalize_path [] = []"
| "normalize_path (c # cs) =
     (if c = CHR ''{'' \<and> cs \<noteq> [] \<and> hd cs = CHR ''*'' then CHR ''{'' # normalize_path (tl cs)
      else c # normalize_path cs)"

definition append_openapi_path :: "string \<Rightarrow> string \<Rightarrow> string" where
  "append_openapi_path output route = append_escaped_string output (normalize_path route)"

section \<open>Checks\<close>

function operation_ids_unique :: "string list \<Rightarrow> nat \<Rightarrow> nat \<Rightarrow> bool" where
  "operation_ids_unique ids left right =
     (if left \<ge> length ids then True
      else if right \<ge> length ids then operation_ids_unique ids (left + 1) (left + 2)
      else if ids ! left = ids ! right then False
      else operation_ids_unique ids left (right + 1))"
  by pat_completeness auto
termination
  by (relation "measures [\<lambda>(ids, left, right). length ids - left,
       \<lambda>(ids, left, right). length ids - right]") auto

declare operation_ids_unique.simps [simp del]

definition validate_document :: "type_table \<Rightarrow> decl_info list \<Rightarrow> string list \<Rightarrow> bool" where
  "validate_document T ns types \<longleftrightarrow> compile_api ns \<noteq> None \<and> validate_component_names T types \<and>
     operation_ids_unique (map d_identifier (endpoints ns)) 0 1"

section \<open>Parameters and bodies\<close>

text \<open>The rules of a parameter; the code repeats the \<open>switch\<close> of \<open>append_constraints\<close>.\<close>

definition append_parameter_constraint_values :: "parameter_info \<Rightarrow> string \<Rightarrow> string throwing" where
  "append_parameter_constraint_values p = append_rules (pi_constraints p)"

definition parameter_location :: "source_kind \<Rightarrow> string" where
  "parameter_location source =
     (if source = Src_path then ''path'' else if source = Src_query then ''query''
      else if source = Src_header then ''header'' else ''cookie'')"

definition parameter_required :: "parameter_info \<Rightarrow> source_kind \<Rightarrow> bool" where
  "parameter_required p source \<longleftrightarrow> source = Src_path \<or>
     ((case pi_type p of C_optional _ \<Rightarrow> False | _ \<Rightarrow> True) \<and> default_annotation_count p = 0)"

definition append_parameter ::
    "type_table \<Rightarrow> parameter_info \<Rightarrow> source_kind \<Rightarrow> string \<Rightarrow> string \<Rightarrow> string throwing" where
  "append_parameter T p source name output =
     (let o1 = append_escaped_string (output @ ''{\"name\":'') name @ '',\"in\":'';
          o2 = append_escaped_string o1 (parameter_location source);
          o3 = append_deprecated (pi_deprecated p) (append_description (pi_descriptions p) o2);
          o4 = o3 @ (if parameter_required p source then '',\"required\":true,\"schema\":{''
                     else '',\"required\":false,\"schema\":{'')
      in
        bind_sum (append_schema T (pi_type p) o4) (\<lambda>o5.
        bind_sum (append_parameter_constraint_values p o5) (\<lambda>o6.
        bind_sum (append_default T (pi_type p) (pi_defaults p) o6) (\<lambda>o7.
          Inr (o7 @ ''}}'')))))"

fun append_parameters ::
    "type_table \<Rightarrow> decl_info \<Rightarrow> nat list \<Rightarrow> bool \<Rightarrow> string \<Rightarrow> string throwing" where
  "append_parameters T f [] first output = Inr output"
| "append_parameters T f (i # is) first output =
     (case (parameter_at f i, parameter_source T f i) of
        (Some p, Some source) \<Rightarrow>
          (if source \<in> {Src_path, Src_query, Src_header, Src_cookie}
           then (case wire_name f i of
               None \<Rightarrow> not_compiled
             | Some name \<Rightarrow>
                 bind_sum (append_parameter T p source name (if \<not> first then output @ '','' else output))
                   (append_parameters T f is False))
           else append_parameters T f is first output)
      | _ \<Rightarrow> not_compiled)"

fun append_request_body :: "type_table \<Rightarrow> decl_info \<Rightarrow> nat list \<Rightarrow> string \<Rightarrow> string throwing" where
  "append_request_body T f [] output = Inr output"
| "append_request_body T f (i # is) output =
     (case (parameter_at f i, parameter_source T f i) of
        (Some p, Some source) \<Rightarrow>
          (if source = Src_body then
             bind_sum (append_schema T (pi_type p)
                 (output @ '',\"requestBody\":{\"required\":true,\"content\":{\"application/json\":{\"schema\":{''))
               (\<lambda>o1. Inr (o1 @ ''}}}}''))
           else append_request_body T f is output)
      | _ \<Rightarrow> not_compiled)"

section \<open>Responses\<close>

fun success_status :: "ctype \<Rightarrow> status" where
  "success_status (C_task t) = success_status t"
| "success_status (C_expected t e) = success_status t"
| "success_status (C_created t) = Created201"
| "success_status C_void = No_content204"
| "success_status _ = Ok200"

definition append_json_content :: "type_table \<Rightarrow> ctype \<Rightarrow> string \<Rightarrow> string throwing" where
  "append_json_content T t output =
     bind_sum (append_schema T (case t of C_created u \<Rightarrow> u | C_response u \<Rightarrow> u | _ \<Rightarrow> t)
         (output @ '',\"content\":{\"application/json\":{\"schema\":{''))
       (\<lambda>o1. Inr (o1 @ ''}}}}''))"

definition append_plain_response :: "type_table \<Rightarrow> ctype \<Rightarrow> string \<Rightarrow> string throwing" where
  "append_plain_response T t output =
     (let o1 = append_status (output @ ''\"'') (success_status t) @
                 ''\":{\"description\":\"Successful response\"''
      in case t of
           C_void \<Rightarrow> Inr (o1 @ ''}'')
         | C_text \<Rightarrow> Inr (o1 @ '',\"content\":{\"text/plain\":{\"schema\":{\"type\":\"string\"}}}}'')
         | C_bytes \<Rightarrow> Inr (o1 @ '',\"content\":{\"application/octet-stream\":{\"schema\":{'' @
             ''\"type\":\"string\",\"format\":\"binary\"}}}}'')
         | C_response_message \<Rightarrow> Inr (o1 @ ''}'')
         | _ \<Rightarrow> append_json_content T t o1)"

function append_success_response :: "type_table \<Rightarrow> ctype \<Rightarrow> string \<Rightarrow> string throwing" where
  "append_success_response T t output = (case t of
       C_task u \<Rightarrow> append_success_response T u output
     | C_expected u e \<Rightarrow> append_success_response T u output
     | _ \<Rightarrow> append_plain_response T t output)"
  by pat_completeness auto
termination
  by (relation "measure (\<lambda>(T, t, output). size t)") auto

declare append_success_response.simps [simp del]

definition problem_reference :: "string \<Rightarrow> string" where
  "problem_reference code = '',\"'' @ code @ ''\":{\"$ref\":\"#/components/responses/Problem\"}''"

text \<open>\<open>previous\<close> are the entries before \<open>Index\<close>, which the loop in \<open>duplicate\<close> looks through.\<close>

fun append_domain_responses ::
    "error_mapping list \<Rightarrow> error_mapping list \<Rightarrow> status \<Rightarrow> string \<Rightarrow> string" where
  "append_domain_responses previous [] success output = output"
| "append_domain_responses previous (m # ms) success output =
     (let duplicate = list_ex (\<lambda>p. em_status p = em_status m) previous in
      append_domain_responses (previous @ [m]) ms success
        (if \<not> duplicate \<and> em_status m \<noteq> success
         then output @ problem_reference (append_status [] (em_status m)) else output))"

fun has_mapped_status :: "error_mapping list \<Rightarrow> status \<Rightarrow> bool" where
  "has_mapped_status [] s = False"
| "has_mapped_status (m # ms) s = (if em_status m = s then True else has_mapped_status ms s)"

function append_error_responses :: "error_map \<Rightarrow> ctype \<Rightarrow> string \<Rightarrow> string throwing" where
  "append_error_responses em t output = (case t of
       C_task u \<Rightarrow> append_error_responses em u output
     | C_expected u e \<Rightarrow>
         (if \<not> validate_error_mapping em e then not_compiled
          else
            (let ms = the (em e);
                 o1 = append_domain_responses [] ms (success_status t) output
             in Inr (if \<not> has_mapped_status ms Unprocessable_content422 \<and>
                       success_status t \<noteq> Unprocessable_content422
                     then o1 @ problem_reference ''422'' else o1)))
     | _ \<Rightarrow> Inr (if success_status t \<noteq> Unprocessable_content422
               then output @ problem_reference ''422'' else output))"
  by pat_completeness auto
termination
  by (relation "measure (\<lambda>(em, t, output). size t)") auto

declare append_error_responses.simps [simp del]

section \<open>Operations and paths\<close>

definition append_operation :: "type_table \<Rightarrow> error_map \<Rightarrow> decl_info \<Rightarrow> string \<Rightarrow> string throwing" where
  "append_operation T em f output =
     (if \<not> validate_endpoint_binding T f then not_compiled
      else
        (let indices = [0..<length (d_parameters f)];
             o1 = append_escaped_string (output @ ''{\"operationId\":'') (d_identifier f);
             o2 = append_deprecated (d_deprecated f) (append_description (d_descriptions f) o1)
         in
           bind_sum (append_parameters T f indices True (o2 @ '',\"parameters\":['')) (\<lambda>o3.
           bind_sum (append_request_body T f indices (o3 @ '']'')) (\<lambda>o4.
           bind_sum (append_success_response T (d_return f) (o4 @ '',\"responses\":{'')) (\<lambda>o5.
           bind_sum (append_error_responses em (d_return f) o5) (\<lambda>o6.
             Inr (o6 @ ''}}'')))))))"

definition same_path :: "decl_info \<Rightarrow> decl_info \<Rightarrow> bool" where
  "same_path f g = (case (route_of f, route_of g) of
     (Some r, Some s) \<Rightarrow> fs_eq (ra_path r) (ra_path s) | _ \<Rightarrow> False)"

fun append_path_operations ::
    "type_table \<Rightarrow> error_map \<Rightarrow> decl_info \<Rightarrow> decl_info list \<Rightarrow> bool \<Rightarrow> string \<Rightarrow> string throwing" where
  "append_path_operations T em path_function [] first output = Inr output"
| "append_path_operations T em path_function (f # fs) first output =
     (case route_of f of
        None \<Rightarrow> not_compiled
      | Some r \<Rightarrow>
          (if same_path path_function f then
             bind_sum (append_operation T em f
                 (append_escaped_string (if \<not> first then output @ '','' else output)
                   (method_name (ra_method r)) @ '':''))
               (append_path_operations T em path_function fs False)
           else append_path_operations T em path_function fs first output))"

fun first_path_occurrence :: "decl_info list \<Rightarrow> decl_info \<Rightarrow> bool" where
  "first_path_occurrence [] current = True"
| "first_path_occurrence (earlier # es) current =
     (if same_path current earlier then False else first_path_occurrence es current)"

fun append_paths ::
    "type_table \<Rightarrow> error_map \<Rightarrow> decl_info list \<Rightarrow> decl_info list \<Rightarrow> decl_info list \<Rightarrow> bool \<Rightarrow> string \<Rightarrow>
     string throwing" where
  "append_paths T em all earlier [] first output = Inr output"
| "append_paths T em all earlier (f # fs) first output =
     (case route_of f of
        None \<Rightarrow> not_compiled
      | Some r \<Rightarrow>
          (if first_path_occurrence earlier f then
             bind_sum (append_path_operations T em f all True
                 (append_openapi_path (if \<not> first then output @ '','' else output) (view (ra_path r)) @ '':{''))
               (\<lambda>o1. append_paths T em all (earlier @ [f]) fs False (o1 @ ''}''))
           else append_paths T em all (earlier @ [f]) fs first output))"

section \<open>The document\<close>

definition problem_components :: string where
  "problem_components =
     ''\"Problem\":{\"type\":\"object\",\"required\":[\"type\",\"title\",\"status\"],'' @
     ''\"properties\":{\"type\":{\"type\":\"string\",\"format\":\"uri-reference\"},'' @
     ''\"title\":{\"type\":\"string\"},\"status\":{\"type\":\"integer\"},'' @
     ''\"detail\":{\"type\":\"string\"},\"instance\":{\"type\":\"string\"},'' @
     ''\"errors\":{\"type\":\"array\",\"items\":{\"type\":\"object\"}}}}},'' @
     ''\"responses\":{\"Problem\":{\"description\":\"Request failed\",'' @
     ''\"content\":{\"application/problem+json\":{\"schema\":{'' @
     ''\"$ref\":\"#/components/schemas/Problem\"}}}}}''"

definition append_problem_components :: "string \<Rightarrow> string" where
  "append_problem_components output = output @ problem_components"

definition generate_document ::
    "nat \<Rightarrow> type_table \<Rightarrow> error_map \<Rightarrow> decl_info list \<Rightarrow> string \<Rightarrow> string \<Rightarrow> string throwing" where
  "generate_document n T em ns title version =
     (case api_schema_types n T ns of
        None \<Rightarrow> not_compiled
      | Some types \<Rightarrow>
          (if \<not> validate_document T ns types then not_compiled
           else
             (let fs = endpoints ns;
                  o1 = append_escaped_string ''{\"openapi\":\"3.1.1\",\"info\":{\"title\":'' title;
                  o2 = append_escaped_string (o1 @ '',\"version\":'') version
              in
                bind_sum (append_paths T em fs [] fs True (o2 @ ''},\"paths\":{'')) (\<lambda>o3.
                bind_sum (append_components T types True (o3 @ ''},\"components\":{\"schemas\":{'')) (\<lambda>o4.
                  Inr (append_problem_components (if length types \<noteq> 0 then o4 @ '','' else o4) @ ''}}''))))))"

text \<open>The document with the default arguments; the code keeps the first result.\<close>

definition document :: "nat \<Rightarrow> type_table \<Rightarrow> error_map \<Rightarrow> decl_info list \<Rightarrow> string throwing" where
  "document n T em ns = generate_document n T em ns ''Flash API'' ''0.1.0''"

end
