(* ===== verification/Flash_Json_Tree.thy ===== *)
theory Flash_Json_Tree
  imports Flash_Json_Text
begin

text \<open>
  JSON values as trees with their text, the judgement \<open>appends f s\<close> (\<open>f\<close> adds \<open>s\<close> to its output or throws),
  and the interface \<open>comma_loop\<close> of the generator's loops that write items with commas between them.
\<close>

section \<open>Trees\<close>

text \<open>A number, a boolean or an already written value is kept as its text.\<close>

datatype json =
    J_raw string
  | J_string string
  | J_list "json list"
  | J_object "(string \<times> json) list"

fun render :: "json \<Rightarrow> string" where
  "render (J_raw s) = s"
| "render (J_string s) = quoted s"
| "render (J_list js) = ''['' @ join_with (CHR '','') (map render js) @ '']''"
| "render (J_object ms) = ''{'' @ join_with (CHR '','') (map (\<lambda>(k, j). quoted k @ '':'' @ render j) ms) @ ''}''"

definition member_string :: "string \<times> json \<Rightarrow> string" where
  "member_string m = quoted (fst m) @ '':'' @ render (snd m)"

definition members_string :: "(string \<times> json) list \<Rightarrow> string" where
  "members_string ms = join_with (CHR '','') (map member_string ms)"

text \<open>Members that follow others.\<close>

definition more_members :: "(string \<times> json) list \<Rightarrow> string" where
  "more_members ms = concat (map (\<lambda>m. CHR '','' # member_string m) ms)"

lemma render_object: "render (J_object ms) = ''{'' @ members_string ms @ ''}''"
  by (simp add: members_string_def member_string_def [abs_def] case_prod_unfold)

lemma more_members_simps [simp]:
  "more_members [] = []" "more_members (m # ms) = CHR '','' # member_string m @ more_members ms"
  "more_members (ms @ ns) = more_members ms @ more_members ns"
  by (simp_all add: more_members_def)

lemma members_string_append: "ms \<noteq> [] \<Longrightarrow> members_string (ms @ ns) = members_string ms @ more_members ns"
proof -
  assume "ms \<noteq> []"
  then obtain m ms' where "ms = m # ms'" by (cases ms) auto
  then show ?thesis by (simp add: members_string_def more_members_def join_with_concat comp_def)
qed

lemma members_string_Cons [simp]:
  "members_string [] = []" "members_string (m # ms) = member_string m @ more_members ms"
  by (simp_all add: members_string_def more_members_def join_with_concat comp_def)

section \<open>Quotes around plain text\<close>

definition plain_text :: "string \<Rightarrow> bool" where
  "plain_text s \<longleftrightarrow> list_all (\<lambda>c. escape_char c = [c]) s"

lemma plain_escaped: "plain_text s \<Longrightarrow> escaped s = s"
  by (induction s) (auto simp: plain_text_def)

lemma quoted_plain: "plain_text s \<Longrightarrow> quoted s = ''\"'' @ s @ ''\"''"
  by (simp add: quoted_def plain_escaped)

section \<open>Appending\<close>

definition appends :: "(string \<Rightarrow> string throwing) \<Rightarrow> string \<Rightarrow> bool" where
  "appends f s \<longleftrightarrow> (\<forall>out out'. f out = Inr out' \<longrightarrow> out' = out @ s)"

lemma appendsD: "appends f s \<Longrightarrow> f out = Inr out' \<Longrightarrow> out' = out @ s"
  by (simp add: appends_def)

lemma appendsI: "(\<And>out out'. f out = Inr out' \<Longrightarrow> out' = out @ s) \<Longrightarrow> appends f s"
  by (simp add: appends_def)

lemma appends_Inr [intro]: "(\<And>out. g out = out @ s) \<Longrightarrow> appends (\<lambda>out. Inr (g out)) s"
  by (simp add: appends_def)

lemma appends_Inl [intro, simp]: "appends (\<lambda>out. Inl e) s" "appends (\<lambda>out. not_compiled) s"
  by (simp_all add: appends_def not_compiled_def)

lemma appends_bind:
  assumes "appends f a" "appends g b"
  shows "appends (\<lambda>out. bind_sum (f out) g) (a @ b)"
proof (rule appendsI)
  fix out out'
  assume "bind_sum (f out) g = Inr out'"
  then obtain x where x: "f out = Inr x" "g x = Inr out'" by (auto simp: bind_sum_Inr_iff)
  from appendsD [OF assms(1) x(1)] appendsD [OF assms(2) x(2)] show "out' = out @ a @ b" by simp
qed

lemma appends_pre:
  assumes "appends f a" "\<And>out. g out = out @ b"
  shows "appends (\<lambda>out. f (g out)) (b @ a)"
proof (rule appendsI)
  fix out out'
  assume "f (g out) = Inr out'"
  from appendsD [OF assms(1) this] show "out' = out @ b @ a" by (simp add: assms(2))
qed

lemma appends_post:
  "appends f a \<Longrightarrow> (\<And>out. g out = out @ b) \<Longrightarrow> appends (\<lambda>out. bind_sum (f out) (\<lambda>o1. Inr (g o1))) (a @ b)"
  by (intro appends_bind appends_Inr) simp_all

lemma appends_eq: "appends f a \<Longrightarrow> a = b \<Longrightarrow> appends f b"
  by simp

section \<open>Loops with commas\<close>

text \<open>
  \<open>keep\<close> says which elements are written, \<open>item\<close> writes one; \<open>fresh\<close> tells from the loop's counter or
  flag whether nothing has been written yet.
\<close>

locale comma_loop =
  fixes loop :: "'a list \<Rightarrow> 'k \<Rightarrow> string \<Rightarrow> string throwing"
    and item :: "'a \<Rightarrow> string \<Rightarrow> string throwing"
    and keep :: "'a \<Rightarrow> bool"
    and fresh :: "'k \<Rightarrow> bool"
    and later :: "'k \<Rightarrow> 'k"
  assumes loop_Nil: "loop [] k out = Inr out"
    and loop_keep: "keep x \<Longrightarrow> loop (x # xs) k out =
      bind_sum (item x (if \<not> fresh k then out @ '','' else out)) (loop xs (later k))"
    and loop_skip: "\<not> keep x \<Longrightarrow> loop (x # xs) k out = loop xs k out"
    and not_fresh: "\<not> fresh (later k)"
begin

lemma loop_later:
  assumes "\<And>x. x \<in> set xs \<Longrightarrow> keep x \<Longrightarrow> appends (item x) (str x)" "\<not> fresh k"
  shows "appends (loop xs k) (concat (map (\<lambda>x. CHR '','' # str x) (filter keep xs)))"
  using assms
proof (induction xs arbitrary: k)
  case (Cons x xs)
  show ?case
  proof (cases "keep x")
    case True
    have "appends (item x) (str x)" using Cons.prems(1) True by simp
    moreover have "appends (loop xs (later k)) (concat (map (\<lambda>x. CHR '','' # str x) (filter keep xs)))"
      by (rule Cons.IH) (simp_all add: Cons.prems not_fresh)
    ultimately have "appends (\<lambda>out. bind_sum (item x (out @ '','')) (loop xs (later k)))
        (('','' @ str x) @ concat (map (\<lambda>x. CHR '','' # str x) (filter keep xs)))"
      by (intro appends_bind appends_pre) simp_all
    then show ?thesis using True Cons.prems(2) by (simp add: appends_def loop_keep)
  next
    case False
    have "appends (loop xs k) (concat (map (\<lambda>x. CHR '','' # str x) (filter keep xs)))"
      by (rule Cons.IH) (simp_all add: Cons.prems)
    with False show ?thesis by (simp add: appends_def loop_skip)
  qed
qed (simp add: appends_def loop_Nil)

lemma loop_appends:
  assumes "\<And>x. x \<in> set xs \<Longrightarrow> keep x \<Longrightarrow> appends (item x) (str x)" "fresh k"
  shows "appends (loop xs k) (join_with (CHR '','') (map str (filter keep xs)))"
  using assms(1)
proof (induction xs)
  case (Cons x xs)
  show ?case
  proof (cases "keep x")
    case True
    have "appends (item x) (str x)" using Cons.prems(1) True by simp
    moreover have "appends (loop xs (later k)) (concat (map (\<lambda>x. CHR '','' # str x) (filter keep xs)))"
      by (rule loop_later) (simp_all add: Cons.prems not_fresh)
    ultimately have "appends (\<lambda>out. bind_sum (item x out) (loop xs (later k)))
        (str x @ concat (map (\<lambda>x. CHR '','' # str x) (filter keep xs)))"
      by (rule appends_bind)
    then show ?thesis using True assms(2) by (simp add: appends_def loop_keep join_with_concat comp_def)
  next
    case False
    have "appends (loop xs k) (join_with (CHR '','') (map str (filter keep xs)))"
      by (rule Cons.IH) (simp_all add: Cons.prems)
    with False show ?thesis by (simp add: appends_def loop_skip)
  qed
qed (simp add: appends_def loop_Nil)

end

section \<open>Values\<close>

text \<open>The writer of values appends, and what it appends does not depend on what is there.\<close>

definition shifts :: "(string \<Rightarrow> string throwing) \<Rightarrow> bool" where
  "shifts f \<longleftrightarrow> (\<forall>a out. f (a @ out) = map_sum id ((@) a) (f out))"

lemma shiftsD: "shifts f \<Longrightarrow> f (a @ out) = map_sum id ((@) a) (f out)"
  by (simp add: shifts_def)

lemma shifts_Inr: "(\<And>a out. g (a @ out) = a @ g out) \<Longrightarrow> shifts (\<lambda>out. Inr (g out))"
  by (simp add: shifts_def)

lemma shifts_Inl [simp]: "shifts (\<lambda>out. Inl e)" "shifts (\<lambda>out. not_compiled)"
  by (simp_all add: shifts_def not_compiled_def)

lemma shifts_bind:
  assumes "shifts f" "shifts g"
  shows "shifts (\<lambda>out. bind_sum (f out) g)"
  unfolding shifts_def
proof (intro allI)
  fix a out
  show "bind_sum (f (a @ out)) g = map_sum id ((@) a) (bind_sum (f out) g)"
    using assms by (cases "f out") (simp_all add: shiftsD)
qed

lemma shifts_pre: "shifts f \<Longrightarrow> (\<And>a out. g (a @ out) = a @ g out) \<Longrightarrow> shifts (\<lambda>out. f (g out))"
  by (simp add: shifts_def)

lemma append_escaped_string_append: "append_escaped_string (a @ out) s = a @ append_escaped_string out s"
  by (simp add: append_escaped_string_eq)

lemma shifts_scalars:
  "shifts (append_integer sgnd w i)" "shifts (append_float f x)" "shifts (append_enum en i)"
  by (simp_all add: shifts_def append_integer_def append_float_def append_enum_def Let_def
      append_escaped_string_append split: option.splits)

lemma append_elements_shifts:
  "\<forall>x \<in> set vs. shifts (append_value T t x) \<Longrightarrow> shifts (append_elements T t vs first)"
proof (induction vs arbitrary: first)
  case Nil
  show ?case by (auto intro: shifts_Inr)
next
  case (Cons v vs)
  have "shifts (\<lambda>out. bind_sum (append_value T t v (if \<not> first then out @ '','' else out)) (append_elements T t vs False))"
    by (rule shifts_bind, rule shifts_pre) (use Cons in simp_all)
  then show ?case by (simp add: shifts_def)
qed

lemma append_object_fields_shifts:
  "\<forall>x \<in> set vs. \<forall>t. shifts (append_value T t x) \<Longrightarrow> shifts (append_object_fields T fs index vs)"
proof (induction vs arbitrary: fs index)
  case Nil
  then show ?case by (cases fs) (auto intro: shifts_Inr)
next
  case (Cons v vs)
  show ?case
  proof (cases fs)
    case (Cons f fs')
    have "shifts (\<lambda>out. bind_sum (append_value T (fi_type f) v
        (append_escaped_string (if index \<noteq> 0 then out @ '','' else out) (field_wire_name f) @ '':''))
        (append_object_fields T fs' (index + 1) vs))"
      by (rule shifts_bind, rule shifts_pre)
        (use Cons.prems Cons.IH in \<open>simp_all add: append_escaped_string_append\<close>)
    then show ?thesis using Cons by (simp add: shifts_def Let_def)
  qed (auto intro: shifts_Inr)
qed

lemma append_value_shifts: "shifts (append_value T t v)"
proof (induction v arbitrary: t)
  case (V_some x)
  then show ?case by (cases t) (simp_all add: shifts_def append_value.simps not_compiled_def)
next
  case (V_list vs)
  have "shifts (\<lambda>out. bind_sum (append_elements T u vs True (out @ ''['')) (\<lambda>o1. Inr (o1 @ '']'')))" for u
    by (rule shifts_bind, rule shifts_pre, rule append_elements_shifts) (use V_list in \<open>auto simp: shifts_def\<close>)
  then show ?case by (cases t) (simp_all add: shifts_def append_value.simps not_compiled_def)
next
  case (V_object vs)
  have "shifts (\<lambda>out. bind_sum (append_object_fields T fs 0 vs (out @ ''{'')) (\<lambda>o1. Inr (o1 @ ''}'')))" for fs
    by (rule shifts_bind, rule shifts_pre, rule append_object_fields_shifts)
      (use V_object in \<open>auto simp: shifts_def\<close>)
  then show ?case
    by (cases t) (simp_all add: shifts_def append_value.simps not_compiled_def split: option.splits)
next
  case (V_string s)
  show ?case by (cases t) (simp_all add: shifts_def append_value.simps not_compiled_def append_escaped_string_append)
next
  case (V_bool b)
  show ?case by (cases t) (simp_all add: shifts_def append_value.simps not_compiled_def)
next
  case (V_int i)
  show ?case
    by (cases t) (simp_all add: shifts_def append_value.simps not_compiled_def shiftsD [OF shifts_scalars(1)])
next
  case (V_float x)
  show ?case
    by (cases t) (simp_all add: shifts_def append_value.simps not_compiled_def shiftsD [OF shifts_scalars(2)])
next
  case (V_enum i)
  show ?case
    by (cases t) (simp_all add: shifts_def append_value.simps not_compiled_def shiftsD [OF shifts_scalars(3)])
next
  case V_null
  show ?case by (cases t) (simp_all add: shifts_def append_value.simps not_compiled_def)
qed

text \<open>The text of a value, and the judgement for every function that shifts.\<close>

definition string_of :: "(string \<Rightarrow> string throwing) \<Rightarrow> string" where
  "string_of f = (case f [] of Inr s \<Rightarrow> s | Inl e \<Rightarrow> [])"

lemma shifts_appends: "shifts f \<Longrightarrow> appends f (string_of f)"
proof (rule appendsI)
  fix out out'
  assume "shifts f" "f out = Inr out'"
  then show "out' = out @ string_of f" using shiftsD [of f out "[]"] by (cases "f []") (simp_all add: string_of_def)
qed

end
