(* ===== verification/Flash_Openapi_Tree.thy ===== *)
theory Flash_Openapi_Tree
  imports Flash_Openapi_Document Flash_Json_Tree
begin

text \<open>
  The document as a tree: what each part of the generator should write, and that it writes exactly that.
\<close>

section \<open>Keywords\<close>

lemma quoted_keywords [simp]:
  "quoted ''type'' = ''\"type\"''" "quoted ''string'' = ''\"string\"''" "quoted ''boolean'' = ''\"boolean\"''"
  "quoted ''integer'' = ''\"integer\"''" "quoted ''number'' = ''\"number\"''" "quoted ''null'' = ''\"null\"''"
  "quoted ''array'' = ''\"array\"''" "quoted ''object'' = ''\"object\"''" "quoted ''anyOf'' = ''\"anyOf\"''"
  "quoted ''format'' = ''\"format\"''" "quoted ''int32'' = ''\"int32\"''" "quoted ''int64'' = ''\"int64\"''"
  "quoted ''float'' = ''\"float\"''" "quoted ''double'' = ''\"double\"''" "quoted ''enum'' = ''\"enum\"''"
  "quoted ''items'' = ''\"items\"''" "quoted ''minItems'' = ''\"minItems\"''" "quoted ''maxItems'' = ''\"maxItems\"''"
  "quoted ''minimum'' = ''\"minimum\"''" "quoted ''maximum'' = ''\"maximum\"''"
  "quoted ''exclusiveMinimum'' = ''\"exclusiveMinimum\"''" "quoted ''exclusiveMaximum'' = ''\"exclusiveMaximum\"''"
  "quoted ''minLength'' = ''\"minLength\"''" "quoted ''maxLength'' = ''\"maxLength\"''"
  "quoted ''$ref'' = ''\"$ref\"''" "quoted ''default'' = ''\"default\"''" "quoted ''description'' = ''\"description\"''"
  "quoted ''deprecated'' = ''\"deprecated\"''" "quoted ''properties'' = ''\"properties\"''"
  "quoted ''additionalProperties'' = ''\"additionalProperties\"''" "quoted ''required'' = ''\"required\"''"
  by code_simp+

lemma quoted_document_keywords [simp]:
  "quoted ''name'' = ''\"name\"''" "quoted ''in'' = ''\"in\"''" "quoted ''path'' = ''\"path\"''"
  "quoted ''query'' = ''\"query\"''" "quoted ''header'' = ''\"header\"''" "quoted ''cookie'' = ''\"cookie\"''"
  "quoted ''schema'' = ''\"schema\"''" "quoted ''requestBody'' = ''\"requestBody\"''"
  "quoted ''content'' = ''\"content\"''" "quoted ''application/json'' = ''\"application/json\"''"
  "quoted ''text/plain'' = ''\"text/plain\"''" "quoted ''binary'' = ''\"binary\"''"
  "quoted ''application/octet-stream'' = ''\"application/octet-stream\"''"
  "quoted ''application/problem+json'' = ''\"application/problem+json\"''"
  "quoted ''Successful response'' = ''\"Successful response\"''" "quoted ''operationId'' = ''\"operationId\"''"
  "quoted ''parameters'' = ''\"parameters\"''" "quoted ''responses'' = ''\"responses\"''"
  "quoted ''openapi'' = ''\"openapi\"''" "quoted ''3.1.1'' = ''\"3.1.1\"''" "quoted ''info'' = ''\"info\"''"
  "quoted ''title'' = ''\"title\"''" "quoted ''version'' = ''\"version\"''" "quoted ''paths'' = ''\"paths\"''"
  "quoted ''components'' = ''\"components\"''" "quoted ''schemas'' = ''\"schemas\"''"
  "quoted ''Problem'' = ''\"Problem\"''" "quoted ''status'' = ''\"status\"''" "quoted ''detail'' = ''\"detail\"''"
  "quoted ''instance'' = ''\"instance\"''" "quoted ''errors'' = ''\"errors\"''"
  "quoted ''uri-reference'' = ''\"uri-reference\"''" "quoted ''Request failed'' = ''\"Request failed\"''"
  "quoted ''#/components/schemas/Problem'' = ''\"#/components/schemas/Problem\"''"
  "quoted ''#/components/responses/Problem'' = ''\"#/components/responses/Problem\"''"
  by code_simp+

lemma member_string_simps [simp]:
  "member_string (k, J_string s) = quoted k @ '':'' @ quoted s"
  "member_string (k, J_raw s) = quoted k @ '':'' @ s"
  "member_string (k, J_object ms) = quoted k @ '':{'' @ members_string ms @ ''}''"
  "member_string (k, J_list js) = quoted k @ '':['' @ join_with (CHR '','') (map render js) @ '']''"
  by (simp_all add: member_string_def render_object del: render.simps(4))

section \<open>Schemas\<close>

abbreviation type_member :: "string \<Rightarrow> string \<times> json" where
  "type_member s \<equiv> (''type'', J_string s)"

function schema_members :: "type_table \<Rightarrow> ctype \<Rightarrow> (string \<times> json) list" where
  "schema_members T t = (case t of
       C_optional u \<Rightarrow>
         [(''anyOf'', J_list [J_object (schema_members T u), J_object [type_member ''null'']])]
     | C_string \<Rightarrow> [type_member ''string'']
     | C_string_view \<Rightarrow> [type_member ''string'']
     | C_bool \<Rightarrow> [type_member ''boolean'']
     | C_int sgnd w \<Rightarrow> [type_member ''integer'', (''format'', J_string (if w \<le> 32 then ''int32'' else ''int64''))]
     | C_float f \<Rightarrow> [type_member ''number'', (''format'', J_string (if f = Binary32 then ''float'' else ''double''))]
     | C_enum en \<Rightarrow> [type_member ''string'', (''enum'', J_list (map (\<lambda>e. J_string (fst e)) (en_enumerators en)))]
     | C_vector u \<Rightarrow> [type_member ''array'', (''items'', J_object (schema_members T u))]
     | C_array u n \<Rightarrow> [type_member ''array'', (''items'', J_object (schema_members T u)),
         (''minItems'', J_raw (show_nat n)), (''maxItems'', J_raw (show_nat n))]
     | C_void \<Rightarrow> []
     | _ \<Rightarrow>
         (case reflectable_object T t of None \<Rightarrow> []
          | Some (name, ob) \<Rightarrow>
              [(''$ref'', J_string (''#/components/schemas/'' @ the (component_name T name)))]))"
  by pat_completeness auto
termination
  by (relation "measure (\<lambda>(T, t). size t)") auto

declare schema_members.simps [simp del]

definition plain_names :: "type_table \<Rightarrow> bool" where
  "plain_names T \<longleftrightarrow> (\<forall>name cn. component_name T name = Some cn \<longrightarrow> plain_text cn)"

lemma quoted_reference:
  "plain_text cn \<Longrightarrow> quoted (''#/components/schemas/'' @ cn) = ''\"#/components/schemas/'' @ cn @ ''\"''"
proof -
  assume "plain_text cn"
  moreover have "plain_text ''#/components/schemas/''" by code_simp
  ultimately have "plain_text (''#/components/schemas/'' @ cn)" unfolding plain_text_def list_all_append by blast
  from quoted_plain [OF this] show ?thesis by simp
qed

interpretation enums: comma_loop append_enum_values "\<lambda>e out. Inr (append_escaped_string out (fst e))"
  "\<lambda>_. True" "\<lambda>k. k = 0" Suc
  by unfold_locales simp_all

lemma append_enum_values_appends:
  "appends (append_enum_values es 0) (join_with (CHR '','') (map (\<lambda>e. quoted (fst e)) es))"
  using enums.loop_appends [where str = "\<lambda>e. quoted (fst e)" and xs = es and k = 0]
  by (simp add: appends_def append_escaped_string_eq)

lemma append_integer_appends: "appends (append_integer sgnd w i) (show_int i)"
  by (auto simp: appends_def append_integer_def to_chars_int_def split: if_splits)

lemma show_int_nat: "show_int (int n) = show_nat n"
  by (simp add: show_int_def)

lemma append_schema_simps:
  "append_schema T (C_optional u) = (\<lambda>output. bind_sum (append_schema T u (output @ ''\"anyOf\":[{''))
           (\<lambda>o1. Inr (o1 @ ''},{\"type\":\"null\"}]'')))"
  "append_schema T (C_enum en) = (\<lambda>output. bind_sum (append_enum_values (en_enumerators en) 0
     (output @ ''\"type\":\"string\",\"enum\":['')) (\<lambda>o1. Inr (o1 @ '']'')))"
  "append_schema T (C_vector u) = (\<lambda>output. bind_sum (append_schema T u
     (output @ ''\"type\":\"array\",\"items\":{'')) (\<lambda>o1. Inr (o1 @ ''}'')))"
  "append_schema T (C_array u n) = (\<lambda>output. bind_sum (append_schema T u
     (output @ ''\"type\":\"array\",\"items\":{'')) (\<lambda>o1.
     bind_sum (append_integer False 64 (int n) (o1 @ ''},\"minItems\":'')) (\<lambda>o2.
           append_integer False 64 (int n) (o2 @ '',\"maxItems\":''))))"
  by (rule ext, simp add: append_schema.simps)+

lemma reference_appends:
  assumes "plain_names T"
  shows "appends (\<lambda>out. case reflectable_object T t of None \<Rightarrow> not_compiled
          | Some (name, ob) \<Rightarrow> (case component_name T name of None \<Rightarrow> not_compiled
               | Some cn \<Rightarrow> Inr (out @ schema_reference cn)))
    (members_string (case reflectable_object T t of None \<Rightarrow> []
          | Some (name, ob) \<Rightarrow>
              [(''$ref'', J_string (''#/components/schemas/'' @ the (component_name T name)))]))"
proof (cases "reflectable_object T t")
  case (Some no)
  show ?thesis
  proof (cases "component_name T (fst no)")
    case None
    with Some show ?thesis by (cases no) simp
  next
    case cn: (Some cn)
    then have "plain_text cn" using assms by (auto simp: plain_names_def)
    from quoted_reference [OF this] cn Some show ?thesis
      by (cases no) (auto simp: schema_reference_def intro!: appends_Inr)
  qed
qed simp

lemma append_schema_appends:
  assumes "plain_names T"
  shows "appends (append_schema T t) (members_string (schema_members T t))"
proof (induction t)
  case (C_optional u)
  have "appends (append_schema T (C_optional u))
      ((''\"anyOf\":[{'' @ members_string (schema_members T u)) @ ''},{\"type\":\"null\"}]'')"
    unfolding append_schema_simps by (intro appends_post appends_pre C_optional refl)
  then show ?case by (rule appends_eq) (simp add: schema_members.simps render_object del: render.simps(4))
next
  case (C_enum en)
  have "appends (append_schema T (C_enum en))
      ((''\"type\":\"string\",\"enum\":['' @ join_with (CHR '','') (map (\<lambda>e. quoted (fst e)) (en_enumerators en))) @ '']'')"
    unfolding append_schema_simps by (intro appends_post appends_pre append_enum_values_appends refl)
  then show ?case by (rule appends_eq) (simp add: schema_members.simps comp_def)
next
  case (C_vector u)
  have "appends (append_schema T (C_vector u))
      ((''\"type\":\"array\",\"items\":{'' @ members_string (schema_members T u)) @ ''}'')"
    unfolding append_schema_simps by (intro appends_post appends_pre C_vector refl)
  then show ?case by (rule appends_eq) (simp add: schema_members.simps)
next
  case (C_array u n)
  have "appends (append_schema T (C_array u n))
      ((''\"type\":\"array\",\"items\":{'' @ members_string (schema_members T u)) @
        (''},\"minItems\":'' @ show_int (int n)) @ ('',\"maxItems\":'' @ show_int (int n)))"
    unfolding append_schema_simps
    by (intro appends_bind appends_pre C_array append_integer_appends refl)
  then show ?case by (rule appends_eq) (simp add: schema_members.simps show_int_nat)
qed (insert reference_appends [OF assms],
    auto simp: append_schema.simps schema_members.simps appends_def not_compiled_def)

text \<open>A schema and the members after it; only \<open>void\<close> has a schema without members.\<close>

lemma append_schema_members: "append_schema T t out = Inr out' \<Longrightarrow> t \<noteq> C_void \<Longrightarrow> schema_members T t \<noteq> []"
  by (cases t) (auto simp: append_schema.simps schema_members.simps not_compiled_def split: option.splits)

lemma schema_then:
  assumes "plain_names T" "t \<noteq> C_void" "appends g (more_members ms)"
  shows "appends (\<lambda>out. bind_sum (append_schema T t out) g) (members_string (schema_members T t @ ms))"
proof (rule appendsI)
  fix out out'
  assume b: "bind_sum (append_schema T t out) g = Inr out'"
  then obtain x where "append_schema T t out = Inr x" by (auto simp: bind_sum_Inr_iff)
  from append_schema_members [OF this assms(2)]
  have "members_string (schema_members T t @ ms) = members_string (schema_members T t) @ more_members ms"
    by (rule members_string_append)
  with appendsD [OF appends_bind [OF append_schema_appends [OF assms(1)] assms(3)] b]
  show "out' = out @ members_string (schema_members T t @ ms)" by simp
qed

section \<open>Members after the schema\<close>

definition rule_member :: "constraint_annotation \<Rightarrow> string \<times> json" where
  "rule_member rule = (rule_keyword (ca_kind rule), J_raw
     (if ca_kind rule \<in> {Minimum, Exclusive_minimum, Maximum, Exclusive_maximum}
      then string_of (append_float Binary64 (ca_numeric rule)) else show_nat (ca_size rule)))"

definition default_members :: "type_table \<Rightarrow> ctype \<Rightarrow> jvalue list \<Rightarrow> (string \<times> json) list" where
  "default_members T t ds =
     (if length ds = 1 then [(''default'', J_raw (string_of (append_value T t (ds ! 0))))] else [])"

definition description_members :: "fixed_string list \<Rightarrow> (string \<times> json) list" where
  "description_members ds = (if length ds = 1 then [(''description'', J_string (view (ds ! 0)))] else [])"

definition deprecated_members :: "nat \<Rightarrow> (string \<times> json) list" where
  "deprecated_members n = (if n \<noteq> 0 then [(''deprecated'', J_raw ''true'')] else [])"

lemma quoted_rule_keyword: "quoted (rule_keyword k) = ''\"'' @ rule_keyword k @ ''\"''"
  by (cases k) (simp_all add: rule_keyword_def)

lemma append_rule_appends: "appends (append_rule rule) (more_members [rule_member rule])"
proof (cases "ca_kind rule \<in> {Minimum, Exclusive_minimum, Maximum, Exclusive_maximum}")
  case True
  have "appends (\<lambda>out. append_float Binary64 (ca_numeric rule) (out @ '',\"'' @ rule_keyword (ca_kind rule) @ ''\":''))
      (('',\"'' @ rule_keyword (ca_kind rule) @ ''\":'') @ string_of (append_float Binary64 (ca_numeric rule)))"
    by (rule appends_pre [OF shifts_appends [OF shifts_scalars(2)]]) (rule refl)
  with True show ?thesis
    unfolding append_rule_def [abs_def] Let_def by (simp add: rule_member_def quoted_rule_keyword)
next
  case False
  have "appends (\<lambda>out. append_integer False 64 (int (ca_size rule)) (out @ '',\"'' @ rule_keyword (ca_kind rule) @ ''\":''))
      (('',\"'' @ rule_keyword (ca_kind rule) @ ''\":'') @ show_int (int (ca_size rule)))"
    by (rule appends_pre [OF append_integer_appends]) (rule refl)
  with False show ?thesis
    unfolding append_rule_def [abs_def] Let_def by (simp add: rule_member_def quoted_rule_keyword show_int_nat)
qed

lemma append_rules_appends: "appends (append_rules rules) (more_members (map rule_member rules))"
proof (induction rules)
  case Nil
  show ?case by (simp add: appends_def)
next
  case (Cons r rs)
  from appends_bind [OF append_rule_appends [of r] Cons] show ?case by (simp add: appends_def)
qed

lemma append_default_appends: "appends (append_default T t ds) (more_members (default_members T t ds))"
proof (cases "length ds = 1")
  case True
  have "appends (\<lambda>out. append_value T t (ds ! 0) (out @ '',\"default\":''))
      ('',\"default\":'' @ string_of (append_value T t (ds ! 0)))"
    by (rule appends_pre [OF shifts_appends [OF append_value_shifts]]) (rule refl)
  with True show ?thesis by (simp add: append_default_def [abs_def] default_members_def)
qed (simp add: append_default_def [abs_def] default_members_def appends_def)

lemma append_description_eq: "append_description ds out = out @ more_members (description_members ds)"
  by (simp add: append_description_def description_members_def append_escaped_string_eq)

lemma append_deprecated_eq: "append_deprecated n out = out @ more_members (deprecated_members n)"
  by (simp add: append_deprecated_def deprecated_members_def)

section \<open>Components\<close>

definition property_member :: "type_table \<Rightarrow> field_info \<Rightarrow> string \<times> json" where
  "property_member T f = (field_wire_name f, J_object (schema_members T (fi_type f) @
     map rule_member (fi_constraints f) @ default_members T (fi_type f) (fi_defaults f) @
     description_members (fi_descriptions f) @ deprecated_members (fi_deprecated f)))"

definition component_tree :: "type_table \<Rightarrow> object_info \<Rightarrow> json" where
  "component_tree T ob = J_object
     [type_member ''object'', (''additionalProperties'', J_raw ''false''),
      (''properties'', J_object (map (property_member T) (ob_fields ob))),
      (''required'', J_list (map (\<lambda>f. J_string (field_wire_name f)) (filter is_required (ob_fields ob))))]"

definition component_member :: "type_table \<Rightarrow> string \<Rightarrow> string \<times> json" where
  "component_member T name = (the (component_name T name), component_tree T (the (T name)))"

lemma append_property_appends:
  assumes "plain_names T" "fi_type f \<noteq> C_void"
  shows "appends (append_property T f) (member_string (property_member T f))"
proof -
  let ?t = "fi_type f"
  let ?tail = "more_members (map rule_member (fi_constraints f)) @ more_members (default_members T ?t (fi_defaults f)) @
    more_members (description_members (fi_descriptions f) @ deprecated_members (fi_deprecated f)) @ ''}''"
  have tail: "appends (\<lambda>o1. bind_sum (append_constraints f o1) (\<lambda>o2.
     bind_sum (append_default T ?t (fi_defaults f) o2) (\<lambda>o3.
       Inr (append_deprecated (fi_deprecated f) (append_description (fi_descriptions f) o3) @ ''}'')))) ?tail"
    unfolding append_constraints_def append_description_eq append_deprecated_eq
    by (rule appends_bind [OF append_rules_appends], rule appends_bind [OF append_default_appends]) auto
  show ?thesis
  proof (rule appendsI)
    fix out out'
    assume a: "append_property T f out = Inr out'"
    let ?pre = "out @ quoted (field_wire_name f) @ '':{''"
    obtain x where x: "append_schema T ?t ?pre = Inr x"
      "bind_sum (append_constraints f x) (\<lambda>o2. bind_sum (append_default T ?t (fi_defaults f) o2) (\<lambda>o3.
         Inr (append_deprecated (fi_deprecated f) (append_description (fi_descriptions f) o3) @ ''}''))) = Inr out'"
      using a by (auto simp: append_property_def append_escaped_string_eq bind_sum_Inr_iff)
    from appendsD [OF append_schema_appends [OF assms(1)] x(1)] appendsD [OF tail x(2)]
      members_string_append [OF append_schema_members [OF x(1) assms(2)]]
    show "out' = out @ member_string (property_member T f)" by (simp add: property_member_def)
  qed
qed

lemma members_string_map: "members_string (map f xs) = join_with (CHR '','') (map (\<lambda>x. member_string (f x)) xs)"
  by (simp add: members_string_def comp_def)

interpretation properties: comma_loop "append_properties T" "append_property T" "\<lambda>_. True" "\<lambda>k. k = 0" Suc for T
  by unfold_locales simp_all

interpretation required: comma_loop "\<lambda>fs first out. Inr (append_required fs first out)"
  "\<lambda>f out. Inr (append_escaped_string out (field_wire_name f))" is_required id "\<lambda>_. False"
  by unfold_locales simp_all

lemma append_component_appends:
  assumes "plain_names T" "\<forall>f \<in> set (ob_fields ob). fi_type f \<noteq> C_void"
  shows "appends (append_component T ob) (render (component_tree T ob))"
proof (cases "validate_output_schema ob")
  case True
  have p: "appends (append_properties T (ob_fields ob) 0) (members_string (map (property_member T) (ob_fields ob)))"
    unfolding members_string_map
    using properties.loop_appends [where str = "\<lambda>f. member_string (property_member T f)" and xs = "ob_fields ob" and k = 0 and T = T]
      append_property_appends [OF assms(1)] assms(2) by simp
  have r: "append_required (ob_fields ob) True out = out @ join_with (CHR '','')
      (map (\<lambda>f. quoted (field_wire_name f)) (filter is_required (ob_fields ob)))" for out
    using required.loop_appends [where str = "\<lambda>f. quoted (field_wire_name f)" and xs = "ob_fields ob" and k = True]
    by (simp add: appends_def append_escaped_string_eq)
  have "appends (append_component T ob) ((''{\"type\":\"object\",\"additionalProperties\":false,\"properties\":{'' @
      members_string (map (property_member T) (ob_fields ob))) @ ''},\"required\":['' @ join_with (CHR '','')
      (map (\<lambda>f. quoted (field_wire_name f)) (filter is_required (ob_fields ob))) @ '']}'')"
    unfolding append_component_def [abs_def] using True
    by (simp only: not_True_eq_False if_False) (rule appends_post [OF appends_pre [OF p refl]], simp add: r)
  then show ?thesis
    by (rule appends_eq) (simp add: component_tree_def render_object comp_def del: render.simps(4))
qed (simp add: append_component_def [abs_def])

definition append_named_component :: "type_table \<Rightarrow> string \<Rightarrow> string \<Rightarrow> string throwing" where
  "append_named_component T name out = (case (T name, component_name T name) of
       (Some ob, Some cn) \<Rightarrow> append_component T ob (append_escaped_string out cn @ '':'')
     | _ \<Rightarrow> not_compiled)"

interpretation components: comma_loop "append_components T" "append_named_component T" "\<lambda>_. True" id "\<lambda>_. False" for T
  by unfold_locales (simp_all add: append_named_component_def not_compiled_def split: option.split)

definition no_void_fields :: "type_table \<Rightarrow> bool" where
  "no_void_fields T \<longleftrightarrow> (\<forall>name ob. T name = Some ob \<longrightarrow> (\<forall>f \<in> set (ob_fields ob). fi_type f \<noteq> C_void))"

lemma append_named_component_appends:
  assumes "plain_names T" "no_void_fields T"
  shows "appends (append_named_component T name) (member_string (component_member T name))"
proof (cases "T name")
  case (Some ob)
  show ?thesis
  proof (cases "component_name T name")
    case cn: (Some cn)
    have "\<forall>f \<in> set (ob_fields ob). fi_type f \<noteq> C_void" using assms(2) Some by (simp add: no_void_fields_def)
    from appends_pre [OF append_component_appends [OF assms(1) this], of "\<lambda>out. append_escaped_string out cn @ '':''" "quoted cn @ '':''"]
    show ?thesis using Some cn
      by (simp add: append_named_component_def [abs_def] component_member_def member_string_def append_escaped_string_eq)
  qed (use Some in \<open>simp add: append_named_component_def [abs_def]\<close>)
qed (simp add: append_named_component_def [abs_def])

lemma append_components_appends:
  assumes "plain_names T" "no_void_fields T"
  shows "appends (append_components T names True) (members_string (map (component_member T) names))"
  unfolding members_string_map
  using components.loop_appends [where str = "\<lambda>n. member_string (component_member T n)" and xs = names and k = True and T = T]
    append_named_component_appends [OF assms] by simp

end
