(* ===== verification/Flash_Openapi_Operations.thy ===== *)
theory Flash_Openapi_Operations
  imports Flash_Openapi_Tree
begin

text \<open>
  The tree of the parameters, bodies, responses and operations of a document, and that the generator
  writes it.
\<close>

section \<open>Parameters\<close>

definition documented_source :: "source_kind \<Rightarrow> bool" where
  "documented_source s \<longleftrightarrow> s \<in> {Src_path, Src_query, Src_header, Src_cookie}"

definition parameter_tree :: "type_table \<Rightarrow> parameter_info \<Rightarrow> source_kind \<Rightarrow> string \<Rightarrow> json" where
  "parameter_tree T p source name = J_object ([(''name'', J_string name), (''in'', J_string (parameter_location source))] @
     description_members (pi_descriptions p) @ deprecated_members (pi_deprecated p) @
     [(''required'', J_raw (if parameter_required p source then ''true'' else ''false'')),
      (''schema'', J_object (schema_members T (pi_type p) @ map rule_member (pi_constraints p) @
         default_members T (pi_type p) (pi_defaults p)))])"

lemma quoted_location: "quoted (parameter_location s) = ''\"'' @ parameter_location s @ ''\"''"
  by (simp add: parameter_location_def)

lemma append_parameter_appends:
  assumes "plain_names T" "pi_type p \<noteq> C_void"
  shows "appends (append_parameter T p source name) (render (parameter_tree T p source name))"
proof (rule appendsI)
  fix out out'
  assume a: "append_parameter T p source name out = Inr out'"
  let ?desc = "more_members (description_members (pi_descriptions p) @ deprecated_members (pi_deprecated p))"
  let ?req = "if parameter_required p source then '',\"required\":true,\"schema\":{'' else '',\"required\":false,\"schema\":{''"
  let ?pre = "out @ ''{\"name\":'' @ quoted name @ '',\"in\":'' @ quoted (parameter_location source) @ ?desc @ ?req"
  have tail: "appends (\<lambda>o5. bind_sum (append_parameter_constraint_values p o5) (\<lambda>o6.
        bind_sum (append_default T (pi_type p) (pi_defaults p) o6) (\<lambda>o7. Inr (o7 @ ''}}''))))
      (more_members (map rule_member (pi_constraints p)) @ more_members (default_members T (pi_type p) (pi_defaults p)) @ ''}}'')"
    unfolding append_parameter_constraint_values_def
    by (rule appends_bind [OF append_rules_appends], rule appends_bind [OF append_default_appends]) auto
  obtain x where x: "append_schema T (pi_type p) ?pre = Inr x"
    "bind_sum (append_parameter_constraint_values p x) (\<lambda>o6.
        bind_sum (append_default T (pi_type p) (pi_defaults p) o6) (\<lambda>o7. Inr (o7 @ ''}}''))) = Inr out'"
    using a by (auto simp: append_parameter_def Let_def append_escaped_string_eq append_description_eq
        append_deprecated_eq bind_sum_Inr_iff)
  from appendsD [OF append_schema_appends [OF assms(1)] x(1)] appendsD [OF tail x(2)]
    members_string_append [OF append_schema_members [OF x(1) assms(2)]]
  show "out' = out @ render (parameter_tree T p source name)"
    by (simp add: parameter_tree_def render_object del: render.simps(4))
qed

text \<open>The parameters that are written, by index.\<close>

definition parameter_written :: "type_table \<Rightarrow> decl_info \<Rightarrow> nat \<Rightarrow> bool" where
  "parameter_written T f i \<longleftrightarrow> (case (parameter_at f i, parameter_source T f i) of
     (Some p, Some source) \<Rightarrow> documented_source source | _ \<Rightarrow> True)"

definition append_parameter_at :: "type_table \<Rightarrow> decl_info \<Rightarrow> nat \<Rightarrow> string \<Rightarrow> string throwing" where
  "append_parameter_at T f i out = (case (parameter_at f i, parameter_source T f i, wire_name f i) of
     (Some p, Some source, Some name) \<Rightarrow> append_parameter T p source name out | _ \<Rightarrow> not_compiled)"

definition parameter_tree_at :: "type_table \<Rightarrow> decl_info \<Rightarrow> nat \<Rightarrow> json" where
  "parameter_tree_at T f i =
     parameter_tree T (the (parameter_at f i)) (the (parameter_source T f i)) (the (wire_name f i))"

interpretation parameters: comma_loop "append_parameters T f" "append_parameter_at T f" "parameter_written T f"
  id "\<lambda>_. False" for T f
  by unfold_locales
    (auto simp: parameter_written_def append_parameter_at_def documented_source_def not_compiled_def split: option.splits)

definition no_void_parameters :: "decl_info \<Rightarrow> bool" where
  "no_void_parameters f \<longleftrightarrow> (\<forall>p \<in> set (d_parameters f). pi_type p \<noteq> C_void)"

lemma append_parameter_at_appends:
  assumes "plain_names T" "no_void_parameters f"
  shows "appends (append_parameter_at T f i) (render (parameter_tree_at T f i))"
proof (cases "parameter_at f i")
  case (Some p)
  then have "pi_type p \<noteq> C_void" using assms(2) by (auto simp: parameter_at_nth no_void_parameters_def)
  from append_parameter_appends [OF assms(1) this] Some show ?thesis
    by (cases "parameter_source T f i"; cases "wire_name f i")
      (simp_all add: append_parameter_at_def [abs_def] parameter_tree_at_def)
qed (simp add: append_parameter_at_def [abs_def])

lemma append_parameters_appends:
  assumes "plain_names T" "no_void_parameters f"
  shows "appends (append_parameters T f is True)
    (join_with (CHR '','') (map (\<lambda>i. render (parameter_tree_at T f i)) (filter (parameter_written T f) is)))"
  by (rule parameters.loop_appends) (simp_all add: append_parameter_at_appends [OF assms])

section \<open>Bodies\<close>

definition json_content :: "(string \<times> json) list \<Rightarrow> string \<times> json" where
  "json_content ms = (''content'', J_object [(''application/json'', J_object [(''schema'', J_object ms)])])"

fun request_body_members :: "type_table \<Rightarrow> decl_info \<Rightarrow> nat list \<Rightarrow> (string \<times> json) list" where
  "request_body_members T f [] = []"
| "request_body_members T f (i # is) =
     (if parameter_source T f i = Some Src_body
      then [(''requestBody'', J_object [(''required'', J_raw ''true''),
              json_content (schema_members T (pi_type (the (parameter_at f i))))])]
      else request_body_members T f is)"

lemma append_request_body_appends:
  assumes "plain_names T"
  shows "appends (append_request_body T f is) (more_members (request_body_members T f is))"
proof (induction "is")
  case Nil
  show ?case by (simp add: appends_def)
next
  case (Cons i rest)
  show ?case
  proof (cases "parameter_at f i")
    case (Some p)
    let ?pre = "'',\"requestBody\":{\"required\":true,\"content\":{\"application/json\":{\"schema\":{''"
    have body: "appends (\<lambda>out. bind_sum (append_schema T (pi_type p) (out @ ?pre)) (\<lambda>o1. Inr (o1 @ ''}}}}'')))
        ((?pre @ members_string (schema_members T (pi_type p))) @ ''}}}}'')"
      by (rule appends_post [OF appends_pre [OF append_schema_appends [OF assms]]]) (rule refl)+
    have written: "parameter_source T f i = Some Src_body \<Longrightarrow> append_request_body T f (i # rest) =
        (\<lambda>out. bind_sum (append_schema T (pi_type p) (out @ ?pre)) (\<lambda>o1. Inr (o1 @ ''}}}}'')))"
      using Some by (intro ext) simp
    have other: "parameter_source T f i \<noteq> Some Src_body \<Longrightarrow> append_request_body T f (i # rest) =
        (case parameter_source T f i of None \<Rightarrow> (\<lambda>out. not_compiled) | Some s \<Rightarrow> append_request_body T f rest)"
      using Some by (intro ext) (simp split: option.split)
    show ?thesis
    proof (cases "parameter_source T f i = Some Src_body")
      case True
      have "more_members (request_body_members T f (i # rest)) =
          (?pre @ members_string (schema_members T (pi_type p))) @ ''}}}}''"
        using True Some by (simp add: json_content_def)
      with body written [OF True] show ?thesis by simp
    next
      case False
      then show ?thesis using other [OF False] Cons by (cases "parameter_source T f i") simp_all
    qed
  next
    case None
    then have "append_request_body T f (i # rest) = (\<lambda>out. not_compiled)" by (intro ext) simp
    then show ?thesis by simp
  qed
qed

section \<open>Responses\<close>

lemma plain_digits: "plain_text (show_nat n)"
proof -
  have *: "list_all (\<lambda>n. escape_char (char_of (n :: nat)) = [char_of n]) [48..<58]" by code_simp
  have "escape_char c = [c]" if "is_digit c" for c
  proof -
    have "of_char c \<in> set [48 ..< 58 :: nat]" using that unfolding set_upt is_digit_def by simp
    then have "escape_char (char_of (of_char c :: nat)) = [char_of (of_char c :: nat)]"
      using * unfolding list_all_iff by blast
    then show ?thesis by simp
  qed
  then show ?thesis using show_nat_digits [of n] by (auto simp: plain_text_def list_all_iff)
qed

lemma quoted_show_nat [simp]: "quoted (show_nat n) = ''\"'' @ show_nat n @ ''\"''"
  by (rule quoted_plain [OF plain_digits])

definition success_content :: "type_table \<Rightarrow> ctype \<Rightarrow> (string \<times> json) list" where
  "success_content T t = (case t of
       C_void \<Rightarrow> []
     | C_response_message \<Rightarrow> []
     | C_text \<Rightarrow> [(''content'', J_object [(''text/plain'', J_object [(''schema'', J_object [type_member ''string''])])])]
     | C_bytes \<Rightarrow> [(''content'', J_object [(''application/octet-stream'', J_object
         [(''schema'', J_object [type_member ''string'', (''format'', J_string ''binary'')])])])]
     | C_created u \<Rightarrow> [json_content (schema_members T u)]
     | C_response u \<Rightarrow> [json_content (schema_members T u)]
     | _ \<Rightarrow> [json_content (schema_members T t)])"

fun success_member :: "type_table \<Rightarrow> ctype \<Rightarrow> string \<times> json" where
  "success_member T (C_task t) = success_member T t"
| "success_member T (C_expected t e) = success_member T t"
| "success_member T t = (show_nat (status_code (success_status t)),
     J_object ((''description'', J_string ''Successful response'') # success_content T t))"

lemma append_json_content_appends:
  assumes "plain_names T"
  shows "appends (append_json_content T t)
    ('',\"content\":{\"application/json\":{\"schema\":{'' @
     members_string (schema_members T (case t of C_created u \<Rightarrow> u | C_response u \<Rightarrow> u | _ \<Rightarrow> t)) @ ''}}}}'')"
  by (rule appends_eq, unfold append_json_content_def [abs_def],
      rule appends_post [OF appends_pre [OF append_schema_appends [OF assms]]]) (rule refl, rule refl, simp)

lemma append_plain_response_appends:
  assumes "plain_names T" "\<nexists>u. t = C_task u" "\<nexists>u e. t = C_expected u e"
  shows "appends (append_plain_response T t) (member_string (success_member T t))"
proof -
  let ?o1 = "\<lambda>out. append_status (out @ ''\"'') (success_status t) @ ''\":{\"description\":\"Successful response\"''"
  have o1: "?o1 out = out @ quoted (show_nat (status_code (success_status t))) @ '':{\"description\":\"Successful response\"''" for out
    by (simp add: append_status_def)
  from appends_pre [OF append_json_content_appends [OF assms(1)] o1]
  have j: "appends (\<lambda>out. append_json_content T t (?o1 out))
    ((quoted (show_nat (status_code (success_status t))) @ '':{\"description\":\"Successful response\"'') @
     '',\"content\":{\"application/json\":{\"schema\":{'' @
     members_string (schema_members T (case t of C_created u \<Rightarrow> u | C_response u \<Rightarrow> u | _ \<Rightarrow> t)) @ ''}}}}'')" .
  show ?thesis
    using assms(2,3) j
    by (cases t) (auto simp: append_plain_response_def [abs_def] Let_def success_content_def json_content_def append_status_def
        intro!: appends_Inr)
qed

lemma append_success_response_appends:
  assumes "plain_names T"
  shows "appends (append_success_response T t) (member_string (success_member T t))"
proof (induction t)
  case (C_task t)
  then show ?case by (simp add: appends_def append_success_response.simps)
next
  case (C_expected t e)
  then show ?case by (simp add: appends_def append_success_response.simps)
qed (insert append_plain_response_appends [OF assms],
    simp_all add: appends_def append_success_response.simps del: success_member.simps)

text \<open>The status keys of the problem responses: each mapped status once, other than that of success, and 422.\<close>

fun domain_statuses :: "error_mapping list \<Rightarrow> error_mapping list \<Rightarrow> status \<Rightarrow> status list" where
  "domain_statuses previous [] success = []"
| "domain_statuses previous (m # ms) success =
     (if \<not> list_ex (\<lambda>p. em_status p = em_status m) previous \<and> em_status m \<noteq> success then [em_status m] else []) @
     domain_statuses (previous @ [m]) ms success"

function error_statuses :: "error_map \<Rightarrow> ctype \<Rightarrow> status list" where
  "error_statuses em t = (case t of
       C_task u \<Rightarrow> error_statuses em u
     | C_expected u e \<Rightarrow>
         (let ms = the (em e) in domain_statuses [] ms (success_status t) @
            (if \<not> has_mapped_status ms Unprocessable_content422 \<and> success_status t \<noteq> Unprocessable_content422
             then [Unprocessable_content422] else []))
     | _ \<Rightarrow> (if success_status t \<noteq> Unprocessable_content422 then [Unprocessable_content422] else []))"
  by pat_completeness auto
termination
  by (relation "measure (\<lambda>(em, t). size t)") auto

declare error_statuses.simps [simp del]

definition problem_member :: "status \<Rightarrow> string \<times> json" where
  "problem_member s = (show_nat (status_code s), J_object [(''$ref'', J_string ''#/components/responses/Problem'')])"

lemma problem_reference_eq: "problem_reference (show_nat (status_code s)) = more_members [problem_member s]"
  by (simp add: problem_reference_def problem_member_def)

lemma problem_reference_422: "problem_reference ''422'' = more_members [problem_member Unprocessable_content422]"
proof -
  have "show_nat 422 = ''422''" by code_simp
  then show ?thesis using problem_reference_eq [of Unprocessable_content422] by simp
qed

lemma append_domain_responses_eq:
  "append_domain_responses previous ms success out =
     out @ more_members (map problem_member (domain_statuses previous ms success))"
  by (induction previous ms success arbitrary: out rule: domain_statuses.induct)
    (simp_all add: append_status_def problem_reference_eq Let_def)

lemma append_error_responses_appends:
  "appends (append_error_responses em t) (more_members (map problem_member (error_statuses em t)))"
proof (induction t)
  case (C_task t)
  then show ?case by (simp add: appends_def append_error_responses.simps error_statuses.simps [of em "C_task t"])
next
  case (C_expected t e)
  show ?case
    by (cases "validate_error_mapping em e")
      (simp_all add: appends_def not_compiled_def append_error_responses.simps error_statuses.simps Let_def
        append_domain_responses_eq problem_reference_422)
qed (simp_all add: appends_def append_error_responses.simps error_statuses.simps problem_reference_422)

section \<open>Operations\<close>

definition response_members :: "type_table \<Rightarrow> error_map \<Rightarrow> ctype \<Rightarrow> (string \<times> json) list" where
  "response_members T em t = success_member T t # map problem_member (error_statuses em t)"

definition operation_tree :: "type_table \<Rightarrow> error_map \<Rightarrow> decl_info \<Rightarrow> json" where
  "operation_tree T em f = (let indices = [0..<length (d_parameters f)] in
     J_object ([(''operationId'', J_string (d_identifier f))] @
       description_members (d_descriptions f) @ deprecated_members (d_deprecated f) @
       [(''parameters'', J_list (map (parameter_tree_at T f) (filter (parameter_written T f) indices)))] @
       request_body_members T f indices @
       [(''responses'', J_object (response_members T em (d_return f)))]))"

lemma append_operation_appends:
  assumes "plain_names T" "no_void_parameters f"
  shows "appends (append_operation T em f) (render (operation_tree T em f))"
proof (cases "validate_endpoint_binding T f")
  case True
  let ?is = "[0..<length (d_parameters f)]"
  let ?head = "''{\"operationId\":'' @ quoted (d_identifier f) @
    more_members (description_members (d_descriptions f) @ deprecated_members (d_deprecated f)) @ '',\"parameters\":[''"
  let ?params = "join_with (CHR '','') (map (\<lambda>i. render (parameter_tree_at T f i)) (filter (parameter_written T f) ?is))"
  have "appends (\<lambda>out. bind_sum (append_parameters T f ?is True (out @ ?head)) (\<lambda>o3.
           bind_sum (append_request_body T f ?is (o3 @ '']'')) (\<lambda>o4.
           bind_sum (append_success_response T (d_return f) (o4 @ '',\"responses\":{'')) (\<lambda>o5.
           bind_sum (append_error_responses em (d_return f) o5) (\<lambda>o6. Inr (o6 @ ''}}''))))))
      ((?head @ ?params) @ ('']'' @ more_members (request_body_members T f ?is)) @
       ('',\"responses\":{'' @ member_string (success_member T (d_return f))) @
       more_members (map problem_member (error_statuses em (d_return f))) @ ''}}'')"
    by (rule appends_bind [OF appends_pre [OF append_parameters_appends [OF assms]]], rule refl,
        rule appends_bind [OF appends_pre [OF append_request_body_appends [OF assms(1)]]], rule refl,
        rule appends_bind [OF appends_pre [OF append_success_response_appends [OF assms(1)]]], rule refl,
        rule appends_post [OF append_error_responses_appends]) (rule refl)
  moreover have "append_operation T em f = (\<lambda>out. bind_sum (append_parameters T f ?is True (out @ ?head)) (\<lambda>o3.
           bind_sum (append_request_body T f ?is (o3 @ '']'')) (\<lambda>o4.
           bind_sum (append_success_response T (d_return f) (o4 @ '',\"responses\":{'')) (\<lambda>o5.
           bind_sum (append_error_responses em (d_return f) o5) (\<lambda>o6. Inr (o6 @ ''}}''))))))"
    using True by (intro ext) (simp add: append_operation_def Let_def append_escaped_string_eq append_description_eq append_deprecated_eq)
  ultimately show ?thesis
    by (simp add: operation_tree_def response_members_def render_object Let_def comp_def del: render.simps(4))
next
  case False
  then show ?thesis by (simp add: append_operation_def [abs_def])
qed

end
