(* ===== verification/Flash_Openapi_Samples.thy ===== *)
theory Flash_Openapi_Samples
  imports Flash_Openapi_Document Flash_Json_Reads
begin

text \<open>
  An endpoint with a path parameter, a body of a recursive class and domain errors, for which a document
  is generated; the witnesses of the properties on documents use it.
\<close>

definition doc_handler :: decl_info where
  "doc_handler = \<lparr>d_is_function = True, d_identifier = ''put_item'',
     d_routes = [\<lparr>ra_method = Put, ra_path = the (fixed_string_lit ''/{id}'')\<rparr>],
     d_parameters = [
       \<lparr>pi_identifier = Some ''id'', pi_type = C_int True 32, pi_sources = [],
        pi_defaults = [], pi_constraints = [size_constraint Max_items 4], pi_descriptions = [], pi_deprecated = 0\<rparr>,
       \<lparr>pi_identifier = Some ''item'', pi_type = C_object ''Item'', pi_sources = [],
        pi_defaults = [], pi_constraints = [], pi_descriptions = [], pi_deprecated = 0\<rparr>],
     d_return = C_expected (C_object ''Item'') sample_errors, d_descriptions = [], d_deprecated = 0\<rparr>"

lemma doc_handler_facts:
  "endpoints [doc_handler] = [doc_handler]"
  "validate_endpoint_binding sample_table doc_handler"
  "parameter_source sample_table doc_handler 0 = Some Src_path"
  "parameter_source sample_table doc_handler (Suc 0) = Some Src_body"
  "wire_name doc_handler 0 = Some ''id''"
  "api_schema_types 1 sample_table [doc_handler] = Some [''Item'']"
  "validate_document sample_table [doc_handler] [''Item'']"
  "same_path doc_handler doc_handler"
  "component_name sample_table ''Item'' = Some ''Item''"
  "to_chars_int 23 4 = Some ''4''"
  "list_all (\<lambda>f. fi_type f \<noteq> C_void) sample_fields"
  by (simp add: endpoints_def is_endpoint_def doc_handler_def) code_simp+

lemma doc_handler_parts:
  "d_parameters doc_handler ! 0 = \<lparr>pi_identifier = Some ''id'', pi_type = C_int True 32, pi_sources = [],
        pi_defaults = [], pi_constraints = [size_constraint Max_items 4], pi_descriptions = [], pi_deprecated = 0\<rparr>"
  "d_parameters doc_handler ! Suc 0 = \<lparr>pi_identifier = Some ''item'', pi_type = C_object ''Item'', pi_sources = [],
        pi_defaults = [], pi_constraints = [], pi_descriptions = [], pi_deprecated = 0\<rparr>"
  "d_is_function doc_handler" "length (d_parameters doc_handler) = 2" "d_descriptions doc_handler = []" "d_deprecated doc_handler = 0"
  "d_return doc_handler = C_expected (C_object ''Item'') sample_errors"
  "\<exists>r. route_of doc_handler = Some r"
  by (simp_all add: doc_handler_def route_of_def)

lemma item_ok: "sample_table ''Item'' = Some \<lparr>ob_fields = sample_fields, ob_aggregate = True,
     ob_default_initializable = True, ob_schema_names = [], ob_display = ''Item''\<rparr>"
  by (simp add: sample_table_def)

lemma item_schema: "append_schema sample_table (C_object ''Item'') out = Inr (out @ schema_reference ''Item'')"
  by (simp add: append_schema.simps reflectable_object_def class_name_def item_ok doc_handler_facts(9))

lemma doc_operation: "\<exists>o1. append_operation sample_table sample_error_map doc_handler out = Inr o1"
  by (simp add: append_operation_def Let_def doc_handler_facts doc_handler_parts parameter_at_def upt_rec [of 0 2] upt_rec [of 1 2] upt_rec [of "Suc 0" 2]
      append_parameter_def append_schema.simps [of _ "C_int a b" for a b] append_parameter_constraint_values_def append_rule_def size_constraint_def
      append_integer_def digits10_def append_default_def item_schema append_success_response.simps append_plain_response_def append_json_content_def
      append_error_responses.simps sample_error_map_ok)

lemma sample_properties: "\<exists>o1. append_properties sample_table sample_fields 0 out = Inr o1"
  by (simp add: sample_fields_def append_property_def append_schema.simps [of _ "C_int a b" for a b]
      append_schema.simps [of _ "C_vector a" for a] append_schema.simps [of _ "C_optional a" for a] append_schema.simps [of _ "C_string"]
      append_constraints_def append_rule_def size_constraint_def append_integer_def digits10_def doc_handler_facts(10)
      append_default_def item_schema)

lemma item_valid: "validate_output_schema \<lparr>ob_fields = sample_fields, ob_aggregate = True,
     ob_default_initializable = True, ob_schema_names = [], ob_display = ''Item''\<rparr>"
  using sample_table_ok unfolding table_ok_def validate_input_schema_def by (metis item_ok)

lemma doc_components: "\<exists>o1. append_components sample_table [''Item''] True out = Inr o1"
proof -
  have "append_components sample_table [''Item''] True out = append_component sample_table \<lparr>ob_fields = sample_fields, ob_aggregate = True,
     ob_default_initializable = True, ob_schema_names = [], ob_display = ''Item''\<rparr> (append_escaped_string out ''Item'' @ '':'')"
  proof -
    have "append_components sample_table [] False = Inr" by (rule ext) simp
    moreover have "bind_sum m Inr = m" for m :: "string throwing" by (cases m) simp_all
    ultimately show ?thesis by (simp add: item_ok doc_handler_facts(9))
  qed
  with sample_properties show ?thesis by (auto simp: append_component_def item_valid bind_sum_Inr_iff)
qed

lemma doc_paths: "\<exists>o1. append_paths sample_table sample_error_map [doc_handler] [] [doc_handler] True out = Inr o1"
  using doc_operation doc_handler_parts(8) by (auto simp: doc_handler_facts(8) bind_sum_Inr_iff)

lemma doc_generated: "\<exists>t. generate_document 1 sample_table sample_error_map [doc_handler] title version = Inr t"
proof -
  let ?head = "append_escaped_string (append_escaped_string ''{\"openapi\":\"3.1.1\",\"info\":{\"title\":'' title @ '',\"version\":'') version
    @ ''},\"paths\":{''"
  obtain o3 where o3: "append_paths sample_table sample_error_map [doc_handler] [] [doc_handler] True ?head = Inr o3"
    using doc_paths by blast
  obtain o4 where "append_components sample_table [''Item''] True (o3 @ ''},\"components\":{\"schemas\":{'') = Inr o4"
    using doc_components by blast
  with o3 show ?thesis
    by (simp add: generate_document_def Let_def doc_handler_facts(1,6,7) del: append_paths.simps append_components.simps One_nat_def)
qed

end
