(* ===== verification/Flash_Openapi_Refine.thy ===== *)
theory Flash_Openapi_Refine
  imports Flash_Openapi_Operations Flash_Openapi_Samples
begin

text \<open>The tree of the paths and of the whole document, and that \<open>generate_document\<close> writes it.\<close>

section \<open>Paths\<close>

definition operation_member :: "type_table \<Rightarrow> error_map \<Rightarrow> decl_info \<Rightarrow> string \<times> json" where
  "operation_member T em f = (method_name (ra_method (the (route_of f))), operation_tree T em f)"

definition append_named_operation :: "type_table \<Rightarrow> error_map \<Rightarrow> decl_info \<Rightarrow> string \<Rightarrow> string throwing" where
  "append_named_operation T em f out = (case route_of f of None \<Rightarrow> not_compiled
     | Some r \<Rightarrow> append_operation T em f (append_escaped_string out (method_name (ra_method r)) @ '':''))"

lemma append_named_operation_appends:
  assumes "plain_names T" "no_void_parameters f"
  shows "appends (append_named_operation T em f) (member_string (operation_member T em f))"
proof (cases "route_of f")
  case (Some r)
  from appends_pre [OF append_operation_appends [OF assms],
      of "\<lambda>out. append_escaped_string out (method_name (ra_method r)) @ '':''" "quoted (method_name (ra_method r)) @ '':''"]
  show ?thesis using Some
    by (simp add: append_named_operation_def [abs_def] operation_member_def member_string_def append_escaped_string_eq)
qed (simp add: append_named_operation_def [abs_def])

interpretation operations: comma_loop "append_path_operations T em path_function" "append_named_operation T em"
  "\<lambda>f. route_of f = None \<or> same_path path_function f" id "\<lambda>_. False" for T em path_function
  by unfold_locales (auto simp: append_named_operation_def not_compiled_def split: option.split)

definition path_member :: "type_table \<Rightarrow> error_map \<Rightarrow> decl_info list \<Rightarrow> decl_info \<Rightarrow> string \<times> json" where
  "path_member T em all f = (normalize_path (view (ra_path (the (route_of f)))),
     J_object (map (operation_member T em) (filter (same_path f) all)))"

text \<open>The endpoints whose path has not occurred before.\<close>

fun path_heads :: "decl_info list \<Rightarrow> decl_info list \<Rightarrow> decl_info list" where
  "path_heads earlier [] = []"
| "path_heads earlier (f # fs) =
     (if first_path_occurrence earlier f then [f] else []) @ path_heads (earlier @ [f]) fs"

definition routed :: "decl_info list \<Rightarrow> bool" where
  "routed fs \<longleftrightarrow> (\<forall>f \<in> set fs. route_of f \<noteq> None)"

lemma append_path_operations_appends:
  assumes "plain_names T" "\<forall>f \<in> set fs. no_void_parameters f" "routed fs"
  shows "appends (append_path_operations T em pf fs True)
    (members_string (map (operation_member T em) (filter (same_path pf) fs)))"
proof -
  have "appends (append_path_operations T em pf fs True) (join_with (CHR '','')
      (map (\<lambda>f. member_string (operation_member T em f)) (filter (\<lambda>f. route_of f = None \<or> same_path pf f) fs)))"
    by (rule operations.loop_appends) (simp_all add: append_named_operation_appends assms(1,2))
  moreover have "filter (\<lambda>f. route_of f = None \<or> same_path pf f) fs = filter (same_path pf) fs"
    by (rule filter_cong [OF refl]) (use assms(3) in \<open>auto simp: routed_def\<close>)
  ultimately show ?thesis by (simp add: members_string_map)
qed

lemma append_paths_appends:
  assumes "plain_names T" "\<forall>f \<in> set all. no_void_parameters f" "routed all" "routed fs"
  shows "appends (append_paths T em all earlier fs first)
    (let ms = map (path_member T em all) (path_heads earlier fs) in
     if first then members_string ms else more_members ms)"
  using assms(4)
proof (induction fs arbitrary: earlier first)
  case Nil
  show ?case by (simp add: appends_def)
next
  case (Cons f fs)
  then obtain r where r: "route_of f = Some r" by (auto simp: routed_def)
  have fs: "routed fs" using Cons.prems by (simp add: routed_def)
  let ?rest = "map (path_member T em all) (path_heads (earlier @ [f]) fs)"
  let ?comma = "if first then '''' else '',''"
  show ?case
  proof (cases "first_path_occurrence earlier f")
    case True
    have key: "append_openapi_path (if \<not> first then out @ '','' else out) (view (ra_path r)) @ '':{'' =
        out @ ?comma @ quoted (normalize_path (view (ra_path r))) @ '':{''" for out
      by (simp add: append_openapi_path_def append_escaped_string_eq)
    have rest: "appends (append_paths T em all (earlier @ [f]) fs False) (more_members ?rest)"
      using Cons.IH [OF fs, of "earlier @ [f]" False] by simp
    have "appends (\<lambda>out. bind_sum (append_path_operations T em f all True
          (append_openapi_path (if \<not> first then out @ '','' else out) (view (ra_path r)) @ '':{''))
          (\<lambda>o1. append_paths T em all (earlier @ [f]) fs False (o1 @ ''}'')))
        (((?comma @ quoted (normalize_path (view (ra_path r))) @ '':{'') @
          members_string (map (operation_member T em) (filter (same_path f) all))) @ ''}'' @ more_members ?rest)"
      by (rule appends_bind [OF appends_pre [OF append_path_operations_appends [OF assms(1-3)] key]
            appends_pre [OF rest refl]])
    moreover have "append_paths T em all earlier (f # fs) first = (\<lambda>out. bind_sum (append_path_operations T em f all True
          (append_openapi_path (if \<not> first then out @ '','' else out) (view (ra_path r)) @ '':{''))
          (\<lambda>o1. append_paths T em all (earlier @ [f]) fs False (o1 @ ''}'')))"
      using True r by (intro ext) simp
    moreover have "member_string (path_member T em all f) = quoted (normalize_path (view (ra_path r))) @ '':{'' @
        members_string (map (operation_member T em) (filter (same_path f) all)) @ ''}''"
      using r by (simp add: path_member_def)
    ultimately show ?thesis using True r by (cases first) simp_all
  next
    case False
    then have "append_paths T em all earlier (f # fs) first = append_paths T em all (earlier @ [f]) fs first"
      using r by (intro ext) simp
    with Cons.IH [OF fs, of "earlier @ [f]" first] False show ?thesis by simp
  qed
qed

section \<open>The document\<close>

definition problem_schema :: "string \<times> json" where
  "problem_schema = (''Problem'', J_object [type_member ''object'',
     (''required'', J_list [J_string ''type'', J_string ''title'', J_string ''status'']),
     (''properties'', J_object
        [(''type'', J_object [type_member ''string'', (''format'', J_string ''uri-reference'')]),
         (''title'', J_object [type_member ''string'']), (''status'', J_object [type_member ''integer'']),
         (''detail'', J_object [type_member ''string'']), (''instance'', J_object [type_member ''string'']),
         (''errors'', J_object [type_member ''array'', (''items'', J_object [type_member ''object''])])])])"

definition problem_response :: "string \<times> json" where
  "problem_response = (''Problem'', J_object [(''description'', J_string ''Request failed''),
     (''content'', J_object [(''application/problem+json'', J_object
        [(''schema'', J_object [(''$ref'', J_string ''#/components/schemas/Problem'')])])])])"

definition schemas_members :: "type_table \<Rightarrow> string list \<Rightarrow> (string \<times> json) list" where
  "schemas_members T types = map (component_member T) types @ [problem_schema]"

definition document_tree ::
    "type_table \<Rightarrow> error_map \<Rightarrow> decl_info list \<Rightarrow> string list \<Rightarrow> string \<Rightarrow> string \<Rightarrow> json" where
  "document_tree T em ns types title version = (let fs = endpoints ns in J_object
     [(''openapi'', J_string ''3.1.1''),
      (''info'', J_object [(''title'', J_string title), (''version'', J_string version)]),
      (''paths'', J_object (map (path_member T em fs) (path_heads [] fs))),
      (''components'', J_object
         [(''schemas'', J_object (schemas_members T types)), (''responses'', J_object [problem_response])])])"

lemma problem_components_eq:
  "problem_components = member_string problem_schema @ ''},\"responses\":{'' @ member_string problem_response @ ''}''"
  by (simp add: problem_components_def problem_schema_def problem_response_def render_object del: render.simps(4))

lemma members_string_snoc:
  "members_string (ms @ [m]) = members_string ms @ (if ms = [] then [] else '','') @ member_string m"
  by (cases ms) simp_all

lemma routed_endpoints: "routed (endpoints ns)"
  using endpoint_route by (fastforce simp: routed_def)

lemma document_text:
  assumes "generate_document n T em ns title version = Inr t" "plain_names T" "no_void_fields T"
    "\<forall>f \<in> set ns. no_void_parameters f"
  shows "\<exists>types. api_schema_types n T ns = Some types \<and> t = render (document_tree T em ns types title version)"
proof -
  let ?fs = "endpoints ns"
  obtain types where types: "api_schema_types n T ns = Some types"
    using assms(1) by (auto simp: generate_document_def not_compiled_def split: option.splits)
  let ?head = "''{\"openapi\":\"3.1.1\",\"info\":{\"title\":'' @ quoted title @ '',\"version\":'' @ quoted version @ ''},\"paths\":{''"
  obtain o3 o4 where o: "append_paths T em ?fs [] ?fs True ?head = Inr o3"
    "append_components T types True (o3 @ ''},\"components\":{\"schemas\":{'') = Inr o4"
    "t = append_problem_components (if length types \<noteq> 0 then o4 @ '','' else o4) @ ''}}''"
    using assms(1) types
    by (auto simp: generate_document_def Let_def append_escaped_string_eq bind_sum_Inr_iff not_compiled_def split: if_splits)
  have "\<forall>f \<in> set ?fs. no_void_parameters f" using assms(4) by (simp add: endpoints_def)
  note paths = append_paths_appends [OF assms(2) this routed_endpoints routed_endpoints,
      where em = em and earlier = "[]" and first = True]
  have "o3 = ?head @ members_string (map (path_member T em ?fs) (path_heads [] ?fs))"
    using appendsD [OF paths o(1)] by (simp add: Let_def)
  moreover have "o4 = (o3 @ ''},\"components\":{\"schemas\":{'') @ members_string (map (component_member T) types)"
    by (rule appendsD [OF append_components_appends [OF assms(2,3)] o(2)])
  moreover have "members_string (schemas_members T types) = members_string (map (component_member T) types) @
      (if types = [] then [] else '','') @ member_string problem_schema"
    unfolding schemas_members_def members_string_snoc by simp
  ultimately have "t = render (document_tree T em ns types title version)"
    using o(3) by (simp add: document_tree_def Let_def render_object append_problem_components_def problem_components_eq
        del: render.simps(4))
  with types show ?thesis by blast
qed

text \<open>C9. The generator writes valid JSON, and the JSON it means to: whenever a document is produced, its
  text is the rendering of the document tree, in which every schema, parameter, body, response, operation,
  path and component is built from the reflected declarations; commas, braces and escapes are all in
  place. (Component names need no escaping, and no field or parameter has type \<open>void\<close>.)\<close>

theorem document_refines_tree:
  assumes "generate_document n T em ns title version = Inr t" "plain_names T" "no_void_fields T"
    "\<forall>f \<in> set ns. no_void_parameters f"
  shows "\<exists>types. api_schema_types n T ns = Some types \<and> t = render (document_tree T em ns types title version)"
  using assms by (rule document_text)

lemma sample_plain_names: "plain_names sample_table"
  unfolding plain_names_def
proof (intro allI impI)
  fix name cn
  assume c: "component_name sample_table name = Some cn"
  then have "name = ''Item''" by (cases "name = ''Item''") (simp_all add: component_name_def sample_table_def)
  with c doc_handler_facts(9) have "cn = ''Item''" by simp
  moreover have "plain_text ''Item''" by code_simp
  ultimately show "plain_text cn" by simp
qed

lemma sample_no_void: "no_void_fields sample_table" "no_void_parameters doc_handler"
  by (auto simp: no_void_fields_def sample_table_def sample_fields_def no_void_parameters_def doc_handler_def split: if_splits)

theorem document_refines_tree_witness:
  "\<exists>t. generate_document 1 sample_table sample_error_map [doc_handler] ''T'' ''1'' = Inr t \<and>
     t = render (document_tree sample_table sample_error_map [doc_handler] [''Item''] ''T'' ''1'')"
proof -
  obtain t where t: "generate_document 1 sample_table sample_error_map [doc_handler] ''T'' ''1'' = Inr t"
    using doc_generated by blast
  have "\<forall>f \<in> set [doc_handler]. no_void_parameters f" using sample_no_void by simp
  from document_refines_tree [OF t sample_plain_names sample_no_void(1) this] t doc_handler_facts(6)
  show ?thesis by auto
qed

end
