(* ===== verification/Flash_Openapi_Pointer.thy ===== *)
theory Flash_Openapi_Pointer
  imports Flash_Openapi_Refine "HOL-Library.Sublist"
begin

text \<open>
  References as a reader of the document resolves them: JSON pointers (RFC 6901) in the fragment of a
  \<open>$ref\<close>, looked up in the tree of the document.
\<close>

section \<open>JSON pointers\<close>

text \<open>
  RFC 6901: a reference is a fragment of percent-encoded text whose pieces between slashes name members,
  \<open>~1\<close> standing for a slash and \<open>~0\<close> for a tilde. A member has to be the only one of its name.
\<close>

fun unescape_token :: "string \<Rightarrow> string option" where
  "unescape_token [] = Some []"
| "unescape_token (c # cs) =
     (if c \<noteq> CHR ''~'' then map_option ((#) c) (unescape_token cs)
      else (case cs of
          d # ds \<Rightarrow>
            (if d = CHR ''0'' then map_option ((#) (CHR ''~'')) (unescape_token ds)
             else if d = CHR ''1'' then map_option ((#) (CHR ''/'')) (unescape_token ds)
             else None)
        | [] \<Rightarrow> None))"

fun pointer_lookup :: "json \<Rightarrow> string list \<Rightarrow> json option" where
  "pointer_lookup j [] = Some j"
| "pointer_lookup (J_object ms) (k # ks) =
     (case filter (\<lambda>m. fst m = k) ms of [m] \<Rightarrow> pointer_lookup (snd m) ks | _ \<Rightarrow> None)"
| "pointer_lookup _ (k # ks) = None"

definition pointer_tokens :: "string \<Rightarrow> string list option" where
  "pointer_tokens p =
     (if p = [] then Some []
      else if hd p \<noteq> CHR ''/'' then None
      else those (map unescape_token (split_on (CHR ''/'') (tl p))))"

definition resolve :: "json \<Rightarrow> string \<Rightarrow> json option" where
  "resolve tree r =
     (if r = [] \<or> hd r \<noteq> CHR ''#'' then None
      else Option.bind (percent_spec False (tl r)) (\<lambda>p.
           Option.bind (pointer_tokens p) (pointer_lookup tree)))"

lemma unescape_token_id: "CHR ''~'' \<notin> set s \<Longrightarrow> unescape_token s = Some s"
  by (induction s) auto

section \<open>Names that can be referred to\<close>

text \<open>
  The generator writes \<open>#/components/schemas/\<close> and the bare name (\<open>schema.hpp\<close>, line 397), neither escaped
  for JSON nor as a pointer nor as a fragment. The names below survive that; \<open>sanitize\<close> makes the
  default names such names, so only an explicit \<open>schema_name\<close> annotation, or a class called \<open>Problem\<close>,
  can break it.
\<close>

definition reference_names :: "type_table \<Rightarrow> bool" where
  "reference_names T \<longleftrightarrow> (\<forall>name cn. component_name T name = Some cn \<longrightarrow>
     plain_text cn \<and> set cn \<inter> {CHR ''/'', CHR ''~'', CHR ''%''} = {} \<and> cn \<noteq> ''Problem'')"

lemma pointer_tokens_two:
  assumes "CHR ''/'' \<notin> set a" "CHR ''/'' \<notin> set b" "CHR ''/'' \<notin> set c"
    "CHR ''~'' \<notin> set a" "CHR ''~'' \<notin> set b" "CHR ''~'' \<notin> set c"
  shows "pointer_tokens (CHR ''/'' # a @ CHR ''/'' # b @ CHR ''/'' # c) = Some [a, b, c]"
  using assms by (simp add: pointer_tokens_def split_on_append split_on_clean unescape_token_id)

lemma resolve_three:
  assumes "set a \<inter> {CHR ''/'', CHR ''~'', CHR ''%''} = {}" "set b \<inter> {CHR ''/'', CHR ''~'', CHR ''%''} = {}"
    "set c \<inter> {CHR ''/'', CHR ''~'', CHR ''%''} = {}"
  shows "resolve tree (''#/'' @ a @ ''/'' @ b @ ''/'' @ c) = pointer_lookup tree [a, b, c]"
proof -
  have "percent_spec False (CHR ''/'' # a @ CHR ''/'' # b @ CHR ''/'' # c) = Some (CHR ''/'' # a @ CHR ''/'' # b @ CHR ''/'' # c)"
    by (rule percent_spec_id) (use assms in auto)
  with assms show ?thesis by (simp add: resolve_def pointer_tokens_two)
qed

text \<open>What a pointer finds is written in the text.\<close>

lemma render_member:
  "m \<in> set ms \<Longrightarrow> sublist (render (snd m)) (render (J_object ms))"
proof -
  assume m: "m \<in> set ms"
  have "sublist (member_string m) (members_string ms)"
    using m
  proof (induction ms)
    case (Cons x xs)
    show ?case
    proof (cases "m = x")
      case True
      then show ?thesis by (cases xs) (auto simp: sublist_def)
    next
      case False
      with Cons have "sublist (member_string m) (members_string xs)" "xs \<noteq> []" by auto
      then show ?thesis by (cases xs) (auto simp: sublist_def, metis append.assoc append_Cons)
    qed
  qed simp
  moreover have "sublist (render (snd m)) (member_string m)"
  proof -
    have "member_string m = (quoted (fst m) @ '':'') @ render (snd m) @ []" by (simp add: member_string_def)
    then show ?thesis by (metis sublist_appendI)
  qed
  moreover have "sublist (members_string ms) (render (J_object ms))"
    unfolding render_object by (rule sublist_appendI)
  ultimately show ?thesis by (meson sublist_order.order_trans)
qed

lemma pointer_lookup_rendered: "pointer_lookup j ks = Some found \<Longrightarrow> sublist (render found) (render j)"
proof (induction j ks rule: pointer_lookup.induct)
  case (2 ms k ks)
  then obtain m where m: "filter (\<lambda>m. fst m = k) ms = [m]" "pointer_lookup (snd m) ks = Some found"
    by (auto split: list.splits)
  then have "m \<in> set ms" by (metis filter_is_subset list.set_intros(1) subsetD)
  with "2.IH" [OF m(1) refl m(2)] show ?case by (meson render_member sublist_order.order_trans)
qed simp_all

lemma lookup_unique:
  "distinct (map fst ms) \<Longrightarrow> (k, j) \<in> set ms \<Longrightarrow> pointer_lookup (J_object ms) (k # ks) = pointer_lookup j ks"
proof -
  assume ms: "distinct (map fst ms)" "(k, j) \<in> set ms"
  then have "filter (\<lambda>m. fst m = k) ms = [(k, j)]"
  proof (induction ms)
    case (Cons x xs)
    show ?case
    proof (cases "x = (k, j)")
      case True
      then have "filter (\<lambda>m. fst m = k) xs = []" using Cons.prems(1) by (auto simp: filter_empty_conv)
      with True show ?thesis by simp
    next
      case False
      with Cons.prems have "(k, j) \<in> set xs" by simp
      then have "k \<in> fst ` set xs" by force
      then have "fst x \<noteq> k" using Cons.prems(1) by auto
      with Cons.IH Cons.prems(1) \<open>(k, j) \<in> set xs\<close> show ?thesis by simp
    qed
  qed simp
  then show ?thesis by simp
qed

lemma lookup_schemas:
  assumes "distinct (map fst (schemas_members T types))" "(k, j) \<in> set (schemas_members T types)"
  shows "pointer_lookup (document_tree T em ns types title version) [''components'', ''schemas'', k] = Some j"
  using lookup_unique [OF assms, of "[]"]
  by (simp add: document_tree_def Let_def)

lemma lookup_problem_response:
  "pointer_lookup (document_tree T em ns types title version) [''components'', ''responses'', ''Problem''] =
     Some (snd problem_response)"
  by (simp add: document_tree_def Let_def problem_response_def)

lemma schema_pointer:
  assumes "set cn \<inter> {CHR ''/'', CHR ''~'', CHR ''%''} = {}"
  shows "resolve tree (''#/components/schemas/'' @ cn) = pointer_lookup tree [''components'', ''schemas'', cn]"
  using resolve_three [of "''components''" "''schemas''" cn tree] assms by simp

lemma response_pointer:
  "resolve tree ''#/components/responses/Problem'' = pointer_lookup tree [''components'', ''responses'', ''Problem'']"
  using resolve_three [of "''components''" "''responses''" "''Problem''" tree] by simp

lemma resolve_rendered: "resolve tree r = Some found \<Longrightarrow> sublist (render found) (render tree)"
  by (auto simp: resolve_def bind_eq_Some_conv split: if_splits intro: pointer_lookup_rendered)

text \<open>Default names.\<close>

lemma sanitize_chars: "length (sanitize s) = length s" "\<forall>c \<in> set (sanitize s). alpha_numeric c \<or> c = CHR ''_''"
  by (induction s) auto

lemma escape_alpha_numeric:
  assumes "alpha_numeric c \<or> c = CHR ''_''"
  shows "escape_char c = [c]"
proof (cases "c = CHR ''_''")
  case False
  then have a: "alpha_numeric c" using assms by simp
  then have "c \<notin> {CHR 0x22, CHR 0x5C, CHR 0x08, CHR 0x0C, CHR 0x0A, CHR 0x0D, CHR 0x09}"
    by (auto simp: alpha_numeric_def)
  moreover have "\<not> (of_char c :: nat) < 0x20" using a by (simp add: alpha_numeric_def Let_def, linarith)
  ultimately show ?thesis by (simp add: escape_char_def)
qed (simp add: escape_char_def)

lemma default_name_safe:
  assumes "T name = Some ob" "ob_schema_names ob = []" "component_name T name = Some cn"
  shows "plain_text cn" "set cn \<inter> {CHR ''/'', CHR ''~'', CHR ''%''} = {}"
proof -
  have "length (ob_display ob) \<le> 255" "cn = view (fixed_substring (sanitize (ob_display ob)) 0 (length (ob_display ob)))"
    using assms by (auto simp: component_name_def component_name_value_def annotation_text_capacity_def split: if_splits)
  then have cn: "cn = sanitize (ob_display ob)"
    using view_fixed_substring [of "sanitize (ob_display ob)"] by (simp add: sanitize_chars)
  have chars: "\<forall>c \<in> set cn. alpha_numeric c \<or> c = CHR ''_''" unfolding cn by (rule sanitize_chars)
  then show "plain_text cn" by (simp add: plain_text_def list_all_iff escape_alpha_numeric)
  show "set cn \<inter> {CHR ''/'', CHR ''~'', CHR ''%''} = {}" using chars by (auto simp: alpha_numeric_def)
qed

end
