(* ===== verification/Flash_Openapi_Props.thy ===== *)
theory Flash_Openapi_Props
  imports Flash_Openapi_Pointer
begin

text \<open>
  The collection of component classes terminates, is closed and without duplicates, and the keys of the
  components are unique; hence every reference in a document resolves, as a JSON pointer, to the
  component it is meant for. Two names for which it does not are at the end.
\<close>

section \<open>Collection is closed\<close>

function class_refs :: "type_table \<Rightarrow> ctype \<Rightarrow> string set" where
  "class_refs T t = (case unwrapped t of
       Some u \<Rightarrow> class_refs T u
     | None \<Rightarrow> (case reflectable_object T t of None \<Rightarrow> {} | Some (name, ob) \<Rightarrow> {name}))"
  by pat_completeness auto
termination
  by (relation "measure (\<lambda>(T, t). size t)") (auto simp: size_unwrapped)

declare class_refs.simps [simp del]

definition field_refs :: "type_table \<Rightarrow> field_info list \<Rightarrow> string set" where
  "field_refs T fs = (\<Union>f \<in> set fs. class_refs T (fi_type f))"

lemma field_refs_simps [simp]:
  "field_refs T [] = {}" "field_refs T (f # fs) = class_refs T (fi_type f) \<union> field_refs T fs"
  by (simp_all add: field_refs_def)

definition component_refs :: "type_table \<Rightarrow> string \<Rightarrow> string set" where
  "component_refs T name = (case T name of None \<Rightarrow> {} | Some ob \<Rightarrow> field_refs T (ob_fields ob))"

text \<open>What a step of the collection from \<open>l\<close> to \<open>l'\<close> ensures.\<close>

definition grows :: "type_table \<Rightarrow> string list \<Rightarrow> string list \<Rightarrow> bool" where
  "grows T l l' \<longleftrightarrow> set l \<subseteq> set l' \<and> (distinct l \<longrightarrow> distinct l') \<and>
     (\<forall>c \<in> set l' - set l. component_refs T c \<subseteq> set l' \<and> T c \<noteq> None)"

lemma grows_refl [simp]: "grows T l l"
  by (simp add: grows_def)

lemma grows_trans: "grows T l l1 \<Longrightarrow> grows T l1 l2 \<Longrightarrow> grows T l l2"
  unfolding grows_def by blast

lemma grows_subset: "grows T l l' \<Longrightarrow> A \<subseteq> set l \<Longrightarrow> A \<subseteq> set l'"
  by (auto simp: grows_def)

lemma reflectable_object_Some:
  "reflectable_object T t = Some (name, ob) \<Longrightarrow> T name = Some ob"
  by (auto simp: reflectable_object_def bind_eq_Some_conv split: if_splits)

lemma collect_grows:
  "collect_type n T t l = Some l' \<Longrightarrow> grows T l l' \<and> class_refs T t \<subseteq> set l'"
  "collect_fields n T fs l = Some l' \<Longrightarrow> grows T l l' \<and> field_refs T fs \<subseteq> set l'"
proof (induction n T t l and n T fs l arbitrary: l' and l' rule: collect_type_collect_fields.induct)
  case (1 n T t l)
  show ?case
  proof (cases "unwrapped t")
    case (Some u)
    then have "collect_type n T u l = Some l'" using "1.prems" by (simp add: collect_type.simps [of n T t])
    from "1.IH"(2) [OF Some this] Some show ?thesis by (simp add: class_refs.simps [of T t])
  next
    case None
    show ?thesis
    proof (cases "reflectable_object T t")
      case ro: (Some no)
      obtain name ob where no: "no = (name, ob)" by (cases no)
      have T: "T name = Some ob" using ro no by (simp add: reflectable_object_Some)
      show ?thesis
      proof (cases "name \<in> set l")
        case True
        then show ?thesis using "1.prems" None ro no
          by (simp add: collect_type.simps [of n T t] class_refs.simps [of T t])
      next
        case False
        obtain m where m: "n = Suc m" "collect_fields m T (ob_fields ob) (l @ [name]) = Some l'"
          using "1.prems" None ro no False by (cases n) (simp_all add: collect_type.simps [of _ T t])
        from "1.IH"(1) [OF None ro no [symmetric] False m(1) m(2)]
        have g: "grows T (l @ [name]) l'" "field_refs T (ob_fields ob) \<subseteq> set l'" by simp_all
        have "component_refs T c \<subseteq> set l' \<and> T c \<noteq> None" if "c \<in> set l' - set l" for c
        proof (cases "c = name")
          case True
          then show ?thesis using g(2) T by (simp add: component_refs_def)
        next
          case False
          then show ?thesis using g(1) that by (simp add: grows_def)
        qed
        then have "grows T l l'" using g(1) False by (simp add: grows_def)
        moreover have "class_refs T t = {name}" using None ro no by (simp add: class_refs.simps [of T t])
        ultimately show ?thesis using g(1) by (auto simp: grows_def)
      qed
    next
      case ro: None
      then show ?thesis using "1.prems" None
        by (simp add: collect_type.simps [of n T t] class_refs.simps [of T t])
    qed
  qed
next
  case (3 n T f fs l)
  obtain l1 where l1: "collect_type n T (fi_type f) l = Some l1" "collect_fields n T fs l1 = Some l'"
    using "3.prems" by (auto simp: bind_eq_Some_conv)
  from "3.IH"(1) [OF l1(1)] "3.IH"(2) [OF l1] show ?case
    by (auto intro: grows_trans dest: grows_subset)
qed simp_all

section \<open>Collection terminates\<close>

lemma collect_terminates:
  "finite (dom T) \<Longrightarrow> card (dom T - set l) \<le> n \<Longrightarrow> \<exists>l'. collect_type n T t l = Some l'"
  "finite (dom T) \<Longrightarrow> card (dom T - set l) \<le> n \<Longrightarrow> \<exists>l'. collect_fields n T fs l = Some l'"
proof (induction n T t l and n T fs l rule: collect_type_collect_fields.induct)
  case (1 n T t l)
  show ?case
  proof (cases "unwrapped t")
    case (Some u)
    then show ?thesis using "1.IH"(2) "1.prems" by (simp add: collect_type.simps [of n T t])
  next
    case None
    show ?thesis
    proof (cases "reflectable_object T t")
      case ro: (Some no)
      obtain name ob where no: "no = (name, ob)" by (cases no)
      show ?thesis
      proof (cases "name \<in> set l")
        case False
        have "name \<in> dom T" using reflectable_object_Some ro no by blast
        then have less: "card (dom T - set (l @ [name])) < card (dom T - set l)"
          using False "1.prems"(1) by (intro psubset_card_mono) auto
        then obtain m where m: "n = Suc m" using "1.prems"(2) by (cases n) auto
        have "card (dom T - set (l @ [name])) \<le> m" using less "1.prems"(2) m by linarith
        from "1.IH"(1) [OF None ro no [symmetric] False m "1.prems"(1) this] None ro no False m
        show ?thesis by (simp add: collect_type.simps [of "Suc m" T t])
      qed (use None ro no in \<open>simp add: collect_type.simps [of n T t]\<close>)
    qed (use None in \<open>simp add: collect_type.simps [of n T t]\<close>)
  qed
next
  case (3 n T f fs l)
  obtain l1 where l1: "collect_type n T (fi_type f) l = Some l1" using "3.IH"(1) "3.prems" by blast
  have "dom T - set l1 \<subseteq> dom T - set l" using collect_grows(1) [OF l1] by (auto simp: grows_def)
  then have "card (dom T - set l1) \<le> n" using "3.prems" by (meson card_mono finite_Diff le_trans)
  with "3.IH"(2) [OF l1 "3.prems"(1)] l1 show ?case by simp
qed simp_all

section \<open>From a namespace\<close>

definition body_refs :: "type_table \<Rightarrow> decl_info \<Rightarrow> nat list \<Rightarrow> string set" where
  "body_refs T f is = (\<Union>i \<in> {i \<in> set is. parameter_source T f i = Some Src_body}.
     case parameter_at f i of None \<Rightarrow> {} | Some p \<Rightarrow> class_refs T (pi_type p))"

lemma collect_body_grows:
  "collect_body_types n T f is l = Some l' \<Longrightarrow> grows T l l' \<and> body_refs T f is \<subseteq> set l'"
proof (induction "is" arbitrary: l)
  case (Cons i rest)
  obtain source p l1 where s: "parameter_source T f i = Some source" "parameter_at f i = Some p"
    "(if source = Src_body then collect_type n T (pi_type p) l else Some l) = Some l1"
    "collect_body_types n T f rest l1 = Some l'"
    using Cons.prems by (auto simp: bind_eq_Some_conv)
  have 1: "grows T l l1 \<and> (source = Src_body \<longrightarrow> class_refs T (pi_type p) \<subseteq> set l1)"
    using s(3) collect_grows(1) by (auto split: if_splits)
  have 2: "grows T l1 l' \<and> body_refs T f rest \<subseteq> set l'" using Cons.IH [OF s(4)] .
  have "body_refs T f (i # rest) \<subseteq> (if source = Src_body then class_refs T (pi_type p) else {}) \<union> body_refs T f rest"
    using s(1,2) by (auto simp: body_refs_def split: if_splits)
  moreover have "(if source = Src_body then class_refs T (pi_type p) else {}) \<subseteq> set l'"
    using 1 2 by (auto simp: grows_def)
  ultimately show ?case using 1 2 grows_trans by blast
qed (simp add: body_refs_def)

definition endpoint_refs :: "type_table \<Rightarrow> decl_info \<Rightarrow> string set" where
  "endpoint_refs T f = body_refs T f [0..<length (d_parameters f)] \<union> class_refs T (d_return f)"

lemma collect_endpoint_grows:
  "collect_endpoint_types n T f l = Some l' \<Longrightarrow> grows T l l' \<and> endpoint_refs T f \<subseteq> set l'"
  unfolding collect_endpoint_types_def endpoint_refs_def bind_eq_Some_conv
  using collect_body_grows collect_grows(1) grows_trans grows_subset by (metis (no_types, lifting) Un_least)

lemma collect_api_grows:
  "collect_api_types n T fs l = Some l' \<Longrightarrow> grows T l l' \<and> (\<forall>f \<in> set fs. endpoint_refs T f \<subseteq> set l')"
proof (induction fs arbitrary: l)
  case (Cons f fs)
  obtain l1 where l1: "collect_endpoint_types n T f l = Some l1" "collect_api_types n T fs l1 = Some l'"
    using Cons.prems by (auto simp: bind_eq_Some_conv)
  from collect_endpoint_grows [OF l1(1)] Cons.IH [OF l1(2)] show ?case
    by (auto intro: grows_trans dest: grows_subset)
qed simp

section \<open>References\<close>

text \<open>The strings under \<open>$ref\<close> in a tree.\<close>

fun refs :: "json \<Rightarrow> string set" where
  "refs (J_raw s) = {}"
| "refs (J_string s) = {}"
| "refs (J_list js) = \<Union> (set (map refs js))"
| "refs (J_object ms) = \<Union> (set (map (\<lambda>(k, j).
     (case j of J_string s \<Rightarrow> (if k = ''$ref'' then {s} else {}) | _ \<Rightarrow> refs j)) ms))"

definition member_refs :: "string \<times> json \<Rightarrow> string set" where
  "member_refs m = (case snd m of J_string s \<Rightarrow> (if fst m = ''$ref'' then {s} else {}) | j \<Rightarrow> refs j)"

definition mrefs :: "(string \<times> json) list \<Rightarrow> string set" where
  "mrefs ms = refs (J_object ms)"

lemma mrefs_simps [simp]:
  "mrefs [] = {}" "mrefs (m # ms) = member_refs m \<union> mrefs ms" "mrefs (ms @ ns) = mrefs ms \<union> mrefs ns"
  by (auto simp: mrefs_def member_refs_def split: prod.splits json.splits)

lemma mrefs_map: "mrefs (map f xs) = (\<Union>x \<in> set xs. member_refs (f x))"
  by (induction xs) simp_all

lemma member_refs_simps [simp]:
  "member_refs (k, J_raw s) = {}"
  "member_refs (k, J_string s) = (if k = ''$ref'' then {s} else {})"
  "member_refs (k, J_list js) = (\<Union>j \<in> set js. refs j)"
  "member_refs (k, J_object ms) = mrefs ms"
  by (simp_all add: member_refs_def mrefs_def)

lemma refs_object: "refs (J_object ms) = mrefs ms"
  by (simp add: mrefs_def)

definition schema_ref :: "type_table \<Rightarrow> string \<Rightarrow> string" where
  "schema_ref T c = ''#/components/schemas/'' @ the (component_name T c)"

lemma class_refs_simps [simp]:
  "class_refs T (C_optional u) = class_refs T u" "class_refs T (C_vector u) = class_refs T u"
  "class_refs T (C_array u n) = class_refs T u" "class_refs T (C_created u) = class_refs T u"
  "class_refs T (C_response u) = class_refs T u" "class_refs T (C_task u) = class_refs T u"
  "class_refs T (C_expected u e) = class_refs T u"
  by (simp_all add: class_refs.simps [of T] unwrapped_def)

lemma class_refs_plain:
  "unwrapped t = None \<Longrightarrow>
   class_refs T t = (case reflectable_object T t of None \<Rightarrow> {} | Some (name, ob) \<Rightarrow> {name})"
  by (simp add: class_refs.simps [of T t])

lemma reflectable_wrapper: "unwrapped t = Some u \<Longrightarrow> reflectable_object T t = None"
  by (cases t) (simp_all add: unwrapped_def reflectable_object_def class_name_def)

lemma reference_refs:
  "mrefs (case reflectable_object T t of None \<Rightarrow> []
      | Some (name, ob) \<Rightarrow> [(''$ref'', J_string (''#/components/schemas/'' @ the (component_name T name)))])
    \<subseteq> schema_ref T ` class_refs T t"
proof (cases "unwrapped t")
  case None
  then show ?thesis by (simp add: class_refs_plain schema_ref_def split: option.split)
qed (simp add: reflectable_wrapper)

lemma reflectable_wrapper_simps [simp]:
  "reflectable_object T (C_created u) = None" "reflectable_object T (C_response u) = None"
  "reflectable_object T (C_task u) = None" "reflectable_object T (C_expected u e) = None"
  by (simp_all add: reflectable_object_def class_name_def)

lemma schema_refs: "mrefs (schema_members T t) \<subseteq> schema_ref T ` class_refs T t"
proof (induction t)
  case (C_optional u)
  then show ?case by (simp add: schema_members.simps [of T "C_optional u"] refs_object del: refs.simps(4))
next
  case (C_vector u)
  then show ?case by (simp add: schema_members.simps [of T "C_vector u"])
next
  case (C_array u n)
  then show ?case by (simp add: schema_members.simps [of T "C_array u n"])
next
  case (C_enum en)
  show ?case by (simp add: schema_members.simps [of T "C_enum en"])
qed (use reference_refs [of T] in \<open>simp_all add: schema_members.simps [of T]\<close>)

lemma rule_member_refs [simp]: "member_refs (rule_member r) = {}"
  by (simp add: rule_member_def)

lemma annotation_refs [simp]:
  "mrefs (map rule_member rs) = {}" "mrefs (default_members T t ds) = {}" "mrefs (description_members fs) = {}"
  "mrefs (deprecated_members n) = {}"
  by (simp_all add: mrefs_map default_members_def description_members_def deprecated_members_def)

lemma component_member_refs:
  assumes "T name = Some ob"
  shows "member_refs (component_member T name) \<subseteq> schema_ref T ` component_refs T name"
proof -
  have "member_refs (property_member T f) \<subseteq> schema_ref T ` class_refs T (fi_type f)" for f
    using schema_refs [of T "fi_type f"] by (simp add: property_member_def)
  then have "(\<Union>f \<in> set (ob_fields ob). member_refs (property_member T f)) \<subseteq>
      (\<Union>f \<in> set (ob_fields ob). schema_ref T ` class_refs T (fi_type f))"
    by (rule UN_mono [OF order_refl])
  then show ?thesis using assms
    by (simp add: component_member_def component_tree_def mrefs_map component_refs_def field_refs_def image_UN)
qed

section \<open>References of operations\<close>

definition scalar_parameters :: "type_table \<Rightarrow> decl_info \<Rightarrow> bool" where
  "scalar_parameters T f \<longleftrightarrow> (\<forall>i p source. parameter_at f i = Some p \<and> parameter_source T f i = Some source \<and>
     documented_source source \<longrightarrow> (\<exists>u. scalar_bindable u \<and> (pi_type p = u \<or> pi_type p = C_optional u)))"

lemma scalar_class_refs: "scalar_bindable u \<Longrightarrow> class_refs T u = {}"
  by (cases u) (simp_all add: class_refs_plain unwrapped_def reflectable_object_def class_name_def)

lemma parameter_refs:
  assumes "scalar_parameters T f" "parameter_written T f i" "parameter_source T f i = Some source" "parameter_at f i = Some p"
  shows "refs (parameter_tree_at T f i) = {}"
proof -
  have "class_refs T (pi_type p) = {}"
    using assms scalar_class_refs by (fastforce simp: scalar_parameters_def parameter_written_def)
  then have "mrefs (schema_members T (pi_type p)) = {}" using schema_refs [of T "pi_type p"] by simp
  then show ?thesis
    using assms by (simp add: parameter_tree_at_def parameter_tree_def refs_object del: refs.simps(4))
qed

definition problem_ref :: string where
  "problem_ref = ''#/components/responses/Problem''"

lemma body_member_refs:
  "mrefs (request_body_members T f is) \<subseteq> schema_ref T `
     (\<Union>i \<in> {i \<in> set is. parameter_source T f i = Some Src_body}. class_refs T (pi_type (the (parameter_at f i))))"
proof (induction "is")
  case (Cons i rest)
  show ?case
  proof (cases "parameter_source T f i = Some Src_body")
    case True
    then show ?thesis using schema_refs [of T "pi_type (the (parameter_at f i))"]
      by (fastforce simp: json_content_def image_UN)
  next
    case False
    then have "{j \<in> set (i # rest). parameter_source T f j = Some Src_body} =
        {j \<in> set rest. parameter_source T f j = Some Src_body}" by auto
    then show ?thesis using Cons False by simp
  qed
qed simp

lemma success_member_refs: "member_refs (success_member T t) \<subseteq> schema_ref T ` class_refs T t"
proof (induction t)
  case (C_created u)
  then show ?case using schema_refs [of T u] by (simp add: success_content_def json_content_def)
next
  case (C_response u)
  then show ?case using schema_refs [of T u] by (simp add: success_content_def json_content_def)
next
  case (C_optional u)
  then show ?case using schema_refs [of T "C_optional u"] by (simp add: success_content_def json_content_def)
next
  case (C_vector u)
  then show ?case using schema_refs [of T "C_vector u"] by (simp add: success_content_def json_content_def)
next
  case (C_array u n)
  then show ?case using schema_refs [of T "C_array u n"] by (simp add: success_content_def json_content_def)
qed (use schema_refs [of T] in \<open>simp_all add: success_content_def json_content_def\<close>)

lemma problem_member_refs: "mrefs (map problem_member ss) \<subseteq> {problem_ref}"
  by (auto simp: mrefs_map problem_member_def problem_ref_def)

lemma every_explicit_path_source:
  "every_explicit_path_exists T f i rest = Some True \<Longrightarrow> i \<le> j \<Longrightarrow> j < i + rest \<Longrightarrow>
   parameter_source T f j \<noteq> None"
proof (induction T f i rest rule: every_explicit_path_exists.induct)
  case (2 T f i rest)
  obtain source has where s: "parameter_source T f i = Some source"
    "(if source = Src_path then route_has_wire_name f i else Some True) = Some has"
    "has" "every_explicit_path_exists T f (i + 1) rest = Some True"
    using "2.prems"(1) by (auto simp: bind_eq_Some_conv split: if_splits)
  then show ?case using "2.IH" [OF s(1,2) _ s(4)] "2.prems" by (cases "j = i") simp_all
qed simp

lemma operation_refs:
  assumes "validate_endpoint_binding T f" "d_is_function f" "scalar_parameters T f"
  shows "refs (operation_tree T em f) \<subseteq> schema_ref T ` endpoint_refs T f \<union> {problem_ref}"
proof -
  let ?is = "[0..<length (d_parameters f)]"
  have some: "\<exists>p source. parameter_at f i = Some p \<and> parameter_source T f i = Some source"
    if "i < length (d_parameters f)" for i
  proof -
    have "every_explicit_path_exists T f 0 (length (d_parameters f)) = Some True"
      using assms(1) by (simp add: validate_endpoint_binding_def)
    from every_explicit_path_source [OF this] that show ?thesis using assms(2) by (simp add: parameter_at_def)
  qed
  have params: "refs (parameter_tree_at T f i) = {}" if "i \<in> set (filter (parameter_written T f) ?is)" for i
    using that some [of i] parameter_refs [OF assms(3)] by auto
  have "{i \<in> set ?is. parameter_source T f i = Some Src_body} = {i. i < length (d_parameters f) \<and> parameter_source T f i = Some Src_body}"
    by auto
  moreover have "class_refs T (pi_type (the (parameter_at f i))) = (case parameter_at f i of None \<Rightarrow> {} | Some p \<Rightarrow> class_refs T (pi_type p))"
    if "i < length (d_parameters f)" for i
    using some [OF that] by auto
  ultimately have "(\<Union>i \<in> {i \<in> set ?is. parameter_source T f i = Some Src_body}. class_refs T (pi_type (the (parameter_at f i)))) = body_refs T f ?is"
    unfolding body_refs_def by (intro SUP_cong) auto
  with body_member_refs [of T f ?is] have body: "mrefs (request_body_members T f ?is) \<subseteq> schema_ref T ` body_refs T f ?is"
    by simp
  have "mrefs (response_members T em (d_return f)) \<subseteq> schema_ref T ` class_refs T (d_return f) \<union> {problem_ref}"
    using success_member_refs [of T "d_return f"] problem_member_refs [of "error_statuses em (d_return f)"]
    unfolding response_members_def by auto
  with body params show ?thesis
    by (auto simp: operation_tree_def Let_def endpoint_refs_def refs_object image_Un simp del: refs.simps(4))
qed

section \<open>Keys\<close>

lemma component_names_unique_distinct: "component_names_unique names 0 1 \<longleftrightarrow> distinct (map view names)"
proof -
  have "component_names_unique names l r = field_names_unique names l r" for l r
    by (induction names l r rule: component_names_unique.induct)
      (subst component_names_unique.simps, subst field_names_unique.simps, simp)
  then show ?thesis using field_names_unique_distinct by metis
qed

lemma component_keys: "component_name_values T types = Some names \<Longrightarrow>
    map (\<lambda>c. component_name T c) types = map (\<lambda>n. Some (view n)) names"
  unfolding component_name_values_def component_name_def
  by (drule those_SomeD) (induction types arbitrary: names, auto simp: map_eq_Cons_conv Cons_eq_map_conv bind_eq_Some_conv)

lemma component_names_distinct:
  assumes "validate_document T ns types"
  shows "distinct (map (\<lambda>c. the (component_name T c)) types)"
    and "\<forall>c \<in> set types. component_name T c = Some (the (component_name T c))"
proof -
  obtain names where n: "component_name_values T types = Some names" "component_names_unique names 0 1"
    using assms by (auto simp: validate_document_def validate_component_names_def split: option.splits)
  have keys: "map (component_name T) types = map (\<lambda>n. Some (view n)) names" using component_keys [OF n(1)] by simp
  have "map (\<lambda>c. the (component_name T c)) types = map the (map (component_name T) types)" by simp
  also have "\<dots> = map view names" unfolding keys by simp
  finally show "distinct (map (\<lambda>c. the (component_name T c)) types)"
    using n(2) component_names_unique_distinct by simp
  show "\<forall>c \<in> set types. component_name T c = Some (the (component_name T c))"
  proof
    fix c
    assume "c \<in> set types"
    then have "component_name T c \<in> set (map (\<lambda>n. Some (view n)) names)" using keys by (metis image_eqI set_map)
    then show "component_name T c = Some (the (component_name T c))" by auto
  qed
qed

lemma schemas_keys:
  "map fst (schemas_members T types) = map (\<lambda>c. the (component_name T c)) types @ [''Problem'']"
  by (simp add: schemas_members_def problem_schema_def component_member_def comp_def)

lemma schemas_keys_distinct:
  assumes "validate_document T ns types"
  shows "distinct (map fst (schemas_members T types)) \<longleftrightarrow> (\<forall>c \<in> set types. component_name T c \<noteq> Some ''Problem'')"
proof -
  have "component_name T c = Some ''Problem'' \<longleftrightarrow> the (component_name T c) = ''Problem''" if "c \<in> set types" for c
    using component_names_distinct(2) [OF assms] that by (metis option.sel)
  then have "''Problem'' \<in> set (map (\<lambda>c. the (component_name T c)) types) \<longleftrightarrow>
      (\<exists>c \<in> set types. component_name T c = Some ''Problem'')"
    unfolding set_map image_iff by (metis (no_types, lifting))
  then show ?thesis unfolding schemas_keys using component_names_distinct(1) [OF assms] by auto
qed

section \<open>The references of a document\<close>

lemma path_heads_subset: "set (path_heads earlier fs) \<subseteq> set fs"
  by (induction fs arbitrary: earlier) (simp_all, blast)

text \<open>With as many levels as there are classes the collection ends, and what it collects is closed.\<close>

lemma api_types_closed:
  assumes "finite (dom T)" "card (dom T) \<le> n" "\<forall>f \<in> set (endpoints ns). validate_endpoint_binding T f"
  shows "\<exists>types. api_schema_types n T ns = Some types \<and> grows T [] types \<and>
    (\<forall>f \<in> set (endpoints ns). endpoint_refs T f \<subseteq> set types)"
proof -
  have fn: "d_is_function f" if "f \<in> set (endpoints ns)" for f
    using that by (auto simp: endpoints_def is_endpoint_def split: if_splits)
  have size: "card (dom T - set l) \<le> n" for l
    using assms(1,2) by (meson Diff_subset card_mono le_trans)
  have body: "\<exists>l'. collect_body_types n T f is l = Some l'"
    if "f \<in> set (endpoints ns)" "\<forall>i \<in> set is. i < length (d_parameters f)" for f "is" l
    using that(2)
  proof (induction "is" arbitrary: l)
    case (Cons i rest)
    have "every_explicit_path_exists T f 0 (length (d_parameters f)) = Some True"
      using assms(3) that(1) by (simp add: validate_endpoint_binding_def)
    from every_explicit_path_source [OF this, of i] Cons.prems obtain source
      where s: "parameter_source T f i = Some source" by auto
    have p: "parameter_at f i = Some (d_parameters f ! i)" using fn [OF that(1)] Cons.prems by (simp add: parameter_at_def)
    obtain l1 where "(if source = Src_body then collect_type n T (pi_type (d_parameters f ! i)) l else Some l) = Some l1"
      using collect_terminates(1) [OF assms(1) size] by (metis)
    with Cons s p show ?case by simp
  qed simp
  have endpoint: "\<exists>l'. collect_endpoint_types n T f l = Some l'" if f: "f \<in> set (endpoints ns)" for f l
  proof -
    obtain l1 where "collect_body_types n T f [0..<length (d_parameters f)] l = Some l1"
      using body [OF f, of "[0..<length (d_parameters f)]" l] by auto
    with collect_terminates(1) [OF assms(1) size] show ?thesis by (simp add: collect_endpoint_types_def)
  qed
  have "\<exists>l'. collect_api_types n T fs l = Some l'" if "set fs \<subseteq> set (endpoints ns)" for fs l
    using that
  proof (induction fs arbitrary: l)
    case (Cons f fs)
    obtain l1 where "collect_endpoint_types n T f l = Some l1" using endpoint Cons.prems by fastforce
    with Cons show ?case by simp
  qed simp
  then obtain types where types: "api_schema_types n T ns = Some types" by (auto simp: api_schema_types_def)
  with collect_api_grows [OF this [unfolded api_schema_types_def]] show ?thesis by auto
qed

lemma endpoint_is_function: "f \<in> set (endpoints ns) \<Longrightarrow> d_is_function f"
  by (auto simp: endpoints_def is_endpoint_def split: if_splits)

lemma document_refs:
  assumes "grows T [] types" "\<forall>f \<in> set (endpoints ns). endpoint_refs T f \<subseteq> set types"
    "\<forall>f \<in> set (endpoints ns). validate_endpoint_binding T f \<and> scalar_parameters T f"
  shows "refs (document_tree T em ns types title version) \<subseteq>
    schema_ref T ` set types \<union> {problem_ref, ''#/components/schemas/Problem''}"
proof -
  have op: "refs (operation_tree T em f) \<subseteq> schema_ref T ` set types \<union> {problem_ref}"
    if "f \<in> set (endpoints ns)" for f
    using operation_refs [of T f em] assms(2,3) endpoint_is_function that by fastforce
  have comp: "member_refs (component_member T c) \<subseteq> schema_ref T ` set types" if "c \<in> set types" for c
  proof -
    have "T c \<noteq> None" "component_refs T c \<subseteq> set types" using assms(1) that by (simp_all add: grows_def)
    then show ?thesis using component_member_refs [of T c] by blast
  qed
  have "member_refs (operation_member T em f) = refs (operation_tree T em f)" for f
    by (simp add: operation_member_def operation_tree_def Let_def refs_object del: refs.simps(4))
  moreover have "mrefs [problem_schema] = {}" by (simp add: problem_schema_def refs_object del: refs.simps(4))
  moreover have "mrefs [problem_response] = {''#/components/schemas/Problem''}" by (simp add: problem_response_def)
  ultimately have "refs (document_tree T em ns types title version) \<subseteq>
      (\<Union>f \<in> set (endpoints ns). refs (operation_tree T em f)) \<union> (\<Union>c \<in> set types. member_refs (component_member T c)) \<union>
      {''#/components/schemas/Problem''}"
    using path_heads_subset [of "[]" "endpoints ns"]
    by (fastforce simp: document_tree_def Let_def refs_object mrefs_map path_member_def schemas_members_def simp del: refs.simps(4))
  with op comp show ?thesis by blast
qed

section \<open>Properties\<close>

text \<open>What a reference of a document has to be found to be.\<close>

definition meant_component :: "type_table \<Rightarrow> string list \<Rightarrow> string \<Rightarrow> json \<Rightarrow> bool" where
  "meant_component T types r found \<longleftrightarrow>
     (\<exists>c \<in> set types. r = schema_ref T c \<and> found = component_tree T (the (T c))) \<or>
     (r = problem_ref \<and> found = snd problem_response) \<or>
     (r = ''#/components/schemas/Problem'' \<and> found = snd problem_schema)"

lemma references_resolve:
  assumes "validate_document T ns types" "reference_names T"
    "refs (document_tree T em ns types title version) \<subseteq>
      schema_ref T ` set types \<union> {problem_ref, ''#/components/schemas/Problem''}"
    "r \<in> refs (document_tree T em ns types title version)"
  shows "\<exists>found. resolve (document_tree T em ns types title version) r = Some found \<and> meant_component T types r found"
proof -
  let ?tree = "document_tree T em ns types title version"
  have names: "set (the (component_name T c)) \<inter> {CHR ''/'', CHR ''~'', CHR ''%''} = {}" "component_name T c \<noteq> Some ''Problem''"
    if "c \<in> set types" for c
    using component_names_distinct(2) [OF assms(1)] assms(2) that unfolding reference_names_def by blast+
  then have unique: "distinct (map fst (schemas_members T types))" using schemas_keys_distinct [OF assms(1)] by blast
  consider (schema) c where "c \<in> set types" "r = schema_ref T c" | (response) "r = problem_ref"
    | (problem) "r = ''#/components/schemas/Problem''"
    using assms(3,4) by blast
  then show ?thesis
  proof cases
    case schema
    have "(the (component_name T c), component_tree T (the (T c))) \<in> set (schemas_members T types)"
      using schema(1) by (auto simp: schemas_members_def component_member_def)
    from lookup_schemas [OF unique this] schema names(1) [OF schema(1)]
    have "resolve ?tree r = Some (component_tree T (the (T c)))" by (simp only: schema_ref_def schema_pointer)
    with schema show ?thesis by (auto simp: meant_component_def)
  next
    case response
    have "resolve ?tree r = Some (snd problem_response)"
      unfolding response problem_ref_def response_pointer by (rule lookup_problem_response)
    with response show ?thesis by (auto simp: meant_component_def)
  next
    case problem
    have "(''Problem'', snd problem_schema) \<in> set (schemas_members T types)"
      by (simp add: schemas_members_def problem_schema_def)
    from lookup_schemas [OF unique this] schema_pointer [of "''Problem''" ?tree]
    have "resolve ?tree r = Some (snd problem_schema)" unfolding problem by simp
    with problem show ?thesis by (auto simp: meant_component_def)
  qed
qed

text \<open>C13. No reference of a generated document dangles. With as many levels as there are classes the
  collection of component classes ends and lists no class twice; and whenever a document is written, its
  text is the rendering of a tree in which every \<open>$ref\<close>, from a body, a response or a field of a component, to
  any depth and through recursive classes, resolves as a JSON pointer, the fragment percent-decoded and
  every member the only one of its name, to the very component it is meant for, whose own text is part
  of the document. (Names: plain, without slash, tilde or percent sign, and none is \<open>Problem\<close>; default
  names are such unless the class is called \<open>Problem\<close>. Parameters of the path, query, headers and
  cookies have a codec, as \<open>FLASH-E300\<close> asks, and neither a parameter nor a field is \<open>void\<close>.)\<close>

theorem openapi_references_resolve:
  assumes "finite (dom T)" "card (dom T) \<le> n" "reference_names T" "no_void_fields T"
    "\<forall>f \<in> set ns. no_void_parameters f"
    "\<forall>f \<in> set (endpoints ns). validate_endpoint_binding T f \<and> scalar_parameters T f"
  shows "\<exists>types. api_schema_types n T ns = Some types \<and> distinct types \<and>
    (\<forall>t. generate_document n T em ns title version = Inr t \<longrightarrow>
      t = render (document_tree T em ns types title version) \<and>
      (\<forall>r \<in> refs (document_tree T em ns types title version).
        \<exists>found. resolve (document_tree T em ns types title version) r = Some found \<and>
          meant_component T types r found \<and> sublist (render found) t))"
proof -
  obtain types where types: "api_schema_types n T ns = Some types" "grows T [] types"
    "\<forall>f \<in> set (endpoints ns). endpoint_refs T f \<subseteq> set types"
    using api_types_closed [OF assms(1,2)] assms(6) by blast
  have plain: "plain_names T" using assms(3) by (auto simp: plain_names_def reference_names_def)
  let ?tree = "document_tree T em ns types title version"
  have "t = render ?tree \<and> (\<forall>r \<in> refs ?tree. \<exists>found. resolve ?tree r = Some found \<and>
      meant_component T types r found \<and> sublist (render found) t)"
    if t: "generate_document n T em ns title version = Inr t" for t
  proof -
    have written: "t = render ?tree" using document_text [OF t plain assms(4,5)] types(1) by simp
    have "validate_document T ns types"
      using t types(1) by (auto simp: generate_document_def not_compiled_def split: if_splits)
    from references_resolve [OF this assms(3) document_refs [OF types(2,3) assms(6)]]
    show ?thesis using written resolve_rendered by blast
  qed
  moreover have "distinct types" using types(2) by (simp add: grows_def)
  ultimately show ?thesis using types(1) by blast
qed

lemma sample_scalar_parameters: "scalar_parameters sample_table doc_handler"
  unfolding scalar_parameters_def
proof (intro allI impI)
  fix i p source
  assume a: "parameter_at doc_handler i = Some p \<and> parameter_source sample_table doc_handler i = Some source \<and> documented_source source"
  then have "i < 2" by (simp add: parameter_at_nth doc_handler_parts)
  then consider "i = 0" | "i = Suc 0" by linarith
  then show "\<exists>u. scalar_bindable u \<and> (pi_type p = u \<or> pi_type p = C_optional u)"
  proof cases
    case 1
    then have "pi_type p = C_int True 32" using a by (auto simp: parameter_at_nth doc_handler_parts)
    then show ?thesis by (intro exI [of _ "C_int True 32"]) simp
  next
    case 2
    then show ?thesis using a by (auto simp: doc_handler_facts documented_source_def)
  qed
qed

lemma sample_reference_names: "reference_names sample_table"
  unfolding reference_names_def
proof (intro allI impI)
  fix name cn
  assume c: "component_name sample_table name = Some cn"
  then have "name = ''Item''" by (cases "name = ''Item''") (simp_all add: component_name_def sample_table_def)
  with c doc_handler_facts(9) have "cn = ''Item''" by simp
  moreover have "plain_text cn" using c sample_plain_names unfolding plain_names_def by blast
  ultimately show "plain_text cn \<and> set cn \<inter> {CHR ''/'', CHR ''~'', CHR ''%''} = {} \<and> cn \<noteq> ''Problem''" by simp
qed

lemma component_refs_written:
  "c \<in> set types \<Longrightarrow> member_refs (component_member T c) \<subseteq> refs (document_tree T em ns types title version)"
  by (auto simp: document_tree_def Let_def refs_object schemas_members_def mrefs_map simp del: refs.simps(4))

lemma sample_item_refs: "''#/components/schemas/Item'' \<in> member_refs (component_member sample_table ''Item'')"
  by (simp add: component_member_def component_tree_def item_ok sample_fields_def property_member_def doc_handler_facts(9)
      schema_members.simps [of _ "C_vector a" for a] schema_members.simps [of _ "C_optional a" for a]
      schema_members.simps [of _ "C_object a" for a] reflectable_object_def class_name_def)

theorem openapi_references_resolve_witness:
  "\<exists>t found. generate_document 1 sample_table sample_error_map [doc_handler] ''T'' ''1'' = Inr t \<and>
     resolve (document_tree sample_table sample_error_map [doc_handler] [''Item''] ''T'' ''1'') ''#/components/schemas/Item'' = Some found \<and>
     sublist (render found) t"
proof -
  have d: "finite (dom sample_table)" "card (dom sample_table) \<le> 1"
  proof -
    have "dom sample_table = {''Item''}" by (auto simp: sample_table_def split: if_splits)
    then show "finite (dom sample_table)" "card (dom sample_table) \<le> 1" by simp_all
  qed
  have v: "\<forall>f \<in> set [doc_handler]. no_void_parameters f"
    "\<forall>f \<in> set (endpoints [doc_handler]). validate_endpoint_binding sample_table f \<and> scalar_parameters sample_table f"
    using sample_no_void(2) sample_scalar_parameters by (simp_all add: doc_handler_facts)
  obtain t where t: "generate_document 1 sample_table sample_error_map [doc_handler] ''T'' ''1'' = Inr t"
    using doc_generated by blast
  have r: "''#/components/schemas/Item'' \<in> refs (document_tree sample_table sample_error_map [doc_handler] [''Item''] ''T'' ''1'')"
    using component_refs_written [of "''Item''" "[''Item'']" sample_table] sample_item_refs by fastforce
  from openapi_references_resolve [OF d sample_reference_names sample_no_void(1) v, of sample_error_map "''T''" "''1''"] doc_handler_facts(6) t r
  show ?thesis by auto
qed

text \<open>C38. The component keys of a document that passes the compile-time checks are unique exactly when no
  class is named \<open>Problem\<close>: the checks compare the names of the collected classes with each other, but not
  with the \<open>Problem\<close> schema every document gets.\<close>

theorem component_keys_unique:
  assumes "validate_document T ns types"
  shows "distinct (map fst (schemas_members T types)) \<longleftrightarrow> (\<forall>c \<in> set types. component_name T c \<noteq> Some ''Problem'')"
  using assms by (rule schemas_keys_distinct)

definition problem_class_table :: type_table where
  "problem_class_table name = (if name = ''Problem'' then Some \<lparr>ob_fields = [], ob_aggregate = True,
     ob_default_initializable = True, ob_schema_names = [], ob_display = ''Problem''\<rparr> else None)"

definition problem_handler :: decl_info where
  "problem_handler = \<lparr>d_is_function = True, d_identifier = ''report'',
     d_routes = [\<lparr>ra_method = Get, ra_path = the (fixed_string_lit ''/report'')\<rparr>], d_parameters = [],
     d_return = C_object ''Problem'', d_descriptions = [], d_deprecated = 0\<rparr>"

theorem component_keys_unique_witness:
  "api_schema_types 1 problem_class_table [problem_handler] = Some [''Problem''] \<and>
   validate_document problem_class_table [problem_handler] [''Problem''] \<and>
   \<not> distinct (map fst (schemas_members problem_class_table [''Problem'']))"
proof -
  have v: "validate_document problem_class_table [problem_handler] [''Problem'']"
    and "api_schema_types 1 problem_class_table [problem_handler] = Some [''Problem'']"
    and "component_name problem_class_table ''Problem'' = Some ''Problem''"
    by code_simp+
  with component_keys_unique [OF v] show ?thesis by simp
qed

text \<open>
  Routes that differ only in the kind of a placeholder compile but get one key: \<open>append_openapi_path\<close> drops
  the star that \<open>first_path_occurrence\<close> still compares.
\<close>

definition colliding_handler :: "string \<Rightarrow> string \<Rightarrow> decl_info" where
  "colliding_handler name path = \<lparr>d_is_function = True, d_identifier = name,
     d_routes = [\<lparr>ra_method = Get, ra_path = the (fixed_string_lit path)\<rparr>], d_parameters = [],
     d_return = C_void, d_descriptions = [], d_deprecated = 0\<rparr>"

lemma path_keys_collide:
  "let ns = [colliding_handler ''one'' ''/f/{x}'', colliding_handler ''rest'' ''/f/{*x}''] in
   validate_document Map.empty ns [] \<and>
   map (\<lambda>f. normalize_path (view (ra_path (the (route_of f))))) (path_heads [] (endpoints ns)) = [''/f/{x}'', ''/f/{x}'']"
  unfolding Let_def by code_simp

text \<open>
  A class with the annotation \<open>schema_name("v1/Item")\<close> compiles too, but its references dangle: the slash is
  written as it is, so that the pointer looks for a schema \<open>v1\<close>.
\<close>

definition slash_table :: type_table where
  "slash_table name = (if name = ''Item'' then Some \<lparr>ob_fields = [], ob_aggregate = True,
     ob_default_initializable = True, ob_schema_names = [the (fixed_string_lit ''v1/Item'')], ob_display = ''Item''\<rparr> else None)"

definition slash_handler :: decl_info where
  "slash_handler = \<lparr>d_is_function = True, d_identifier = ''item'',
     d_routes = [\<lparr>ra_method = Get, ra_path = the (fixed_string_lit ''/item'')\<rparr>], d_parameters = [],
     d_return = C_object ''Item'', d_descriptions = [], d_deprecated = 0\<rparr>"

lemma slash_handler_facts:
  "api_schema_types 1 slash_table [slash_handler] = Some [''Item'']"
  "validate_document slash_table [slash_handler] [''Item'']"
  "component_name slash_table ''Item'' = Some ''v1/Item''"
  "endpoints [slash_handler] = [slash_handler]"
  "same_path slash_handler slash_handler"
  by code_simp+

lemma slash_name_dangles:
  "schema_ref slash_table ''Item'' = ''#/components/schemas/v1/Item''"
  "''#/components/schemas/v1/Item'' \<in> refs (document_tree slash_table em [slash_handler] [''Item''] title version)"
  "resolve (document_tree slash_table em [slash_handler] [''Item''] title version) ''#/components/schemas/v1/Item'' = None"
proof -
  show "schema_ref slash_table ''Item'' = ''#/components/schemas/v1/Item''"
    by (simp add: schema_ref_def slash_handler_facts(3))
  have "reflectable_object slash_table (C_object ''Item'') = Some (''Item'', the (slash_table ''Item''))"
    by (simp add: reflectable_object_def class_name_def slash_table_def)
  then have "''#/components/schemas/v1/Item'' \<in> member_refs (success_member slash_table (C_object ''Item''))"
    by (simp add: success_content_def json_content_def schema_members.simps [of _ "C_object a" for a] slash_handler_facts(3))
  then have "''#/components/schemas/v1/Item'' \<in> refs (operation_tree slash_table em slash_handler)"
    by (simp add: operation_tree_def Let_def refs_object response_members_def slash_handler_def del: refs.simps(4) success_member.simps)
  then have "''#/components/schemas/v1/Item'' \<in> member_refs (operation_member slash_table em slash_handler)"
    by (simp add: operation_member_def operation_tree_def Let_def refs_object del: refs.simps(4))
  then show "''#/components/schemas/v1/Item'' \<in> refs (document_tree slash_table em [slash_handler] [''Item''] title version)"
    by (simp add: document_tree_def Let_def refs_object path_member_def slash_handler_facts(4,5) del: refs.simps(4))
  have "percent_spec False ''/components/schemas/v1/Item'' = Some ''/components/schemas/v1/Item''"
    "pointer_tokens ''/components/schemas/v1/Item'' = Some [''components'', ''schemas'', ''v1'', ''Item'']" by code_simp+
  then show "resolve (document_tree slash_table em [slash_handler] [''Item''] title version) ''#/components/schemas/v1/Item'' = None"
    by (simp add: resolve_def document_tree_def Let_def schemas_members_def component_member_def slash_handler_facts(3) problem_schema_def)
qed

end
