(* ===== verification/Flash_Docs.thy ===== *)
theory Flash_Docs
  imports Flash_Openapi_Document Flash_Problem
begin

text \<open>
  \<open>include/flash/openapi/docs.hpp\<close>: the documentation routes of development mode. The text of the document
  is the value of \<open>document\<close>; \<open>documentation_html\<close> is the constant page.
\<close>

datatype documentation_mode = Disabled | Development

definition documentation_html :: string where
  "documentation_html =
     ''<!doctype html><html><head><meta charset=\"utf-8\">'' @
     ''<meta name=\"viewport\" content=\"width=device-width,initial-scale=1\">'' @
     ''<title>API documentation</title></head><body>'' @
     ''<h1>API documentation</h1><p><a href=\"/openapi.json\">OpenAPI document</a></p>'' @
     ''<pre id=\"document\">Loading.</pre><script>'' @
     ''fetch('/openapi.json').then(function(response){return response.json();})'' @
     ''.then(function(value){document.getElementById('document').textContent='' @
     ''JSON.stringify(value,null,2);})'' @
     ''.catch(function(error){document.getElementById('document').textContent='' @
     ''String(error);});</script></body></html>''"

fun documentation_paths_available :: "decl_info list \<Rightarrow> bool" where
  "documentation_paths_available [] = True"
| "documentation_paths_available (f # fs) =
     (case route_pattern_of f of
        None \<Rightarrow> False
      | Some route \<Rightarrow>
          (let path = view (rp_source route) in
           if path = ''/openapi.json'' \<or> path = ''/docs'' then False
           else documentation_paths_available fs))"

text \<open>The header values are constants, which \<open>set_header\<close> accepts; see \<open>documentation_response_total\<close>.\<close>

definition documentation_headers :: "response_message \<Rightarrow> response_message throwing" where
  "documentation_headers r =
     bind_sum (set_header ''Allow'' ''GET, HEAD, OPTIONS'' r) (set_header ''Cache-Control'' ''no-store'')"

definition documentation_not_allowed :: "request_view \<Rightarrow> response_message throwing" where
  "documentation_not_allowed request =
     set_header ''Allow'' ''GET, HEAD, OPTIONS'' (make_problem_response
       \<lparr>pd_type = ''https://flash.dev/problems/routing'', pd_title = ''Method Not Allowed'',
        pd_status = Method_not_allowed405,
        pd_detail = ''The documentation route only accepts GET, HEAD, and OPTIONS.'',
        pd_instance = rv_target request, pd_errors = [], pd_request_id = []\<rparr>)"

definition documentation_page :: "bool \<Rightarrow> string throwing \<Rightarrow> response_message \<Rightarrow> response_message throwing" where
  "documentation_page openapi_path doc response =
     (if openapi_path
      then bind_sum doc (\<lambda>body. Inr (response\<lparr>rm_content_type := ''application/json'', rm_body := body\<rparr>))
      else set_header ''Content-Security-Policy''
             (''default-src 'self'; script-src 'unsafe-inline'; object-src 'none'' @ [CHR 0x27])
             (response\<lparr>rm_content_type := ''text/html; charset=utf-8'', rm_body := documentation_html\<rparr>))"

definition documentation_response ::
    "documentation_mode \<Rightarrow> decl_info list \<Rightarrow> string throwing \<Rightarrow> request_view \<Rightarrow>
     response_message option throwing" where
  "documentation_response mode ns doc request =
     (if mode = Disabled then Inr None
      else if \<not> documentation_paths_available (endpoints ns) then not_compiled
      else
        (let openapi_path = (rv_path request = ''/openapi.json'');
             docs_path = (rv_path request = ''/docs'')
         in if \<not> openapi_path \<and> \<not> docs_path then Inr None
            else
              bind_sum (documentation_headers default_response) (\<lambda>response.
                if rv_method request = Options
                then Inr (Some (response\<lparr>rm_status := No_content204, rm_content_type := []\<rparr>))
                else if rv_method request \<noteq> Get \<and> rv_method request \<noteq> Head
                then map_sum id Some (documentation_not_allowed request)
                else
                  map_sum id (\<lambda>r. Some (if rv_method request = Head then r\<lparr>rm_body := []\<rparr> else r))
                    (documentation_page openapi_path doc response))))"

lemma documentation_header_values:
  "valid_header_name ''Allow'' \<and> valid_header_value ''GET, HEAD, OPTIONS''"
  "valid_header_name ''Cache-Control'' \<and> valid_header_value ''no-store''"
  "valid_header_name ''Content-Security-Policy'' \<and>
   valid_header_value (''default-src 'self'; script-src 'unsafe-inline'; object-src 'none'' @ [CHR 0x27])"
  by code_simp+

text \<open>Once the document is there, the documentation routes do not throw.\<close>

lemma documentation_response_total:
  assumes "mode = Development \<Longrightarrow> documentation_paths_available (endpoints ns)"
  shows "\<exists>r. documentation_response mode ns (Inr body) request = Inr r"
proof -
  have set: "set_header n v r = Inr (r\<lparr>rm_headers := replace_or_append (rm_headers r) n v\<rparr>)"
    if "valid_header_name n \<and> valid_header_value v" for n v r
    using that by (simp add: set_header_Inr_iff)
  note sets = documentation_header_values [THEN set]
  show ?thesis using assms
    by (cases mode) (auto simp: documentation_response_def documentation_headers_def documentation_not_allowed_def
        documentation_page_def Let_def sets simp del: append.simps append_Cons append_Nil split: if_splits)
qed

end
