(* ===== verification/Flash_Dispatch.thy ===== *)
theory Flash_Dispatch
  imports Flash_Bind Flash_Docs Flash_Middleware
begin

text \<open>
  \<open>include/flash/dispatch.hpp\<close>: from a request to a response. The code of the handlers is the parameter
  \<open>call\<close>: it gets the declaration and its bound arguments, may change the state of the application, and
  returns a result or throws. A call that does not compile, or reaches \<open>std::unreachable\<close>, is a
  \<open>Logic_error\<close>, like a failed assertion of the JSON writer.
\<close>

section \<open>Results\<close>

datatype result_value =
    R_void
  | R_value jvalue
  | R_text string
  | R_bytes string
  | R_created jvalue string
  | R_response status "header_value list" jvalue
  | R_message response_message
  | R_ok result_value
  | R_error int

type_synonym 'a handlers = "decl_info \<Rightarrow> bound_value list \<Rightarrow> 'a \<Rightarrow> result_value throwing \<times> 'a"

definition adapt_void_response :: response_message where
  "adapt_void_response = default_response\<lparr>rm_status := No_content204, rm_content_type := []\<rparr>"

definition unreachable :: "'a throwing" where
  "unreachable = Inl (Logic_error ''unreachable'')"

definition domain_error_problem ::
    "error_map \<Rightarrow> enum_info \<Rightarrow> int \<Rightarrow> string \<Rightarrow> response_message throwing" where
  "domain_error_problem em e error rid =
     (case mapped_error em e error of
        None \<Rightarrow> unreachable
      | Some mapping \<Rightarrow>
          (let code = view (em_code mapping) in
           Inr (make_problem_response
             \<lparr>pd_type = ''https://flash.dev/problems/'' @ code, pd_title = view (em_title mapping),
              pd_status = em_status mapping, pd_detail = ''The endpoint rejected the request.'',
              pd_instance = [],
              pd_errors = [\<lparr>ve_location = [''handler'', ''result''], ve_code = code,
                ve_message = ''The endpoint returned a mapped domain error.''\<rparr>],
              pd_request_id = rid\<rparr>)))"

definition json_response :: "type_table \<Rightarrow> ctype \<Rightarrow> jvalue \<Rightarrow> response_message \<Rightarrow> response_message throwing" where
  "json_response T t v r = bind_sum (write_json T t v) (\<lambda>body. Inr (r\<lparr>rm_body := body\<rparr>))"

function adapt_response ::
    "type_table \<Rightarrow> error_map \<Rightarrow> ctype \<Rightarrow> result_value \<Rightarrow> string \<Rightarrow> response_message throwing" where
  "adapt_response T em t v rid = (case t of
       C_expected u e \<Rightarrow>
         (if \<not> validate_error_mapping em e then not_compiled
          else (case v of
              R_error error \<Rightarrow> domain_error_problem em e error rid
            | R_ok x \<Rightarrow> if u = C_void then Inr adapt_void_response else adapt_response T em u x rid
            | _ \<Rightarrow> not_compiled))
     | C_response_message \<Rightarrow> (case v of R_message m \<Rightarrow> Inr m | _ \<Rightarrow> not_compiled)
     | C_text \<Rightarrow> (case v of
           R_text s \<Rightarrow> Inr (default_response\<lparr>rm_content_type := ''text/plain; charset=utf-8'', rm_body := s\<rparr>)
         | _ \<Rightarrow> not_compiled)
     | C_bytes \<Rightarrow> (case v of
           R_bytes s \<Rightarrow> Inr (default_response\<lparr>rm_content_type := ''application/octet-stream'', rm_body := s\<rparr>)
         | _ \<Rightarrow> not_compiled)
     | C_created u \<Rightarrow> (case v of
           R_created x location \<Rightarrow>
             bind_sum (json_response T u x (default_response\<lparr>rm_status := Created201\<rparr>)) (set_header ''Location'' location)
         | _ \<Rightarrow> not_compiled)
     | C_response u \<Rightarrow> (case v of
           R_response code headers x \<Rightarrow>
             json_response T u x (default_response\<lparr>rm_status := code, rm_headers := headers\<rparr>)
         | _ \<Rightarrow> not_compiled)
     | _ \<Rightarrow> (case v of R_value x \<Rightarrow> json_response T t x default_response | _ \<Rightarrow> not_compiled))"
  by pat_completeness auto
termination
  by (relation "measure (\<lambda>(T, em, t, v, rid). size t)") auto

declare adapt_response.simps [simp del]

section \<open>Problems\<close>

definition source_name :: "source_kind \<Rightarrow> string" where
  "source_name s = (case s of Src_path \<Rightarrow> ''path'' | Src_query \<Rightarrow> ''query'' | Src_header \<Rightarrow> ''header''
     | Src_cookie \<Rightarrow> ''cookie'' | Src_body \<Rightarrow> ''body'' | Src_context \<Rightarrow> ''context''
     | Src_state \<Rightarrow> ''state'' | Src_inferred \<Rightarrow> ''unknown'')"

definition binding_problem :: "binding_error \<Rightarrow> request_view \<Rightarrow> string \<Rightarrow> response_message" where
  "binding_problem error request rid =
     (let media_type_error = (be_status error = Unsupported_media_type415) in
      make_problem_response
        \<lparr>pd_type = (if media_type_error then ''https://flash.dev/problems/unsupported-media-type''
                    else ''https://flash.dev/problems/invalid-parameter''),
         pd_title = (if media_type_error then ''Unsupported media type'' else ''Invalid request parameter''),
         pd_status = be_status error,
         pd_detail = (if media_type_error then ''The request body media type is not supported.''
                      else ''Request parameter could not be bound to the endpoint signature.''),
         pd_instance = rv_target request,
         pd_errors = [\<lparr>ve_location = [source_name (be_source error), be_name error],
           ve_code = be_code error, ve_message = be_message error\<rparr>],
         pd_request_id = rid\<rparr>)"

definition dispatch_problem :: "status \<Rightarrow> string \<Rightarrow> string \<Rightarrow> string \<Rightarrow> string \<Rightarrow> response_message" where
  "dispatch_problem code title message target rid = make_problem_response
     \<lparr>pd_type = ''https://flash.dev/problems/routing'', pd_title = title, pd_status = code,
      pd_detail = message, pd_instance = target, pd_errors = [], pd_request_id = rid\<rparr>"

section \<open>Calling an endpoint\<close>

definition bind_arguments ::
    "type_table \<Rightarrow> decl_info \<Rightarrow> request_view \<Rightarrow> route_match \<Rightarrow> state_registry \<Rightarrow> string \<Rightarrow>
     (binding_error + bound_value) list option" where
  "bind_arguments T f request route states rid =
     those (map (\<lambda>i. bind_parameter T f i request route states rid) [0..<length (d_parameters f)])"

fun first_binding_error :: "(binding_error + bound_value) list \<Rightarrow> binding_error option" where
  "first_binding_error [] = None"
| "first_binding_error (v # vs) = (case v of Inl e \<Rightarrow> Some e | Inr _ \<Rightarrow> first_binding_error vs)"

text \<open>The three forms of the result: a task, \<open>void\<close>, a value.\<close>

definition adapt_result ::
    "type_table \<Rightarrow> error_map \<Rightarrow> ctype \<Rightarrow> result_value \<Rightarrow> string \<Rightarrow> response_message throwing" where
  "adapt_result T em t v rid =
     (let value_type = (case t of C_task u \<Rightarrow> u | _ \<Rightarrow> t) in
      if value_type = C_void then Inr adapt_void_response
      else adapt_response T em value_type v rid)"

definition invoke_endpoint ::
    "type_table \<Rightarrow> error_map \<Rightarrow> 'a handlers \<Rightarrow> decl_info \<Rightarrow> request_view \<Rightarrow> route_match \<Rightarrow>
     state_registry \<Rightarrow> string \<Rightarrow> 'a \<Rightarrow> response_message throwing \<times> 'a" where
  "invoke_endpoint T em call f request route states rid s =
     (if \<not> validate_endpoint_binding T f then (not_compiled, s)
      else (case bind_arguments T f request route states rid of
          None \<Rightarrow> (not_compiled, s)
        | Some arguments \<Rightarrow>
            (case first_binding_error arguments of
               Some error \<Rightarrow> (Inr (binding_problem error request rid), s)
             | None \<Rightarrow>
                 (case call f (map projr arguments) s of
                    (Inl e, s') \<Rightarrow> (Inl e, s')
                  | (Inr v, s') \<Rightarrow> (adapt_result T em (d_return f) v rid, s')))))"

definition invalid_endpoint :: "request_view \<Rightarrow> string \<Rightarrow> response_message" where
  "invalid_endpoint request rid =
     dispatch_problem Internal_server_error500 ''Internal server error''
       ''The generated endpoint index is invalid.'' (rv_target request) rid"

fun dispatch_endpoint ::
    "type_table \<Rightarrow> error_map \<Rightarrow> 'a handlers \<Rightarrow> decl_info list \<Rightarrow> nat \<Rightarrow> nat \<Rightarrow> request_view \<Rightarrow>
     route_match \<Rightarrow> state_registry \<Rightarrow> string \<Rightarrow> 'a \<Rightarrow> response_message throwing \<times> 'a" where
  "dispatch_endpoint T em call [] index endpoint_index request route states rid s =
     (Inr (invalid_endpoint request rid), s)"
| "dispatch_endpoint T em call (f # fs) index endpoint_index request route states rid s =
     (if endpoint_index = index then invoke_endpoint T em call f request route states rid s
      else dispatch_endpoint T em call fs (index + 1) endpoint_index request route states rid s)"

section \<open>Dispatch\<close>

definition not_found_response :: "request_view \<Rightarrow> string \<Rightarrow> response_message" where
  "not_found_response request rid =
     dispatch_problem Not_found404 ''Not Found'' ''No route matches the request path.'' (rv_target request) rid"

definition method_not_allowed_response :: "api_match \<Rightarrow> request_view \<Rightarrow> string \<Rightarrow> response_message throwing" where
  "method_not_allowed_response m request rid =
     set_header ''Allow'' (allow_header (am_allow_mask m))
       (dispatch_problem Method_not_allowed405 ''Method Not Allowed''
          ''The path exists, but not for this HTTP method.'' (rv_target request) rid)"

definition options_response :: "api_match \<Rightarrow> response_message throwing" where
  "options_response m =
     set_header ''Allow'' (allow_header (am_allow_mask m))
       (default_response\<lparr>rm_status := No_content204, rm_content_type := []\<rparr>)"

definition clear_body :: "request_view \<Rightarrow> response_message \<Rightarrow> response_message" where
  "clear_body request r = (if rv_method request = Head then r\<lparr>rm_body := []\<rparr> else r)"

definition dispatch_with_state ::
    "type_table \<Rightarrow> error_map \<Rightarrow> 'a handlers \<Rightarrow> decl_info list \<Rightarrow> request_view \<Rightarrow> state_registry \<Rightarrow>
     string \<Rightarrow> 'a \<Rightarrow> response_message throwing \<times> 'a" where
  "dispatch_with_state T em call ns request states rid s =
     (if \<not> registry_ok states then (not_compiled, s)
      else (case match_api ns (rv_method request) (rv_path request) of
          None \<Rightarrow> (not_compiled, s)
        | Some m \<Rightarrow>
            (case am_outcome m of
               Not_found \<Rightarrow> (Inr (not_found_response request rid), s)
             | Method_not_allowed \<Rightarrow> (method_not_allowed_response m request rid, s)
             | Automatic_options \<Rightarrow> (options_response m, s)
             | Found \<Rightarrow>
                 (case dispatch_endpoint T em call (endpoints ns) 0 (am_endpoint_index m) request (am_route m)
                    states rid s of
                    (result, s') \<Rightarrow> (map_sum id (clear_body request) result, s')))))"

definition dispatch ::
    "type_table \<Rightarrow> error_map \<Rightarrow> 'a handlers \<Rightarrow> decl_info list \<Rightarrow> request_view \<Rightarrow> state_registry \<Rightarrow> 'a \<Rightarrow>
     response_message throwing \<times> 'a" where
  "dispatch T em call ns request states s = dispatch_with_state T em call ns request states [] s"

section \<open>Handlers of the server\<close>

definition reflected_handler ::
    "documentation_mode \<Rightarrow> string throwing \<Rightarrow> type_table \<Rightarrow> error_map \<Rightarrow> 'a handlers \<Rightarrow> decl_info list \<Rightarrow>
     state_registry \<Rightarrow> request_view \<Rightarrow> 'a \<Rightarrow> response_message throwing \<times> 'a" where
  "reflected_handler mode doc T em call ns states request s =
     (case documentation_response mode ns doc request of
        Inl e \<Rightarrow> (Inl e, s)
      | Inr (Some response) \<Rightarrow> (Inr response, s)
      | Inr None \<Rightarrow> dispatch_with_state T em call ns request states [] s)"

text \<open>The final action of an application reads the request and its id from the context.\<close>

definition application_final ::
    "documentation_mode \<Rightarrow> string throwing \<Rightarrow> type_table \<Rightarrow> error_map \<Rightarrow> 'a handlers \<Rightarrow> decl_info list \<Rightarrow>
     state_registry \<Rightarrow> 'a action" where
  "application_final mode doc T em call ns states context w =
     (case documentation_response mode ns doc (ctx_request context) of
        Inl e \<Rightarrow> (Inl e, context, w)
      | Inr (Some response) \<Rightarrow> (Inr response, context, w)
      | Inr None \<Rightarrow>
          (case dispatch_with_state T em call ns (ctx_request context) states (ctx_request_id context) (w_app w) of
             (result, s') \<Rightarrow> (result, context, w\<lparr>w_app := s'\<rparr>)))"

definition application_handler ::
    "documentation_mode \<Rightarrow> string throwing \<Rightarrow> type_table \<Rightarrow> error_map \<Rightarrow> 'a handlers \<Rightarrow> decl_info list \<Rightarrow>
     state_registry \<Rightarrow> 'a middleware list \<Rightarrow> request_view \<Rightarrow> 'a world \<Rightarrow> response_message throwing \<times> 'a world" where
  "application_handler mode doc T em call ns states layers request w =
     (let context = \<lparr>ctx_request = request, ctx_request_id = [], ctx_stop_token = rv_stop_token request\<rparr>
      in case invoke layers (application_final mode doc T em call ns states) context w of
           (result, context', w') \<Rightarrow> (result, w'))"

end
