(* ===== verification/Flash_Dispatch_Props.thy ===== *)
theory Flash_Dispatch_Props
  imports Flash_Dispatch Flash_Bind_Props Flash_Routing Flash_Openapi_Operations
begin

text \<open>
  What dispatch promises: which response each request gets, and that the statuses an endpoint answers with
  are those of its documentation.
\<close>

section \<open>The Allow header is always accepted\<close>

lemma comma_join_chars: "c \<in> set (comma_join ss) \<Longrightarrow> c \<in> set '', '' \<or> (\<exists>s \<in> set ss. c \<in> set s)"
  by (induction ss rule: comma_join.induct) auto

lemma length_comma_join: "length (comma_join ss) \<le> (\<Sum>s\<leftarrow>ss. length s + 2)"
  by (induction ss rule: comma_join.induct) auto

lemma filter_sum_le: "(\<Sum>x\<leftarrow>filter P xs. g x) \<le> (\<Sum>x\<leftarrow>xs. (g x :: nat))"
  by (induction xs) auto

lemma valid_allow_name: "valid_header_name ''Allow''"
  by code_simp

lemma valid_allow_header: "valid_header_value (allow_header bits)"
proof -
  have names: "list_all (\<lambda>s. header_value_chars_ok s) (map snd allow_names)" by code_simp
  have "header_value_chars_ok (allow_header bits)"
    unfolding header_value_chars_ok_iff allow_header_eq
  proof
    fix c
    assume "c \<in> set (comma_join (map snd (filter (\<lambda>e. bit bits (method_index (fst e))) allow_names)))"
    from comma_join_chars [OF this] consider "c \<in> set '', ''" | e where "e \<in> set allow_names" "c \<in> set (snd e)"
      by auto
    then show "32 \<le> (of_char c :: nat) \<or> (of_char c :: nat) = 9"
    proof cases
      case 2
      then show ?thesis using names by (auto simp: list_all_iff header_value_chars_ok_iff)
    qed auto
  qed
  moreover have "length (allow_header bits) \<le> 8 * 1024"
    using length_comma_join [of "map snd (filter (\<lambda>e. bit bits (method_index (fst e))) allow_names)"]
      filter_sum_le [of "\<lambda>e. length (snd e) + 2" "\<lambda>e. bit bits (method_index (fst e))" allow_names]
    by (simp add: allow_header_eq comp_def) (simp add: allow_names_def)
  ultimately show ?thesis by (simp add: valid_header_value_def)
qed

lemma set_allow:
  "\<exists>r'. set_header ''Allow'' (allow_header bits) r = Inr r' \<and> rm_status r' = rm_status r \<and>
     rm_body r' = rm_body r \<and> header_map r' ''Allow'' = Some (allow_header bits)"
proof -
  have "set_header ''Allow'' (allow_header bits) r =
      Inr (r\<lparr>rm_headers := replace_or_append (rm_headers r) ''Allow'' (allow_header bits)\<rparr>)"
    by (simp add: set_header_Inr_iff valid_allow_name valid_allow_header)
  then show ?thesis by (simp add: header_map_def replace_or_append_map)
qed

lemma dispatch_endpoint_at:
  "dispatch_endpoint T em call fs k j request route states rid s =
     (if k \<le> j \<and> j < k + length fs then invoke_endpoint T em call (fs ! (j - k)) request route states rid s
      else (Inr (invalid_endpoint request rid), s))"
proof (induction fs arbitrary: k)
  case (Cons f fs)
  show ?case using Cons [of "k + 1"] by (cases "j = k") (auto simp: nth_Cons' Suc_diff_Suc)
qed auto

text \<open>The methods a path supports, in the order of the header.\<close>

definition allowed_text :: "string \<Rightarrow> compiled_api \<Rightarrow> string" where
  "allowed_text path api = comma_join (map snd (filter (\<lambda>e. allowed path api (fst e)) allow_names))"

lemma allow_header_text: "allow_header (am_allow_mask (match_routes api q path)) = allowed_text path api"
  by (simp only: allow_header_eq allow_mask_iff allowed_text_def)

text \<open>The endpoint that serves a request, with the captures of its own route.\<close>

definition served_by ::
    "type_table \<Rightarrow> error_map \<Rightarrow> 'a handlers \<Rightarrow> request_view \<Rightarrow> state_registry \<Rightarrow> string \<Rightarrow> 'a \<Rightarrow> decl_info \<Rightarrow>
     response_message throwing \<times> 'a" where
  "served_by T em call request states rid s d =
     map_prod (map_sum id (clear_body request)) id
       (invoke_endpoint T em call d request (match_route (snd (entry_of d)) (rv_path request)) states rid s)"

text \<open>An endpoint that no other one beats.\<close>

definition best_endpoint :: "decl_info list \<Rightarrow> request_view \<Rightarrow> decl_info \<Rightarrow> bool" where
  "best_endpoint ds request d \<longleftrightarrow> d \<in> set ds \<and> eligible (rv_method request) (rv_path request) (entry_of d) \<and>
     (\<forall>d' \<in> set ds. eligible (rv_method request) (rv_path request) (entry_of d') \<longrightarrow>
        \<not> beats (rv_method request) (entry_of d') (entry_of d))"

lemma dispatch_found:
  assumes "compile_api ns = Some api" "registry_ok states"
    "am_outcome (match_routes api (rv_method request) (rv_path request)) = Found"
  shows "\<exists>d. best_endpoint (endpoints ns) request d \<and>
    dispatch_with_state T em call ns request states rid s = served_by T em call request states rid s d"
proof -
  let ?m = "match_routes api (rv_method request) (rv_path request)"
  let ?j = "am_endpoint_index ?m"
  have api: "api = map entry_of (endpoints ns)" using iffD1 [OF compile_api_iff assms(1)] by blast
  note sel = found_selects(1) [OF assms(3)]
  have j: "?j < length (endpoints ns)" "api ! ?j = entry_of (endpoints ns ! ?j)"
    using sel by (auto simp: api selects_def)
  have "best_endpoint (endpoints ns) request (endpoints ns ! ?j)"
    using sel j by (auto simp: best_endpoint_def selects_def api)
  moreover have "dispatch_with_state T em call ns request states rid s =
      served_by T em call request states rid s (endpoints ns ! ?j)"
    using assms j found_selects(2) [OF assms(3)]
    by (simp add: dispatch_with_state_def iffD2 [OF match_api_Some [OF assms(1)] refl] dispatch_endpoint_at served_by_def
        map_prod_def split: prod.split)
  ultimately show ?thesis by blast
qed

section \<open>The response by the outcome of routing\<close>

lemma dispatch_cases:
  fixes request :: request_view and api :: compiled_api
  assumes "compile_api ns = Some api" "registry_ok states"
  defines "q \<equiv> rv_method request" and "on_path \<equiv> filter (path_matches (rv_path request)) api"
  shows "if on_path = []
    then dispatch_with_state T em call ns request states rid s = (Inr (not_found_response request rid), s)
    else if (q = Options \<and> Options \<notin> fst ` set on_path) \<or> \<not> (\<exists>e \<in> set on_path. eligible q (rv_path request) e)
    then \<exists>r. dispatch_with_state T em call ns request states rid s = (Inr r, s) \<and>
      header_map r ''Allow'' = Some (allowed_text (rv_path request) api) \<and>
      (if q = Options then rm_status r = No_content204 \<and> rm_body r = [] else rm_status r = Method_not_allowed405)
    else \<exists>d. best_endpoint (endpoints ns) request d \<and>
      dispatch_with_state T em call ns request states rid s = served_by T em call request states rid s d"
proof -
  let ?m = "match_routes api q (rv_path request)"
  note d = dispatch_with_state_def iffD2 [OF match_api_Some [OF assms(1)] refl] assms(2) q_def [symmetric]
  have paths: "set on_path = {e \<in> set api. path_matches (rv_path request) e}" by (auto simp: on_path_def)
  have on: "on_path = [] \<longleftrightarrow> \<not> (\<exists>e \<in> set api. path_matches (rv_path request) e)"
    unfolding on_path_def filter_empty_conv by blast
  have opt: "Options \<in> fst ` set on_path \<longleftrightarrow> (\<exists>e \<in> set api. path_matches (rv_path request) e \<and> fst e = Options)"
    unfolding paths by force
  have el: "(\<exists>e \<in> set on_path. eligible q (rv_path request) e) \<longleftrightarrow> (\<exists>e \<in> set api. eligible q (rv_path request) e)"
    unfolding paths eligible_def by blast
  have eo: "\<not> (\<exists>e \<in> set on_path. eligible q (rv_path request) e) \<Longrightarrow> q = Options \<Longrightarrow> Options \<notin> fst ` set on_path"
    unfolding opt el by (auto simp: eligible_def)
  note out = outcome_iff [of api q "rv_path request", folded on opt el, unfolded not_not]
  consider (none) "on_path = []"
    | (options) "on_path \<noteq> []" "q = Options" "Options \<notin> fst ` set on_path" "am_outcome ?m = Automatic_options"
    | (refused) "on_path \<noteq> []" "q \<noteq> Options" "\<not> (\<exists>e \<in> set on_path. eligible q (rv_path request) e)"
        "am_outcome ?m = Method_not_allowed"
    | (found) "on_path \<noteq> []" "\<not> (q = Options \<and> Options \<notin> fst ` set on_path)"
        "\<exists>e \<in> set on_path. eligible q (rv_path request) e" "am_outcome ?m = Found"
    using out eo by (auto split: if_splits)
  then show ?thesis
  proof cases
    case none
    then show ?thesis using out by (simp add: d)
  next
    case options
    then show ?thesis
      using set_allow [of "am_allow_mask ?m" "default_response\<lparr>rm_status := No_content204, rm_content_type := []\<rparr>"]
      by (auto simp: d options_response_def default_response_def allow_header_text)
  next
    case refused
    then show ?thesis
      using set_allow [of "am_allow_mask ?m" "dispatch_problem Method_not_allowed405 ''Method Not Allowed''
          ''The path exists, but not for this HTTP method.'' (rv_target request) rid"]
      by (auto simp: d method_not_allowed_response_def dispatch_problem_def make_problem_response_def
          allow_header_text)
  next
    case found
    then show ?thesis using dispatch_found [OF assms(1,2), of request T em call rid s] by (auto simp: q_def)
  qed
qed

section \<open>Properties\<close>

text \<open>C3. Every request to a namespace that compiles gets exactly the response routing promises, and the
  application is entered at most once: a 404 that leaves the application alone when no route matches the
  path; the automatic 204 to OPTIONS; a 405; both of the latter list in \<open>Allow\<close> the methods the path
  supports; and otherwise the answer of an endpoint no other eligible one beats, without its body for
  HEAD.\<close>

theorem dispatch_outcomes:
  fixes request :: request_view and api :: compiled_api
  assumes "compile_api ns = Some api" "registry_ok states"
  defines "q \<equiv> rv_method request" and "on_path \<equiv> filter (path_matches (rv_path request)) api"
  shows "if on_path = []
    then dispatch_with_state T em call ns request states rid s = (Inr (not_found_response request rid), s)
    else if (q = Options \<and> Options \<notin> fst ` set on_path) \<or> \<not> (\<exists>e \<in> set on_path. eligible q (rv_path request) e)
    then \<exists>r. dispatch_with_state T em call ns request states rid s = (Inr r, s) \<and>
      header_map r ''Allow'' = Some (allowed_text (rv_path request) api) \<and>
      (if q = Options then rm_status r = No_content204 \<and> rm_body r = [] else rm_status r = Method_not_allowed405)
    else \<exists>d. best_endpoint (endpoints ns) request d \<and>
      dispatch_with_state T em call ns request states rid s = served_by T em call request states rid s d"
  unfolding q_def on_path_def by (rule dispatch_cases [OF assms(1,2)])

definition sample_call :: "unit handlers" where
  "sample_call f args s = (Inr R_void, s)"

theorem dispatch_outcomes_witness:
  "\<exists>r. dispatch_with_state (\<lambda>_. None) (\<lambda>_. None) sample_call sample_namespace
      (make_request Delete ''/a/new'' [] [] True None) [] ''id'' () = (Inr r, ()) \<and>
     header_map r ''Allow'' = Some ''GET, HEAD, POST, OPTIONS'' \<and> rm_status r = Method_not_allowed405"
proof -
  let ?r = "make_request Delete ''/a/new'' [] [] True None"
  have r: "rv_method ?r = Delete" "rv_path ?r = ''/a/new''" by code_simp+
  have f: "filter (path_matches ''/a/new'') sample_api = sample_api" unfolding sample_api_eq by code_simp
  have ne: "sample_api \<noteq> []" and el: "\<not> (\<exists>e \<in> set sample_api. eligible Delete ''/a/new'' e)"
    by (simp_all add: sample_api_eq eligible_def)
  have a: "allowed_text ''/a/new'' sample_api = ''GET, HEAD, POST, OPTIONS''"
    unfolding allow_header_text [of sample_api Delete "''/a/new''", symmetric] sample_api_eq by code_simp
  have "registry_ok []" by code_simp
  from dispatch_outcomes [OF sample_compiled this, of ?r "\<lambda>_. None" "\<lambda>_. None" sample_call "''id''" "()"] show ?thesis
    unfolding r f a using ne el by simp
qed

end
