(* ===== verification/Flash_Dispatch_Status.thy ===== *)
theory Flash_Dispatch_Status
  imports Flash_Dispatch_Props
begin

text \<open>The statuses an endpoint answers with, against those its operation documents.\<close>

section \<open>Binding errors\<close>

lemma bind_parameter_error_status:
  assumes "bind_parameter T f i request m states rid = Some (Inl e)"
  shows "be_status e = Unprocessable_content422 \<or>
    (parameter_source T f i = Some Src_body \<and> be_status e \<in> {Bad_request400, Unsupported_media_type415})"
proof -
  obtain p source name where p: "parameter_at f i = Some p" "parameter_source T f i = Some source"
      "wire_name f i = Some name"
    using assms by (auto simp: bind_parameter_def bind_eq_Some_conv)
  note b = assms [unfolded bind_parameter_def p Option.bind.bind_lunit]
  have body: "be_status e \<in> {Unprocessable_content422, Bad_request400, Unsupported_media_type415}"
    if "bind_body T t name request = Some (Inl e)" for t
    using that by (auto simp: bind_body_def scalar_binding_error_def split: sum.splits option.splits outcome.splits if_splits)
  consider "source = Src_body" | "source \<in> {Src_context, Src_state}" | "source \<notin> {Src_body, Src_context, Src_state}"
    by blast
  then show ?thesis
  proof cases
    case 1
    then show ?thesis using b body p(2) by (auto simp: map_option_B_value_Inl simp del: map_option_eq_Some)
  next
    case 2
    then show ?thesis using b by (cases "pi_type p") auto
  next
    case 3
    then have "bind_scalar p source name request m = Some (Inl e)"
      using b by (cases source) (simp_all add: map_option_B_value_Inl del: map_option_eq_Some)
    from bind_scalar_error_fields [OF this] show ?thesis by simp
  qed
qed

lemma first_binding_error_Some: "first_binding_error vs = Some e \<Longrightarrow> Inl e \<in> set vs"
  by (induction vs) (auto split: sum.splits)

lemma bind_arguments_error:
  assumes "bind_arguments T f request m states rid = Some vs" "first_binding_error vs = Some e"
  shows "\<exists>i < length (d_parameters f). bind_parameter T f i request m states rid = Some (Inl e)"
proof -
  have "map (\<lambda>i. bind_parameter T f i request m states rid) [0..<length (d_parameters f)] = map Some vs"
    using assms(1) by (simp add: bind_arguments_def those_Some_iff)
  then have "Some (Inl e) \<in> set (map (\<lambda>i. bind_parameter T f i request m states rid) [0..<length (d_parameters f)])"
    using first_binding_error_Some [OF assms(2)] by simp
  then obtain i where "i \<in> set [0..<length (d_parameters f)]"
      "Some (Inl e) = bind_parameter T f i request m states rid"
    unfolding set_map by (rule imageE)
  then show ?thesis by (intro exI [of _ i]) simp
qed

section \<open>Results\<close>

text \<open>Result types whose status the type determines: at most one \<open>std::expected\<close>, and neither a
  \<open>response_message\<close> nor a \<open>response\<close>, whose status the handler chooses.\<close>

definition fixed_status :: "ctype \<Rightarrow> bool" where
  "fixed_status t = (case t of C_task u \<Rightarrow> False | C_expected u e \<Rightarrow> False | C_response u \<Rightarrow> False
     | C_response_message \<Rightarrow> False | _ \<Rightarrow> True)"

definition documented_value :: "ctype \<Rightarrow> bool" where
  "documented_value t = (case t of C_expected u e \<Rightarrow> fixed_status u | _ \<Rightarrow> fixed_status t)"

definition documented_result :: "ctype \<Rightarrow> bool" where
  "documented_result t = (case t of C_task u \<Rightarrow> documented_value u | _ \<Rightarrow> documented_value t)"

text \<open>The statuses of the operation in the document.\<close>

definition documented_statuses :: "error_map \<Rightarrow> ctype \<Rightarrow> status set" where
  "documented_statuses em t = insert (success_status t) (set (error_statuses em t))"

lemma documented_task: "documented_statuses em (C_task t) = documented_statuses em t"
  by (simp add: documented_statuses_def error_statuses.simps [of em "C_task t"])

lemma domain_statuses_set:
  "insert success (em_status ` set previous \<union> set (domain_statuses previous ms success)) =
   insert success (em_status ` set (previous @ ms))"
proof (induction previous ms success rule: domain_statuses.induct)
  case (2 previous m ms success)
  have ex: "list_ex (\<lambda>p. em_status p = em_status m) previous \<longleftrightarrow> em_status m \<in> em_status ` set previous"
    by (auto simp: list_ex_iff image_iff eq_commute)
  show ?case using 2 unfolding domain_statuses.simps ex by auto
qed simp

lemma has_mapped_status_iff: "has_mapped_status ms st \<longleftrightarrow> st \<in> em_status ` set ms"
  by (induction ms) auto

lemma documented_expected:
  "documented_statuses em (C_expected t e) =
     insert (success_status t) (insert Unprocessable_content422 (em_status ` set (the (em e))))"
  using domain_statuses_set [of "success_status t" "[]" "the (em e)"]
  by (auto simp: documented_statuses_def error_statuses.simps [of em "C_expected t e"] has_mapped_status_iff Let_def)

lemma documented_422: "Unprocessable_content422 \<in> documented_statuses em t"
proof (induction t)
  case (C_task t)
  then show ?case by (simp add: documented_task)
next
  case (C_expected t e)
  show ?case by (simp add: documented_expected)
qed (auto simp: documented_statuses_def error_statuses.simps)

lemma json_response_status: "json_response T t v r = Inr r' \<Longrightarrow> rm_status r' = rm_status r"
  by (auto simp: json_response_def bind_sum_Inr_iff)

lemma adapt_fixed_status:
  assumes "adapt_response T em t v rid = Inr r" "fixed_status t" "t \<noteq> C_void"
  shows "rm_status r = success_status t"
  using assms(1) [unfolded adapt_response.simps [of T em t v rid]] assms(2,3) by (cases t; cases v)
    (auto simp: fixed_status_def default_response_def not_compiled_def bind_sum_Inr_iff
      set_header_Inr_iff dest!: json_response_status)

lemma mapped_error_in: "mapped_error em e error = Some m \<Longrightarrow> m \<in> set (the (em e))"
  by (auto simp: mapped_error_def mapped_error_loop_find find_Some_iff split: option.splits)

lemma domain_error_status:
  "domain_error_problem em e error rid = Inr r \<Longrightarrow> rm_status r \<in> em_status ` set (the (em e))"
  using mapped_error_in [of em e error]
  by (auto simp: domain_error_problem_def unreachable_def make_problem_response_def Let_def split: option.splits)

lemma void_status: "rm_status adapt_void_response = success_status C_void"
  by (simp add: adapt_void_response_def)

lemma adapt_value_status:
  assumes "(if t = C_void then Inr adapt_void_response else adapt_response T em t v rid) = Inr r" "documented_value t"
  shows "rm_status r \<in> documented_statuses em t"
proof (cases "\<exists>u e. t = C_expected u e")
  case True
  then obtain u e where t: "t = C_expected u e" by blast
  have u: "fixed_status u" using assms(2) by (simp add: documented_value_def t)
  show ?thesis
    using assms(1) domain_error_status [of em e _ rid r] adapt_fixed_status [OF _ u, of T em _ rid r]
    by (auto simp: t documented_expected adapt_response.simps [of T em "C_expected u e"] not_compiled_def void_status
        split: if_splits result_value.splits)
next
  case False
  then have "fixed_status t" using assms(2) by (cases t) (simp_all add: documented_value_def)
  then show ?thesis using assms(1) adapt_fixed_status [of T em t v rid r]
    by (auto simp: documented_statuses_def void_status split: if_splits)
qed

lemma adapt_result_status:
  assumes "adapt_result T em t v rid = Inr r" "documented_result t"
  shows "rm_status r \<in> documented_statuses em t"
proof (cases "\<exists>u. t = C_task u")
  case True
  then obtain u where t: "t = C_task u" by blast
  show ?thesis using assms adapt_value_status [of u T em v rid r]
    by (simp add: t adapt_result_def documented_result_def documented_task)
next
  case False
  then have "documented_value t" "adapt_result T em t v rid =
      (if t = C_void then Inr adapt_void_response else adapt_response T em t v rid)"
    using assms(2) by (cases t; simp add: documented_result_def adapt_result_def)+
  then show ?thesis using adapt_value_status assms(1) by metis
qed

section \<open>Properties\<close>

text \<open>C12. An endpoint answers with the statuses its documentation lists: whatever the request, and whatever
  the handler returns, a response has the success status of the result type, the status of a mapped domain
  error, or 422, all of which the OpenAPI operation announces; the only others are the 400 and 415 of an
  endpoint that takes a body, which the operation does not announce. (Result types through which the
  handler chooses a status itself are excluded.)\<close>

theorem statuses_documented:
  assumes "fst (invoke_endpoint T em call f request route states rid s) = Inr r" "documented_result (d_return f)"
  shows "rm_status r \<in> documented_statuses em (d_return f) \<or>
    (rm_status r \<in> {Bad_request400, Unsupported_media_type415} \<and>
     (\<exists>i < length (d_parameters f). parameter_source T f i = Some Src_body))"
proof -
  obtain vs where vs: "bind_arguments T f request route states rid = Some vs"
    using assms(1) by (auto simp: invoke_endpoint_def not_compiled_def split: if_splits option.splits)
  show ?thesis
  proof (cases "first_binding_error vs")
    case None
    then have "\<exists>v. adapt_result T em (d_return f) v rid = Inr r"
      using assms(1) vs by (auto simp: invoke_endpoint_def not_compiled_def split: if_splits prod.splits sum.splits)
    then show ?thesis using adapt_result_status [OF _ assms(2)] by blast
  next
    case (Some e)
    then obtain i where i: "i < length (d_parameters f)" "bind_parameter T f i request route states rid = Some (Inl e)"
      using bind_arguments_error [OF vs] by blast
    have "r = binding_problem e request rid"
      using assms(1) vs Some by (auto simp: invoke_endpoint_def not_compiled_def split: if_splits)
    then have "rm_status r = be_status e"
      by (simp add: binding_problem_def make_problem_response_def Let_def)
    then show ?thesis using bind_parameter_error_status [OF i(2)] i(1) documented_422 by auto
  qed
qed

text \<open>A body without its media type is answered with a 415, which the document does not list.\<close>

theorem statuses_documented_witness:
  "\<exists>r. fst (invoke_endpoint sample_table (\<lambda>_. None) sample_call body_handler (make_request Post ''/'' [] ''{}'' True None) no_match
      [] [] ()) = Inr r \<and> rm_status r = Unsupported_media_type415 \<and>
    rm_status r \<notin> documented_statuses (\<lambda>_. None) (d_return body_handler) \<and>
    (\<exists>i < length (d_parameters body_handler). parameter_source sample_table body_handler i = Some Src_body)"
proof -
  let ?r = "make_request Post ''/'' [] ''{}'' True None"
  have s: "parameter_source sample_table body_handler 0 = Some Src_body" "wire_name body_handler 0 = Some ''item''"
    and h: "find_header_value ?r ''Content-Type'' = Inr None"
    and v: "validate_endpoint_binding sample_table body_handler" by code_simp+
  have b: "parameter_at body_handler 0 = Some (d_parameters body_handler ! 0)" "length (d_parameters body_handler) = 1"
    by (simp_all add: parameter_at_def body_handler_def)
  obtain e where e: "bind_parameter sample_table body_handler 0 ?r no_match [] [] = Some (Inl e)"
    "be_status e = Unsupported_media_type415"
    by (simp add: bind_parameter_def b s bind_body_def h)
  then have args: "bind_arguments sample_table body_handler ?r no_match [] [] = Some [Inl e]"
    by (simp add: bind_arguments_def b(2))
  obtain r where r: "fst (invoke_endpoint sample_table (\<lambda>_. None) sample_call body_handler ?r no_match [] [] ()) = Inr r"
    "rm_status r = Unsupported_media_type415"
    using v args e(2) by (simp add: invoke_endpoint_def binding_problem_def make_problem_response_def Let_def)
  have d: "documented_result (d_return body_handler)" "rm_status r \<notin> documented_statuses (\<lambda>_. None) (d_return body_handler)"
    using r(2) by (simp_all add: body_handler_def documented_result_def documented_value_def fixed_status_def
        documented_statuses_def error_statuses.simps)
  show ?thesis using statuses_documented [OF r(1) d(1)] r d by auto
qed

end
