(* ===== verification/Flash_Raw.thy ===== *)
theory Flash_Raw
  imports Flash_Problem
begin

text \<open>
  \<open>include/flash/raw.hpp\<close>: the writer a raw handler gets. It holds a reference to the response, so each
  operation is a function on the response.
\<close>

definition writer_status :: "status \<Rightarrow> response_message \<Rightarrow> response_message" where
  "writer_status value r = r\<lparr>rm_status := value\<rparr>"

definition writer_header :: "string \<Rightarrow> string \<Rightarrow> response_message \<Rightarrow> response_message throwing" where
  "writer_header name value r = set_header name value r"

definition writer_content_type :: "string \<Rightarrow> response_message \<Rightarrow> response_message" where
  "writer_content_type value r = r\<lparr>rm_content_type := value\<rparr>"

definition writer_close_connection :: "response_message \<Rightarrow> response_message" where
  "writer_close_connection r = r\<lparr>rm_keep_alive := False\<rparr>"

definition writer_write :: "string \<Rightarrow> response_message \<Rightarrow> response_message" where
  "writer_write chunk r = r\<lparr>rm_body := rm_body r @ chunk\<rparr>"

end
