(* ===== verification/Flash_Session.thy ===== *)
theory Flash_Session
  imports Flash_Raw
begin

text \<open>
  The sessions of \<open>include/flash/server.hpp\<close>, with the configuration of \<open>include/flash/config.hpp\<close>. A session is
  the coroutine \<open>raw_session\<close>; it is modelled from one \<open>co_await\<close> to the next. The point where it waits is its
  program counter, and each operation below is the code from one wait to the next one. What Boost.Beast and
  the kernel answer (the parsed header, the body, an error code) is an argument of the operation that
  follows the wait, and what the session hands to Beast is kept as data: a response is the calls of \<open>set\<close> on
  the message and its other parts.

  Two threads share only the stop flag of the session: the phase is read and written on the strand of the
  session, and each operation reads the stop flag at most once, so it is atomic.
\<close>

section \<open>Configuration\<close>

record server_config =
  sc_address :: string
  sc_port :: "16 word"
  sc_workers :: nat
  sc_header_limit :: nat
  sc_header_field_limit :: nat
  sc_body_limit :: nat
  sc_header_timeout :: nat
  sc_body_timeout :: nat
  sc_write_timeout :: nat
  sc_idle_timeout :: nat
  sc_graceful_shutdown_timeout :: nat

text \<open>The number of processors is the argument; times are in milliseconds.\<close>

definition default_config :: "nat \<Rightarrow> server_config" where
  "default_config hardware_concurrency =
     \<lparr>sc_address = ''127.0.0.1'', sc_port = 8080, sc_workers = max 1 (hardware_concurrency div 2),
      sc_header_limit = 16 * 1024, sc_header_field_limit = 100, sc_body_limit = 1024 * 1024,
      sc_header_timeout = 5000, sc_body_timeout = 15000, sc_write_timeout = 15000,
      sc_idle_timeout = 60000, sc_graceful_shutdown_timeout = 10000\<rparr>"

section \<open>Messages\<close>

datatype verb = Verb_get | Verb_post | Verb_put | Verb_patch | Verb_delete | Verb_head | Verb_options | Verb_other string

definition to_flash_method :: "verb \<Rightarrow> http_method option" where
  "to_flash_method v = (case v of Verb_get \<Rightarrow> Some Get | Verb_post \<Rightarrow> Some Post | Verb_put \<Rightarrow> Some Put
     | Verb_patch \<Rightarrow> Some Patch | Verb_delete \<Rightarrow> Some Delete | Verb_head \<Rightarrow> Some Head
     | Verb_options \<Rightarrow> Some Options | Verb_other _ \<Rightarrow> None)"

text \<open>The error codes the code tells apart.\<close>

datatype io_error = End_of_stream | Eof | Operation_aborted | Body_limit | Beast_timeout | Timed_out | Io_other nat

definition is_timeout_error :: "io_error \<Rightarrow> bool" where
  "is_timeout_error e \<longleftrightarrow> e = Beast_timeout \<or> e = Timed_out"

text \<open>The header of a request, as the parser of Beast gives it.\<close>

record message_head =
  mh_verb :: verb
  mh_target :: string
  mh_version :: nat
  mh_fields :: "header_view list"
  mh_keep_alive :: bool

record wire_response =
  wr_status :: nat
  wr_version :: nat
  wr_fields :: "(string \<times> string) list"
  wr_keep_alive :: bool
  wr_body :: string

definition flash_version :: string where
  "flash_version = ''0.1.0''"

definition transport_problem :: "status \<Rightarrow> string \<Rightarrow> string \<Rightarrow> string \<Rightarrow> response_message" where
  "transport_problem code title detail inst = make_problem_response
     \<lparr>pd_type = ''https://flash.dev/problems/http-transport'', pd_title = title, pd_status = code,
      pd_detail = detail, pd_instance = inst, pd_errors = [], pd_request_id = []\<rparr>"

text \<open>
  What the code relies on of Beast's \<open>prepare_payload\<close>: it throws \<open>invalid_argument\<close> for a response that has
  a body but a status that must not have one (1xx, 204, 304), and otherwise adds the length, which is
  not modelled.
\<close>

definition prepare_payload :: "wire_response \<Rightarrow> wire_response throwing" where
  "prepare_payload wire =
     (if (wr_status wire div 100 = 1 \<or> wr_status wire \<in> {204, 304}) \<and> wr_body wire \<noteq> []
      then Inl (Invalid_argument ''invalid response body'') else Inr wire)"

definition to_beast_response :: "response_message \<Rightarrow> nat \<Rightarrow> bool \<Rightarrow> wire_response throwing" where
  "to_beast_response r version_number request_keep_alive = prepare_payload
     \<lparr>wr_status = status_code (rm_status r), wr_version = version_number,
      wr_fields = [(''Server'', ''flash/'' @ flash_version), (''Content-Type'', rm_content_type r)] @
        map (\<lambda>h. (h_name h, h_value h)) (rm_headers r),
      wr_keep_alive = (request_keep_alive \<and> rm_keep_alive r), wr_body = rm_body r\<rparr>"

section \<open>Raw handlers\<close>

text \<open>
  A raw handler gets the request and a writer on a default response, may change its own state, and throws,
  returns nothing (the response is what the writer left) or returns a response.
\<close>

type_synonym 'a raw_call =
  "request_view \<Rightarrow> response_message \<Rightarrow> 'a \<Rightarrow> response_message option throwing \<times> response_message \<times> 'a"

definition invoke_raw_handler :: "'a raw_call \<Rightarrow> request_view \<Rightarrow> 'a \<Rightarrow> response_message throwing \<times> 'a" where
  "invoke_raw_handler handler request a =
     (case handler request default_response a of
        (Inl e, response, a') \<Rightarrow> (Inl e, a')
      | (Inr None, response, a') \<Rightarrow> (Inr response, a')
      | (Inr (Some returned), response, a') \<Rightarrow> (Inr returned, a'))"

section \<open>The state of a session\<close>

datatype session_phase = Reading | Handling | Writing | Finished

text \<open>Where the coroutine waits; \<open>Await_write\<close> knows whether the loop goes on after the write.\<close>

datatype session_point =
    Spawned
  | Await_header
  | Await_body message_head
  | Await_handler message_head request_view
  | Await_write bool
  | Ended

text \<open>
  \<open>ss_posted\<close> are the tasks \<open>request_session_stop\<close> has posted to the strand of the session, by their \<open>force\<close>;
  \<open>ss_emitted\<close> says that the cancellation signal was emitted, \<open>ss_cancelled\<close> that the pending operation was
  cancelled, \<open>ss_owned\<close> that the coroutine or its completion handler still holds the shared pointer.
  \<open>ss_exchanges\<close> records the responses written so far, each with the request the handler got for it, if
  any.
\<close>

record session =
  ss_token :: nat
  ss_point :: session_point
  ss_phase :: session_phase
  ss_stop :: bool
  ss_first :: bool
  ss_deadline :: "nat option"
  ss_posted :: "bool list"
  ss_emitted :: bool
  ss_cancelled :: bool
  ss_open :: bool
  ss_owned :: bool
  ss_exchanges :: "(request_view option \<times> wire_response) list"

definition session_control :: "nat \<Rightarrow> session" where
  "session_control token =
     \<lparr>ss_token = token, ss_point = Spawned, ss_phase = Reading, ss_stop = False, ss_first = True,
      ss_deadline = None, ss_posted = [], ss_emitted = False, ss_cancelled = False, ss_open = True,
      ss_owned = True, ss_exchanges = []\<rparr>"

text \<open>The part of \<open>request_session_stop\<close> that runs at once, and the task it posts.\<close>

definition request_session_stop :: "bool \<Rightarrow> session \<Rightarrow> session" where
  "request_session_stop force s = s\<lparr>ss_stop := True, ss_posted := ss_posted s @ [force]\<rparr>"

definition stop_task :: "bool \<Rightarrow> session \<Rightarrow> session" where
  "stop_task force s =
     (let s1 = (if force then s\<lparr>ss_emitted := True\<rparr> else s) in
      if force \<or> ss_phase s1 = Reading
      then s1\<lparr>ss_cancelled := True, ss_open := (if force then False else ss_open s1)\<rparr>
      else s1)"

definition run_posted :: "session \<Rightarrow> session" where
  "run_posted s = (case ss_posted s of [] \<Rightarrow> s | force # rest \<Rightarrow> stop_task force (s\<lparr>ss_posted := rest\<rparr>))"

section \<open>The loop\<close>

definition finish_session :: "session \<Rightarrow> session" where
  "finish_session s = s\<lparr>ss_phase := Finished, ss_point := Ended, ss_open := False\<rparr>"

text \<open>An exception that leaves the coroutine: nothing after the loop runs.\<close>

definition abandon_session :: "session \<Rightarrow> session" where
  "abandon_session s = s\<lparr>ss_point := Ended\<rparr>"

definition loop_top :: "server_config \<Rightarrow> session \<Rightarrow> session" where
  "loop_top config s =
     (if ss_stop s then finish_session s
      else s\<lparr>ss_phase := Reading,
             ss_deadline := Some (if ss_first s then sc_header_timeout config else sc_idle_timeout config),
             ss_cancelled := False, ss_point := Await_header\<rparr>)"

definition start_write ::
    "server_config \<Rightarrow> request_view option \<Rightarrow> wire_response \<Rightarrow> bool \<Rightarrow> session \<Rightarrow> session" where
  "start_write config request wire keep_alive s =
     s\<lparr>ss_phase := Writing, ss_deadline := Some (sc_write_timeout config), ss_cancelled := False,
       ss_exchanges := ss_exchanges s @ [(request, wire)], ss_point := Await_write keep_alive\<rparr>"

text \<open>The response to a request that was not read: the loop ends after it. An exception of
  \<open>to_beast_response\<close> is caught nowhere.\<close>

definition refuse :: "server_config \<Rightarrow> response_message \<Rightarrow> nat \<Rightarrow> session \<Rightarrow> session" where
  "refuse config response version s =
     (case to_beast_response response version False of
        Inl e \<Rightarrow> abandon_session s
      | Inr wire \<Rightarrow> start_write config None wire False s)"

definition header_problem :: "io_error \<Rightarrow> response_message" where
  "header_problem e =
     (let too_large = (e = Body_limit) in
      transport_problem (if too_large then Payload_too_large413 else Bad_request400)
        (if too_large then ''Request body too large'' else ''Malformed HTTP request'')
        (if too_large then ''The request exceeds the configured body limit.''
         else ''The request headers could not be parsed within the configured limits.'') [])"

definition header_done :: "server_config \<Rightarrow> io_error + message_head \<Rightarrow> session \<Rightarrow> session" where
  "header_done config result s =
     (let s1 = s\<lparr>ss_first := False\<rparr> in
      case result of
        Inl e \<Rightarrow>
          (if e = End_of_stream \<or> e = Eof \<or> e = Operation_aborted then finish_session s1
           else if is_timeout_error e then finish_session s1
           else refuse config (header_problem e) 11 s1)
      | Inr head \<Rightarrow>
          (if length (mh_fields head) > sc_header_field_limit config
           then refuse config
                  (transport_problem Bad_request400 ''Too many HTTP header fields''
                     ''The request exceeds the configured header field limit.'' (mh_target head))
                  (mh_version head) s1
           else s1\<lparr>ss_deadline := Some (sc_body_timeout config), ss_cancelled := False,
                  ss_point := Await_body head\<rparr>))"

definition body_problem :: "io_error \<Rightarrow> message_head \<Rightarrow> response_message" where
  "body_problem e head =
     (let too_large = (e = Body_limit) in
      transport_problem (if too_large then Payload_too_large413 else Bad_request400)
        (if too_large then ''Request body too large'' else ''Malformed HTTP request body'')
        (if too_large then ''The request exceeds the configured body limit.''
         else ''The request body could not be parsed.'') (mh_target head))"

text \<open>From the response to its write; \<open>set_header\<close> of the fixed \<open>Allow\<close> value never throws.\<close>

definition respond ::
    "server_config \<Rightarrow> request_view option \<Rightarrow> message_head \<Rightarrow> response_message \<Rightarrow> session \<Rightarrow> session" where
  "respond config request message response s =
     (let request_keep_alive = (mh_keep_alive message \<and> \<not> ss_stop s);
          keep_alive = (request_keep_alive \<and> rm_keep_alive response)
      in case to_beast_response response (mh_version message) request_keep_alive of
           Inl e \<Rightarrow> abandon_session s
         | Inr wire \<Rightarrow> start_write config request wire keep_alive s)"

definition unsupported_method :: "message_head \<Rightarrow> response_message throwing" where
  "unsupported_method message =
     set_header ''Allow'' ''GET, HEAD, POST, PUT, PATCH, DELETE, OPTIONS''
       (transport_problem Method_not_allowed405 ''Unsupported HTTP method''
          ''Flash does not expose this HTTP method.'' (mh_target message))"

text \<open>The fields of the message are those after the body, which may have added trailers.\<close>

definition body_done ::
    "server_config \<Rightarrow> message_head \<Rightarrow> io_error + (header_view list \<times> string) \<Rightarrow> session \<Rightarrow> session" where
  "body_done config head result s =
     (case result of
        Inl e \<Rightarrow>
          (if is_timeout_error e then finish_session s
           else refuse config (body_problem e head) (mh_version head) s)
      | Inr (hs, content) \<Rightarrow>
          (let message = head\<lparr>mh_fields := hs\<rparr>;
               s1 = s\<lparr>ss_phase := Handling\<rparr>
           in case to_flash_method (mh_verb message) of
                None \<Rightarrow>
                  (case unsupported_method message of
                     Inl e \<Rightarrow> abandon_session s1
                   | Inr response \<Rightarrow> respond config None message response s1)
              | Some m \<Rightarrow>
                  s1\<lparr>ss_point := Await_handler message
                      (make_request m (mh_target message) (mh_fields message) content (mh_keep_alive message)
                         (Some (ss_token s)))\<rparr>))"

definition handler_problem :: "request_view \<Rightarrow> response_message" where
  "handler_problem request =
     transport_problem Internal_server_error500 ''Internal server error''
       ''The request could not be completed.'' (rv_target request)"

definition handler_done ::
    "server_config \<Rightarrow> message_head \<Rightarrow> request_view \<Rightarrow> response_message throwing \<Rightarrow> session \<Rightarrow> session" where
  "handler_done config message request result s =
     respond config (Some request) message (case result of Inl e \<Rightarrow> handler_problem request | Inr r \<Rightarrow> r) s"

definition write_done :: "server_config \<Rightarrow> bool \<Rightarrow> io_error option \<Rightarrow> session \<Rightarrow> session" where
  "write_done config keep_alive error s =
     (if error \<noteq> None \<or> \<not> keep_alive then finish_session s else loop_top config s)"

section \<open>Steps\<close>

text \<open>
  The limits given to the parser. The environment is free in what it answers, but for the documented limits
  of the parser: a body it accepts is within the limit. A forced stop emits the cancellation signal, after
  which a wait of the coroutine may throw. The handler runs from some state of the application, which
  other sessions may have changed.
\<close>

definition parser_header_limit :: "server_config \<Rightarrow> nat" where
  "parser_header_limit config = min (sc_header_limit config) (2 ^ 32 - 1)"

definition parser_accepts :: "server_config \<Rightarrow> io_error + (header_view list \<times> string) \<Rightarrow> bool" where
  "parser_accepts config result = (case result of Inl e \<Rightarrow> True | Inr (hs, content) \<Rightarrow>
     length content \<le> sc_body_limit config)"

inductive session_step :: "server_config \<Rightarrow> 'a raw_call \<Rightarrow> session \<Rightarrow> session \<Rightarrow> bool"
  for config :: server_config and handler :: "'a raw_call" where
  start: "ss_point s = Spawned \<Longrightarrow> session_step config handler s (loop_top config s)"
| header_read: "ss_point s = Await_header \<Longrightarrow> session_step config handler s (header_done config result s)"
| body_read: "ss_point s = Await_body head \<Longrightarrow> parser_accepts config result \<Longrightarrow>
    session_step config handler s (body_done config head result s)"
| handled: "ss_point s = Await_handler message request \<Longrightarrow>
    session_step config handler s
      (handler_done config message request (fst (invoke_raw_handler handler request a)) s)"
| written: "ss_point s = Await_write keep_alive \<Longrightarrow>
    session_step config handler s (write_done config keep_alive error s)"
| cancelled: "ss_emitted s \<Longrightarrow> ss_point s \<noteq> Ended \<Longrightarrow> ss_point s \<noteq> Spawned \<Longrightarrow>
    session_step config handler s (abandon_session s)"

text \<open>The life of a session: its own steps, stop requests of the server, and the tasks they post.\<close>

inductive session_move :: "server_config \<Rightarrow> 'a raw_call \<Rightarrow> session \<Rightarrow> session \<Rightarrow> bool"
  for config :: server_config and handler :: "'a raw_call" where
  own: "session_step config handler s s' \<Longrightarrow> session_move config handler s s'"
| stopped: "session_move config handler s (request_session_stop force s)"
| posted: "ss_posted s \<noteq> [] \<Longrightarrow> session_move config handler s (run_posted s)"
| completed: "ss_point s = Ended \<Longrightarrow> session_move config handler s (s\<lparr>ss_owned := False\<rparr>)"

inductive session_reachable :: "server_config \<Rightarrow> 'a raw_call \<Rightarrow> session \<Rightarrow> bool"
  for config :: server_config and handler :: "'a raw_call" where
  accepted: "session_reachable config handler (session_control token)"
| moved: "session_reachable config handler s \<Longrightarrow> session_move config handler s s' \<Longrightarrow>
    session_reachable config handler s'"

end
