(* ===== verification/Flash_Server.thy ===== *)
theory Flash_Server
  imports Flash_Session
begin

text \<open>
  The class \<open>raw_server\<close> of \<open>include/flash/server.hpp\<close> as a state machine. Everything the server does to its
  own fields runs on \<open>control_strand_\<close>, whose tasks are a queue; the members that other threads touch are
  the flags \<open>started_\<close> and \<open>stopping_\<close> and the counter of the sessions. The steps are: the calls of \<open>start\<close>
  and \<open>stop\<close>, cut where another thread can come between; the first task of the queue; completions of the
  kernel (an accepted connection, the timer), which enqueue a task; steps of a session; and a worker that
  leaves \<open>run\<close>.
\<close>

section \<open>State\<close>

datatype shutdown_timer = Graceful | Forced

datatype control_task =
    T_accept_loop
  | T_accepted "io_error option"
  | T_begin_stop
  | T_session_complete nat
  | T_timer shutdown_timer bool

text \<open>
  \<open>sv_controls\<close> holds the session controls by the number of their session, \<open>sv_sessions\<close> the weak pointers.
  \<open>sv_accepting\<close> and \<open>sv_timer\<close> are the operations the kernel has not completed, \<open>sv_spawned\<close> and
  \<open>sv_stop_pending\<close> say how far the thread in \<open>start\<close> or \<open>stop\<close> has come, \<open>sv_running_workers\<close> are the
  threads in \<open>run\<close>.
\<close>

record server =
  sv_config :: server_config
  sv_port :: "16 word"
  sv_started :: bool
  sv_spawned :: bool
  sv_stopping :: bool
  sv_stop_pending :: bool
  sv_acceptor_open :: bool
  sv_accepting :: bool
  sv_sessions :: "nat list"
  sv_controls :: "session list"
  sv_active :: "64 word"
  sv_timer :: "shutdown_timer option"
  sv_queue :: "control_task list"
  sv_running_workers :: nat
  sv_context_stopped :: bool

definition validated_worker_count :: "nat \<Rightarrow> nat throwing" where
  "validated_worker_count n =
     (if n = 0 \<or> n > 256 then Inl (Invalid_argument ''Flash worker count must be between 1 and 256'') else Inr n)"

text \<open>Opening, binding and listening is the kernel's: it throws, or gives the port.\<close>

definition raw_server :: "server_config \<Rightarrow> 16 word throwing \<Rightarrow> server throwing" where
  "raw_server config listen =
     bind_sum (validated_worker_count (sc_workers config)) (\<lambda>n.
     bind_sum listen (\<lambda>bound_port.
       Inr \<lparr>sv_config = config, sv_port = bound_port, sv_started = False, sv_spawned = False, sv_stopping = False,
         sv_stop_pending = False, sv_acceptor_open = True, sv_accepting = False, sv_sessions = [],
         sv_controls = [], sv_active = 0, sv_timer = None, sv_queue = [], sv_running_workers = 0,
         sv_context_stopped = False\<rparr>))"

section \<open>Calls\<close>

definition post_control :: "control_task \<Rightarrow> server \<Rightarrow> server" where
  "post_control t sv = sv\<lparr>sv_queue := sv_queue sv @ [t]\<rparr>"

text \<open>\<open>start\<close> up to the exchange of the flag, and after it.\<close>

definition start_flag :: "server \<Rightarrow> server throwing" where
  "start_flag sv = (if sv_started sv then Inl (Logic_error ''Flash server already started'')
     else Inr (sv\<lparr>sv_started := True\<rparr>))"

definition start_spawn :: "server \<Rightarrow> server" where
  "start_spawn sv =
     (post_control T_accept_loop sv)\<lparr>sv_spawned := True, sv_running_workers := sc_workers (sv_config sv)\<rparr>"

definition start_server :: "server \<Rightarrow> server throwing" where
  "start_server sv = map_sum id start_spawn (start_flag sv)"

text \<open>\<open>stop\<close> up to the exchange of the flag, and the \<open>post\<close> after it.\<close>

definition stop_flag :: "server \<Rightarrow> server" where
  "stop_flag sv = (if \<not> sv_started sv \<or> sv_stopping sv then sv
     else sv\<lparr>sv_stopping := True, sv_stop_pending := True\<rparr>)"

definition stop_post :: "server \<Rightarrow> server" where
  "stop_post sv = (if sv_stop_pending sv then post_control T_begin_stop (sv\<lparr>sv_stop_pending := False\<rparr>) else sv)"

definition stop_server :: "server \<Rightarrow> server" where
  "stop_server sv = stop_post (stop_flag sv)"

text \<open>\<open>serve_raw\<close> up to its \<open>wait\<close>: a stop that is requested already runs the callback at once.\<close>

definition serve_raw :: "server_config \<Rightarrow> 16 word throwing \<Rightarrow> bool \<Rightarrow> server throwing" where
  "serve_raw config listen stop_requested =
     bind_sum (raw_server config listen) (\<lambda>sv. start_server (if stop_requested then stop_server sv else sv))"

section \<open>Tasks of the control strand\<close>

text \<open>\<open>weak_ptr::lock\<close>: the coroutine, its completion or a posted task still holds the session.\<close>

definition lock_session :: "server \<Rightarrow> nat \<Rightarrow> session option" where
  "lock_session sv i =
     (if i < length (sv_controls sv) \<and> (ss_owned (sv_controls sv ! i) \<or> ss_posted (sv_controls sv ! i) \<noteq> [])
      then Some (sv_controls sv ! i) else None)"

definition session_snapshot :: "server \<Rightarrow> nat list" where
  "session_snapshot sv = filter (\<lambda>i. lock_session sv i \<noteq> None) (sv_sessions sv)"

fun stop_sessions :: "bool \<Rightarrow> nat list \<Rightarrow> session list \<Rightarrow> session list" where
  "stop_sessions force [] controls = controls"
| "stop_sessions force (i # is) controls =
     stop_sessions force is (controls[i := request_session_stop force (controls ! i)])"

definition begin_stop :: "server \<Rightarrow> server" where
  "begin_stop sv =
     (let sv1 = sv\<lparr>sv_acceptor_open := False\<rparr>;
          sessions = session_snapshot sv1;
          sv2 = sv1\<lparr>sv_controls := stop_sessions False sessions (sv_controls sv1)\<rparr>
      in if sessions = [] then sv2 else sv2\<lparr>sv_timer := Some Graceful\<rparr>)"

definition force_stop :: "server \<Rightarrow> server" where
  "force_stop sv =
     (let sessions = session_snapshot sv;
          sv1 = sv\<lparr>sv_controls := stop_sessions True sessions (sv_controls sv)\<rparr>
      in if sessions = [] then sv1 else sv1\<lparr>sv_timer := Some Forced\<rparr>)"

text \<open>\<open>cancel\<close> completes a pending wait with \<open>operation_aborted\<close>.\<close>

definition cancel_timer :: "server \<Rightarrow> server" where
  "cancel_timer sv = (case sv_timer sv of None \<Rightarrow> sv
     | Some k \<Rightarrow> post_control (T_timer k True) (sv\<lparr>sv_timer := None\<rparr>))"

definition session_complete :: "nat \<Rightarrow> server \<Rightarrow> server" where
  "session_complete i sv =
     (let sv1 = sv\<lparr>sv_sessions := filter (\<lambda>j. \<not> (lock_session sv j = None \<or> j = i)) (sv_sessions sv),
                 sv_active := sv_active sv - 1\<rparr>
      in if sv_stopping sv1 \<and> sv_sessions sv1 = [] then cancel_timer sv1 else sv1)"

text \<open>The task that calls \<open>session_complete\<close>; when it is destroyed, the last shared pointer goes with it.\<close>

definition session_task :: "nat \<Rightarrow> server \<Rightarrow> server" where
  "session_task i sv =
     (let sv1 = session_complete i sv
      in sv1\<lparr>sv_controls := (sv_controls sv1)[i := (sv_controls sv1 ! i)\<lparr>ss_owned := False\<rparr>]\<rparr>)"

definition accept_next :: "server \<Rightarrow> server" where
  "accept_next sv = sv\<lparr>sv_accepting := True\<rparr>"

definition accepted_task :: "io_error option \<Rightarrow> server \<Rightarrow> server" where
  "accepted_task error sv =
     (if error = Some Operation_aborted \<or> \<not> sv_acceptor_open sv then sv
      else if error \<noteq> None then accept_next sv
      else
        (let token = length (sv_controls sv) in
         accept_next (sv\<lparr>sv_controls := sv_controls sv @ [session_control token],
           sv_sessions := sv_sessions sv @ [token], sv_active := sv_active sv + 1\<rparr>)))"

definition timer_task :: "shutdown_timer \<Rightarrow> bool \<Rightarrow> server \<Rightarrow> server" where
  "timer_task k aborted sv =
     (if aborted then sv
      else case k of Graceful \<Rightarrow> force_stop sv | Forced \<Rightarrow> sv\<lparr>sv_context_stopped := True\<rparr>)"

fun run_task :: "control_task \<Rightarrow> server \<Rightarrow> server" where
  "run_task T_accept_loop sv = accept_next sv"
| "run_task (T_accepted error) sv = accepted_task error sv"
| "run_task T_begin_stop sv = begin_stop sv"
| "run_task (T_session_complete i) sv = session_task i sv"
| "run_task (T_timer k aborted) sv = timer_task k aborted sv"

section \<open>Steps\<close>

definition running :: "server \<Rightarrow> bool" where
  "running sv \<longleftrightarrow> 0 < sv_running_workers sv \<and> \<not> sv_context_stopped sv"

text \<open>\<open>wait\<close> joins the workers: it returns when all of them have left \<open>run\<close>.\<close>

definition wait_returns :: "server \<Rightarrow> bool" where
  "wait_returns sv \<longleftrightarrow> sv_running_workers sv = 0"

text \<open>The work that keeps \<open>io_context::run\<close> from returning.\<close>

definition has_work :: "server \<Rightarrow> bool" where
  "has_work sv \<longleftrightarrow> sv_queue sv \<noteq> [] \<or> sv_accepting sv \<or> sv_timer sv \<noteq> None \<or>
     (\<exists>s \<in> set (sv_controls sv). ss_point s \<noteq> Ended \<or> ss_posted s \<noteq> [])"

text \<open>An \<open>async_accept\<close> is only aborted when the acceptor was cancelled or closed.\<close>

definition accept_answer :: "server \<Rightarrow> io_error option \<Rightarrow> bool" where
  "accept_answer sv error \<longleftrightarrow> (error = Some Operation_aborted \<longrightarrow> \<not> sv_acceptor_open sv)"

definition session_moved :: "nat \<Rightarrow> session \<Rightarrow> server \<Rightarrow> server" where
  "session_moved i s sv =
     (let sv1 = sv\<lparr>sv_controls := (sv_controls sv)[i := s]\<rparr>
      in if ss_point s = Ended then post_control (T_session_complete i) sv1 else sv1)"

inductive server_step :: "'a raw_call \<Rightarrow> server \<Rightarrow> server \<Rightarrow> bool" for handler :: "'a raw_call" where
  start_called: "start_flag sv = Inr sv' \<Longrightarrow> server_step handler sv sv'"
| start_finished: "sv_started sv \<Longrightarrow> \<not> sv_spawned sv \<Longrightarrow> server_step handler sv (start_spawn sv)"
| stop_called: "sv_started sv \<Longrightarrow> \<not> sv_stopping sv \<Longrightarrow> server_step handler sv (stop_flag sv)"
| stop_finished: "sv_stop_pending sv \<Longrightarrow> server_step handler sv (stop_post sv)"
| control: "running sv \<Longrightarrow> sv_queue sv = t # ts \<Longrightarrow> server_step handler sv (run_task t (sv\<lparr>sv_queue := ts\<rparr>))"
| connection: "running sv \<Longrightarrow> sv_accepting sv \<Longrightarrow> accept_answer sv error \<Longrightarrow>
    server_step handler sv (post_control (T_accepted error) (sv\<lparr>sv_accepting := False\<rparr>))"
| timer: "running sv \<Longrightarrow> sv_timer sv = Some k \<Longrightarrow>
    server_step handler sv (post_control (T_timer k False) (sv\<lparr>sv_timer := None\<rparr>))"
| session: "running sv \<Longrightarrow> i < length (sv_controls sv) \<Longrightarrow>
    session_step (sv_config sv) handler (sv_controls sv ! i) s \<Longrightarrow> server_step handler sv (session_moved i s sv)"
| session_post: "running sv \<Longrightarrow> i < length (sv_controls sv) \<Longrightarrow> ss_posted (sv_controls sv ! i) \<noteq> [] \<Longrightarrow>
    server_step handler sv (sv\<lparr>sv_controls := (sv_controls sv)[i := run_posted (sv_controls sv ! i)]\<rparr>)"
| worker: "0 < sv_running_workers sv \<Longrightarrow> \<not> has_work sv \<or> sv_context_stopped sv \<Longrightarrow>
    server_step handler sv (sv\<lparr>sv_running_workers := sv_running_workers sv - 1\<rparr>)"

inductive server_reachable :: "'a raw_call \<Rightarrow> server_config \<Rightarrow> server \<Rightarrow> bool"
  for handler :: "'a raw_call" and config :: server_config where
  constructed: "raw_server config listen = Inr sv \<Longrightarrow> server_reachable handler config sv"
| stepped: "server_reachable handler config sv \<Longrightarrow> server_step handler sv sv' \<Longrightarrow>
    server_reachable handler config sv'"

end
