(* ===== verification/Flash_Machine.thy ===== *)
theory Flash_Machine
  imports Main
begin

text \<open>
  Two interfaces of step relations: a machine that winds down, whose steps are counted by a rank, and a
  machine that is simulated by an abstract one. The session and the server provide both.
\<close>

section \<open>Winding down\<close>

text \<open>While \<open>ok\<close> holds, it keeps holding, and every step uses up rank.\<close>

locale winding_down =
  fixes step :: "'s \<Rightarrow> 's \<Rightarrow> bool" and ok :: "'s \<Rightarrow> bool" and rank :: "'s \<Rightarrow> nat"
  assumes ok_step: "ok s \<Longrightarrow> step s s' \<Longrightarrow> ok s'"
    and rank_step: "ok s \<Longrightarrow> step s s' \<Longrightarrow> rank s' < rank s"
begin

lemma run:
  assumes "(step ^^ n) s s'" "ok s"
  shows "n + rank s' \<le> rank s \<and> ok s'"
  using assms(1)
proof (induction n arbitrary: s')
  case (Suc n)
  then obtain s1 where r: "(step ^^ n) s s1" "step s1 s'" by auto
  then show ?case using Suc.IH [OF r(1)] rank_step [OF _ r(2)] ok_step [OF _ r(2)] by fastforce
qed (simp add: assms(2))

lemma run_bounded: "(step ^^ n) s s' \<Longrightarrow> ok s \<Longrightarrow> n \<le> rank s"
  using run by fastforce

text \<open>Every run can be continued to a state with no step.\<close>

lemma run_ends: "ok s \<Longrightarrow> \<exists>s'. step\<^sup>*\<^sup>* s s' \<and> ok s' \<and> (\<nexists>s''. step s' s'')"
proof (induction "rank s" arbitrary: s rule: less_induct)
  case less
  show ?case
  proof (cases "\<exists>s1. step s s1")
    case True
    then obtain s1 where s1: "step s s1" by blast
    from less.hyps [OF rank_step [OF less.prems s1] ok_step [OF less.prems s1]] show ?thesis
      using converse_rtranclp_into_rtranclp [of step, OF s1] by blast
  next
    case False
    then show ?thesis using less.prems by blast
  qed
qed

end

section \<open>Simulation\<close>

text \<open>Every step of the machine is a step of the abstract machine, or not visible in it.\<close>

locale simulation =
  fixes init :: "'s \<Rightarrow> bool" and step :: "'s \<Rightarrow> 's \<Rightarrow> bool"
    and abs_init :: "'a \<Rightarrow> bool" and abs_step :: "'a \<Rightarrow> 'a \<Rightarrow> bool" and abs :: "'s \<Rightarrow> 'a"
  assumes abs_initial: "init s \<Longrightarrow> abs_init (abs s)"
    and abs_simulates: "step s s' \<Longrightarrow> abs_step\<^sup>=\<^sup>= (abs s) (abs s')"
begin

lemma simulates_run:
  assumes "step\<^sup>*\<^sup>* s s'"
  shows "abs_step\<^sup>*\<^sup>* (abs s) (abs s')"
  using assms
proof (induction rule: rtranclp_induct)
  case (step y z)
  have "abs_step (abs y) (abs z) \<or> abs y = abs z" using abs_simulates [OF step.hyps(2)] by auto
  then show ?case
  proof
    assume "abs_step (abs y) (abs z)"
    with step.IH show ?thesis by (rule rtranclp.rtrancl_into_rtrancl)
  next
    assume "abs y = abs z"
    with step.IH show ?thesis by simp
  qed
qed simp

text \<open>What is true of every abstract state that can be reached is true of the machine.\<close>

lemma transfer:
  assumes "\<And>a. abs_init a \<Longrightarrow> P a" "\<And>a a'. P a \<Longrightarrow> abs_step a a' \<Longrightarrow> P a'" "init s" "step\<^sup>*\<^sup>* s s'"
  shows "P (abs s')"
proof -
  have "abs_step\<^sup>*\<^sup>* (abs s) (abs s')" using simulates_run [OF assms(4)] .
  then show ?thesis using assms(1) [OF abs_initial [OF assms(3)]]
    by (induction rule: rtranclp_induct) (auto intro: assms(2))
qed

end

end
