(* ===== verification/Flash_Session_Props.thy ===== *)
theory Flash_Session_Props
  imports Flash_Session Flash_Machine
begin

text \<open>
  What a session promises: it follows the protocol of a persistent connection (one response per request, in
  order, nothing after a response that closes), every response is the answer of the handler or a problem
  of the server, every wait on the network has its timeout, and a session that was told to stop ends.
\<close>


lemmas segments = loop_top_def finish_session_def abandon_session_def start_write_def refuse_def respond_def
  header_done_def body_done_def handler_done_def write_done_def Let_def

lemmas stop_parts = request_session_stop_def run_posted_def stop_task_def Let_def

lemma unsupported_method_Inr: "\<exists>r. unsupported_method message = Inr r"
proof -
  have "valid_header_name ''Allow'' \<and> valid_header_value ''GET, HEAD, POST, PUT, PATCH, DELETE, OPTIONS''"
    by code_simp
  then show ?thesis by (simp add: unsupported_method_def set_header_Inr_iff)
qed

text \<open>Only a 204 with a body is never put on the wire.\<close>

lemma to_beast_response_Inr_iff:
  "to_beast_response r version keep = Inr w \<longleftrightarrow> (rm_status r = No_content204 \<longrightarrow> rm_body r = []) \<and>
     w = \<lparr>wr_status = status_code (rm_status r), wr_version = version,
      wr_fields = [(''Server'', ''flash/'' @ flash_version), (''Content-Type'', rm_content_type r)] @
        map (\<lambda>h. (h_name h, h_value h)) (rm_headers r),
      wr_keep_alive = (keep \<and> rm_keep_alive r), wr_body = rm_body r\<rparr>"
  by (cases "rm_status r") (auto simp: to_beast_response_def prepare_payload_def)

lemma to_beast_response_sent:
  "rm_status r \<noteq> No_content204 \<or> rm_body r = [] \<Longrightarrow> \<exists>w. to_beast_response r version keep = Inr w"
  by (auto simp: to_beast_response_Inr_iff)

section \<open>The protocol of a connection\<close>

text \<open>
  The abstract connection: idle, busy with one request, or on its way to be closed. Its log has the requests
  answered so far, \<open>None\<close> for one that was refused before it reached the handler, each with what the
  response said about the connection.
\<close>

datatype connection_state = Idle | Busy request_view | Closing | Closed

type_synonym connection = "connection_state \<times> (request_view option \<times> bool) list"

inductive connection_step :: "connection \<Rightarrow> connection \<Rightarrow> bool" where
  receive: "connection_step (Idle, log) (Busy request, log)"
| reply: "connection_step (Busy request, log) (if keep then Idle else Closing, log @ [(Some request, keep)])"
| reject: "connection_step (Idle, log) (if keep then Idle else Closing, log @ [(None, keep)])"
| close: "connection_step (state, log) (Closed, log)"

inductive_cases connection_stepE: "connection_step c c'"

text \<open>A response that closes is the last one.\<close>

definition connection_ok :: "connection \<Rightarrow> bool" where
  "connection_ok c \<longleftrightarrow> (\<forall>x \<in> set (butlast (snd c)). snd x) \<and>
     (fst c = Idle \<or> (\<exists>r. fst c = Busy r) \<longrightarrow> (\<forall>x \<in> set (snd c). snd x))"

lemma connection_ok_step: "connection_ok c \<Longrightarrow> connection_step c c' \<Longrightarrow> connection_ok c'"
  by (erule connection_stepE)
    (auto simp: connection_ok_def butlast_append split: if_splits dest: in_set_butlastD)

section \<open>Sessions follow it\<close>

fun connection_at :: "session_point \<Rightarrow> connection_state" where
  "connection_at (Await_handler message request) = Busy request"
| "connection_at (Await_write keep) = (if keep then Idle else Closing)"
| "connection_at Ended = Closed"
| "connection_at _ = Idle"

definition connection_of :: "session \<Rightarrow> connection" where
  "connection_of s = (connection_at (ss_point s), map (\<lambda>(r, w). (r, wr_keep_alive w)) (ss_exchanges s))"

lemma connection_close: "ss_point s' = Ended \<Longrightarrow> ss_exchanges s' = ss_exchanges s \<Longrightarrow>
    connection_step (connection_of s) (connection_of s')"
  by (simp add: connection_of_def connection_step.close)

lemma connection_respond:
  assumes "connection_at (ss_point s) = (case request of None \<Rightarrow> Idle | Some r \<Rightarrow> Busy r)"
  shows "connection_step (connection_of s) (connection_of (respond config request message response s))"
proof (cases "to_beast_response response (mh_version message) (mh_keep_alive message \<and> \<not> ss_stop s)")
  case (Inl e)
  then show ?thesis using connection_close [of "abandon_session s" s] by (simp add: respond_def Let_def abandon_session_def)
next
  case (Inr w)
  then have "wr_keep_alive w = (mh_keep_alive message \<and> \<not> ss_stop s \<and> rm_keep_alive response)"
    by (simp add: to_beast_response_Inr_iff)
  with Inr show ?thesis using assms connection_step.reject [of _ "wr_keep_alive w"] connection_step.reply [of _ _ "wr_keep_alive w"]
    by (cases request) (simp_all add: connection_of_def respond_def start_write_def Let_def)
qed

lemma connection_refuse:
  assumes "connection_at (ss_point s) = Idle"
  shows "connection_step (connection_of s) (connection_of (refuse config response version s))"
proof (cases "to_beast_response response version False")
  case (Inl e)
  then show ?thesis using connection_close [of "abandon_session s" s] by (simp add: refuse_def abandon_session_def)
next
  case (Inr w)
  then have "\<not> wr_keep_alive w" by (simp add: to_beast_response_Inr_iff)
  with Inr show ?thesis using assms connection_step.reject [of _ False]
    by (simp add: connection_of_def refuse_def start_write_def)
qed

lemma connection_of_updates [simp]:
  "connection_of (s\<lparr>ss_first := b\<rparr>) = connection_of s" "connection_of (s\<lparr>ss_phase := p\<rparr>) = connection_of s"
  "connection_of (s\<lparr>ss_stop := b\<rparr>) = connection_of s" "connection_of (s\<lparr>ss_posted := l\<rparr>) = connection_of s"
  "connection_of (s\<lparr>ss_emitted := b\<rparr>) = connection_of s" "connection_of (s\<lparr>ss_cancelled := b\<rparr>) = connection_of s"
  "connection_of (s\<lparr>ss_open := b\<rparr>) = connection_of s" "connection_of (s\<lparr>ss_owned := b\<rparr>) = connection_of s"
  "connection_of (s\<lparr>ss_deadline := d\<rparr>) = connection_of s"
  by (simp_all add: connection_of_def)

lemma connection_loop_top:
  assumes "connection_at (ss_point s) = Idle"
  shows "connection_step\<^sup>=\<^sup>= (connection_of s) (connection_of (loop_top config s))"
  using assms connection_close [of "finish_session s" s]
  by (auto simp: loop_top_def finish_session_def connection_of_def)

lemma connection_header_done:
  assumes "ss_point s = Await_header"
  shows "connection_step\<^sup>=\<^sup>= (connection_of s) (connection_of (header_done config result s))"
proof -
  have refused: "connection_step (connection_of s) (connection_of (refuse config r v (s\<lparr>ss_first := False\<rparr>)))" for r v
    using connection_refuse [of "s\<lparr>ss_first := False\<rparr>"] assms by simp
  have ended: "connection_step (connection_of s) (connection_of (finish_session (s\<lparr>ss_first := False\<rparr>)))"
    by (rule connection_close) (simp_all add: finish_session_def)
  show ?thesis using refused ended assms
    by (cases result) (auto simp: header_done_def Let_def connection_of_def [of "_\<lparr>ss_point := _\<rparr>"] connection_of_def [of s])
qed

lemma connection_body_done:
  assumes "ss_point s = Await_body head"
  shows "connection_step\<^sup>=\<^sup>= (connection_of s) (connection_of (body_done config head result s))"
proof (cases result)
  case (Inl e)
  have "connection_step (connection_of s) (connection_of (finish_session s))"
    by (rule connection_close) (simp_all add: finish_session_def)
  then show ?thesis using Inl connection_refuse [of s] assms by (simp add: body_done_def)
next
  case (Inr x)
  obtain hs content where x: "x = (hs, content)" by (cases x)
  let ?m = "head\<lparr>mh_fields := hs\<rparr>" and ?s = "s\<lparr>ss_phase := Handling\<rparr>"
  show ?thesis
  proof (cases "to_flash_method (mh_verb ?m)")
    case None
    obtain r where "unsupported_method ?m = Inr r" using unsupported_method_Inr by blast
    then show ?thesis using connection_respond [of ?s None config ?m r] None assms
      by (simp add: body_done_def Inr x Let_def)
  next
    case (Some m)
    then show ?thesis using assms connection_step.receive
      by (simp add: body_done_def Inr x Let_def connection_of_def)
  qed
qed

lemma connection_simulates_step:
  assumes "session_step config handler s s'"
  shows "connection_step\<^sup>=\<^sup>= (connection_of s) (connection_of s')"
  using assms
proof (cases rule: session_step.cases)
  case start
  then show ?thesis using connection_loop_top by simp
next
  case (header_read result)
  then show ?thesis using connection_header_done by simp
next
  case (body_read head result)
  then show ?thesis using connection_body_done by simp
next
  case (handled message request a)
  then show ?thesis using connection_respond [of s "Some request"] by (simp add: handler_done_def)
next
  case (written keep error)
  show ?thesis
  proof (cases "error \<noteq> None \<or> \<not> keep")
    case True
    then show ?thesis using written connection_close [of "finish_session s" s]
      by (simp add: write_done_def finish_session_def)
  next
    case False
    then show ?thesis using written connection_loop_top by (simp add: write_done_def)
  qed
next
  case cancelled
  then show ?thesis using connection_close [of "abandon_session s" s] by (simp add: abandon_session_def)
qed

lemma connection_simulates:
  assumes "session_move config handler s s'"
  shows "connection_step\<^sup>=\<^sup>= (connection_of s) (connection_of s')"
  using assms
proof (cases rule: session_move.cases)
  case own
  then show ?thesis by (rule connection_simulates_step)
qed (auto simp: stop_parts split: list.splits)

interpretation conn: simulation "\<lambda>s. \<exists>token. s = session_control token" "session_move config handler"
    "\<lambda>c. c = (Idle, [])" connection_step connection_of for config and handler :: "'a raw_call"
proof unfold_locales
  fix s s'
  show "\<exists>token. s = session_control token \<Longrightarrow> connection_of s = (Idle, [])"
    by (auto simp: session_control_def connection_of_def)
  show "session_move config handler s s' \<Longrightarrow> connection_step\<^sup>=\<^sup>= (connection_of s) (connection_of s')"
    by (rule connection_simulates)
qed

lemma session_reachable_run:
  "session_reachable config handler s \<Longrightarrow> \<exists>token. (session_move config handler)\<^sup>*\<^sup>* (session_control token) s"
  by (induction rule: session_reachable.induct) (auto intro: rtranclp.rtrancl_into_rtrancl)

lemma session_connection:
  assumes "session_reachable config handler s"
  shows "connection_step\<^sup>*\<^sup>* (Idle, []) (connection_of s)" "connection_ok (connection_of s)"
proof -
  obtain token where t: "(session_move config handler)\<^sup>*\<^sup>* (session_control token) s"
    using session_reachable_run [OF assms] by blast
  have "connection_of (session_control token) = (Idle, [])" by (simp add: session_control_def connection_of_def)
  then show "connection_step\<^sup>*\<^sup>* (Idle, []) (connection_of s)" using conn.simulates_run [OF t] by simp
  show "connection_ok (connection_of s)"
    by (rule conn.transfer [OF _ connection_ok_step _ t]) (auto simp: connection_ok_def)
qed

section \<open>What is written\<close>

definition answer_of :: "'a raw_call \<Rightarrow> request_view \<Rightarrow> 'a \<Rightarrow> response_message" where
  "answer_of handler request a =
     (case fst (invoke_raw_handler handler request a) of Inl e \<Rightarrow> handler_problem request | Inr r \<Rightarrow> r)"

definition request_ok :: "server_config \<Rightarrow> nat \<Rightarrow> request_view \<Rightarrow> bool" where
  "request_ok config token request \<longleftrightarrow>
     length (rv_body request) \<le> sc_body_limit config \<and> rv_stop_token request = Some token"

definition exchange_ok ::
    "server_config \<Rightarrow> 'a raw_call \<Rightarrow> nat \<Rightarrow> request_view option \<times> wire_response \<Rightarrow> bool" where
  "exchange_ok config handler token x = (case fst x of
       None \<Rightarrow> wr_status (snd x) \<in> {400, 405, 413}
     | Some request \<Rightarrow> request_ok config token request \<and>
         (\<exists>a version keep. to_beast_response (answer_of handler request a) version keep = Inr (snd x)))"

fun phase_at :: "session_point \<Rightarrow> session_phase" where
  "phase_at (Await_handler message request) = Handling"
| "phase_at (Await_write keep) = Writing"
| "phase_at _ = Reading"

text \<open>The timeout of the operation a session waits for.\<close>

definition deadline_ok :: "server_config \<Rightarrow> session \<Rightarrow> bool" where
  "deadline_ok config s = (case ss_point s of
       Await_header \<Rightarrow> ss_deadline s = Some (if ss_first s then sc_header_timeout config else sc_idle_timeout config)
     | Await_body head \<Rightarrow> ss_deadline s = Some (sc_body_timeout config)
     | Await_write keep \<Rightarrow> ss_deadline s = Some (sc_write_timeout config)
     | _ \<Rightarrow> True)"

definition session_inv :: "server_config \<Rightarrow> 'a raw_call \<Rightarrow> session \<Rightarrow> bool" where
  "session_inv config handler s \<longleftrightarrow>
     (ss_point s \<noteq> Ended \<longrightarrow> ss_phase s = phase_at (ss_point s)) \<and> deadline_ok config s \<and>
     (\<forall>x \<in> set (ss_exchanges s). exchange_ok config handler (ss_token s) x) \<and>
     (\<forall>message request. ss_point s = Await_handler message request \<longrightarrow> request_ok config (ss_token s) request)"

lemma make_request_parts [simp]:
  "rv_body (make_request m t hs b ka tok) = b" "rv_stop_token (make_request m t hs b ka tok) = tok"
  "rv_keep_alive (make_request m t hs b ka tok) = ka"
  by (simp_all add: make_request_def Let_def)

lemma problem_status [simp]: "rm_status (transport_problem code title detail inst) = code"
  by (simp add: transport_problem_def make_problem_response_def)

lemma unsupported_status: "unsupported_method message = Inr r \<Longrightarrow> rm_status r = Method_not_allowed405"
  by (auto simp: unsupported_method_def set_header_Inr_iff)

lemma respond_inv:
  assumes "\<forall>x \<in> set (ss_exchanges s). exchange_ok config handler (ss_token s) x"
    "\<And>k w. to_beast_response response (mh_version message) k = Inr w \<Longrightarrow>
       exchange_ok config handler (ss_token s) (request, w)"
  shows "session_inv config handler (respond config request message response s)"
  using assms
  by (auto simp: session_inv_def respond_def start_write_def abandon_session_def deadline_ok_def Let_def split: sum.split)

lemma refuse_inv:
  assumes "\<forall>x \<in> set (ss_exchanges s). exchange_ok config handler (ss_token s) x"
    "rm_status response \<in> {Bad_request400, Payload_too_large413}"
  shows "session_inv config handler (refuse config response version s)"
proof (cases "to_beast_response response version False")
  case (Inl e)
  then show ?thesis using assms(1) by (simp add: session_inv_def refuse_def abandon_session_def deadline_ok_def)
next
  case (Inr w)
  then have "exchange_ok config handler (ss_token s) (None, w)"
    using assms(2) by (auto simp: exchange_ok_def to_beast_response_Inr_iff)
  then show ?thesis using assms(1) Inr by (simp add: session_inv_def refuse_def start_write_def deadline_ok_def)
qed

lemma finish_inv:
  "session_inv config handler s \<Longrightarrow> session_inv config handler (finish_session s)"
  "session_inv config handler s \<Longrightarrow> session_inv config handler (abandon_session s)"
  "session_inv config handler s \<Longrightarrow> session_inv config handler (loop_top config s)"
  by (simp_all add: session_inv_def finish_session_def abandon_session_def loop_top_def deadline_ok_def)

lemma header_inv:
  assumes "session_inv config handler s" "ss_point s = Await_header"
  shows "session_inv config handler (header_done config result s)"
proof -
  have e: "\<forall>x \<in> set (ss_exchanges s). exchange_ok config handler (ss_token s) x"
    using assms by (simp add: session_inv_def)
  have r: "session_inv config handler (refuse config response version (s\<lparr>ss_first := False\<rparr>))"
    if "rm_status response \<in> {Bad_request400, Payload_too_large413}" for response version
    using refuse_inv [of "s\<lparr>ss_first := False\<rparr>"] e that by simp
  have f: "session_inv config handler (finish_session (s\<lparr>ss_first := False\<rparr>))"
    using e by (simp add: session_inv_def finish_session_def deadline_ok_def)
  show ?thesis
  proof (cases result)
    case (Inl er)
    then show ?thesis using r [of "header_problem er"] f by (simp add: header_done_def header_problem_def Let_def)
  next
    case (Inr head)
    then show ?thesis using r e assms
      by (simp add: header_done_def Let_def) (auto simp: session_inv_def deadline_ok_def)
  qed
qed

lemma body_inv:
  assumes "session_inv config handler s" "ss_point s = Await_body head" "parser_accepts config result"
  shows "session_inv config handler (body_done config head result s)"
proof (cases result)
  case (Inl e)
  have e: "\<forall>x \<in> set (ss_exchanges s). exchange_ok config handler (ss_token s) x"
    using assms(1) by (simp add: session_inv_def)
  note r = refuse_inv [OF e]
  show ?thesis
    using Inl r [of "body_problem e head"] finish_inv(1) [OF assms(1)] by (simp add: body_done_def body_problem_def Let_def)
next
  case (Inr x)
  obtain hs content where x: "x = (hs, content)" by (cases x)
  let ?m = "head\<lparr>mh_fields := hs\<rparr>"
  obtain r where r: "unsupported_method ?m = Inr r" using unsupported_method_Inr by blast
  show ?thesis
  proof (cases "to_flash_method (mh_verb ?m)")
    case None
    have "exchange_ok config handler (ss_token s) (None, w)" if "to_beast_response r v k = Inr w" for v k w
      using unsupported_status [OF r] that by (simp add: exchange_ok_def to_beast_response_Inr_iff)
    then show ?thesis using None r assms(1) respond_inv [where s = "s\<lparr>ss_phase := Handling\<rparr>" and request = None and config = config and handler = handler]
      by (simp add: body_done_def Inr x Let_def session_inv_def)
  next
    case (Some m)
    then show ?thesis using assms
      by (simp add: body_done_def Inr x Let_def session_inv_def deadline_ok_def request_ok_def parser_accepts_def)
  qed
qed

lemma handler_inv:
  assumes "session_inv config handler s" "ss_point s = Await_handler message request"
  shows "session_inv config handler (handler_done config message request (fst (invoke_raw_handler handler request a)) s)"
proof -
  have "exchange_ok config handler (ss_token s)
      (Some request, w)" if "to_beast_response (answer_of handler request a) v k = Inr w" for v k w
    using assms that by (auto simp: exchange_ok_def session_inv_def)
  then show ?thesis using assms(1) respond_inv [where s = s and request = "Some request" and config = config and handler = handler]
    by (simp add: handler_done_def answer_of_def session_inv_def)
qed

lemma stop_inv:
  assumes "session_inv config handler s"
  shows "session_inv config handler (request_session_stop force s)" "session_inv config handler (run_posted s)"
    "session_inv config handler (s\<lparr>ss_owned := b\<rparr>)"
  using assms by (auto simp: session_inv_def stop_parts deadline_ok_def split: list.split session_point.split)

lemma session_step_inv:
  assumes "session_inv config handler s" "session_step config handler s s'"
  shows "session_inv config handler s'"
  using assms(2)
proof (cases rule: session_step.cases)
  case start
  then show ?thesis using finish_inv(3) [OF assms(1)] by simp
next
  case (header_read result)
  then show ?thesis using header_inv [OF assms(1)] by simp
next
  case (body_read head result)
  then show ?thesis using body_inv [OF assms(1)] by simp
next
  case (handled message request a)
  then show ?thesis using handler_inv [OF assms(1)] by simp
next
  case (written keep error)
  then show ?thesis using finish_inv [OF assms(1)] by (simp add: write_done_def)
next
  case cancelled
  then show ?thesis using finish_inv(2) [OF assms(1)] by simp
qed

lemma session_move_inv:
  assumes "session_inv config handler s" "session_move config handler s s'"
  shows "session_inv config handler s'"
  using assms(2)
proof (cases rule: session_move.cases)
  case own
  then show ?thesis by (rule session_step_inv [OF assms(1)])
qed (simp_all add: stop_inv assms(1))

lemma session_reachable_inv:
  "session_reachable config handler s \<Longrightarrow> session_inv config handler s"
proof (induction rule: session_reachable.induct)
  case (accepted token)
  show ?case by (simp add: session_inv_def session_control_def deadline_ok_def)
qed (rule session_move_inv)

section \<open>Stopping\<close>

text \<open>How many waits are left once the stop flag is set.\<close>

fun session_rank :: "session_point \<Rightarrow> nat" where
  "session_rank Spawned = 1"
| "session_rank Await_header = 4"
| "session_rank (Await_body head) = 3"
| "session_rank (Await_handler message request) = 2"
| "session_rank (Await_write keep) = 1"
| "session_rank Ended = 0"

text \<open>What the parts of the loop do once the flag is set.\<close>

definition winds_down :: "session \<Rightarrow> session \<Rightarrow> bool" where
  "winds_down s s' \<longleftrightarrow> ss_stop s' \<and> session_rank (ss_point s') < session_rank (ss_point s) \<and>
     (ss_exchanges s' = ss_exchanges s \<or>
      (\<exists>x. ss_exchanges s' = ss_exchanges s @ [x] \<and> \<not> wr_keep_alive (snd x) \<and> session_rank (ss_point s') = 1))"

lemma winds_down_finish:
  assumes "ss_stop s" "ss_point s \<noteq> Ended"
  shows "winds_down s (finish_session s)" "winds_down s (abandon_session s)" "winds_down s (loop_top config s)"
    "winds_down s (finish_session (s\<lparr>ss_first := False\<rparr>))"
  using assms by (cases "ss_point s"; simp add: winds_down_def finish_session_def abandon_session_def loop_top_def)+

lemma winds_down_respond:
  assumes "ss_stop s" "1 < session_rank (ss_point s)"
  shows "winds_down s (respond config request message response s)"
    "winds_down s (respond config request message response (s\<lparr>ss_phase := p\<rparr>))"
    "winds_down s (refuse config response version s)"
    "winds_down s (refuse config response version (s\<lparr>ss_first := False\<rparr>))"
  using assms by (auto simp: winds_down_def respond_def refuse_def start_write_def abandon_session_def
      to_beast_response_Inr_iff Let_def split: sum.split)

lemma stopped_step:
  assumes "session_step config handler s s'" "ss_stop s"
  shows "winds_down s s'"
  using assms(1)
proof (cases rule: session_step.cases)
  case (header_read result)
  then show ?thesis using winds_down_finish(4) [OF assms(2)] winds_down_respond(4) [OF assms(2)]
    by (cases result) (auto simp: header_done_def Let_def winds_down_def [of _ "_\<lparr>ss_point := _\<rparr>"] assms(2))
next
  case (body_read head result)
  show ?thesis
  proof (cases result)
    case (Inl e)
    then show ?thesis using body_read winds_down_finish(1) [OF assms(2)] winds_down_respond(3) [OF assms(2)]
      by (simp add: body_done_def)
  next
    case (Inr x)
    obtain hs content where x: "x = (hs, content)" by (cases x)
    obtain r where "unsupported_method (head\<lparr>mh_fields := hs\<rparr>) = Inr r" using unsupported_method_Inr by blast
    then show ?thesis using body_read winds_down_respond(2) [OF assms(2)]
      by (simp add: body_done_def Inr x Let_def winds_down_def [of _ "_\<lparr>ss_point := _\<rparr>"] assms(2) split: option.split)
  qed
next
  case (handled message request a)
  then show ?thesis using winds_down_respond(1) [OF assms(2)] by (simp add: handler_done_def)
qed (use assms(2) winds_down_finish in \<open>simp_all add: write_done_def\<close>)

interpretation stopping: winding_down "session_step config handler" ss_stop "\<lambda>s. session_rank (ss_point s)"
    for config and handler :: "'a raw_call"
  by unfold_locales (auto dest!: stopped_step simp: winds_down_def)

lemma session_step_exists:
  assumes "ss_point s \<noteq> Ended"
  shows "\<exists>s'. session_step config handler s s'"
proof (cases "ss_point s")
  case (Await_body head)
  then show ?thesis using session_step.body_read [of s head config "Inl Eof"] by (auto simp: parser_accepts_def)
qed (use assms in \<open>auto intro: session_step.intros\<close>)

text \<open>Left alone, a session that was told to stop reaches its end.\<close>

lemma stopped_session_alone:
  assumes "ss_stop s"
  shows "\<exists>s'. (session_step config handler)\<^sup>*\<^sup>* s s' \<and> ss_point s' = Ended"
  using stopping.run_ends [OF assms] session_step_exists by metis

text \<open>Runs with the number of steps the session itself took.\<close>

inductive session_run :: "server_config \<Rightarrow> 'a raw_call \<Rightarrow> session \<Rightarrow> nat \<Rightarrow> session \<Rightarrow> bool"
  for config :: server_config and handler :: "'a raw_call" and s :: session where
  none: "session_run config handler s 0 s"
| one: "session_run config handler s n s' \<Longrightarrow> session_step config handler s' s'' \<Longrightarrow>
    session_run config handler s (Suc n) s''"
| other: "session_run config handler s n s' \<Longrightarrow>
    s'' = request_session_stop force s' \<or> s'' = run_posted s' \<or> s'' = s'\<lparr>ss_owned := False\<rparr> \<Longrightarrow>
    session_run config handler s n s''"

lemma other_moves [simp]:
  "ss_point (request_session_stop force s) = ss_point s" "ss_exchanges (request_session_stop force s) = ss_exchanges s"
  "ss_stop (request_session_stop force s)"
  "ss_point (run_posted s) = ss_point s" "ss_exchanges (run_posted s) = ss_exchanges s"
  "ss_stop (run_posted s) = ss_stop s" "ss_phase (run_posted s) = ss_phase s"
  by (simp_all add: stop_parts split: list.split)

lemma stopped_run:
  assumes "session_run config handler s n s'" "ss_stop s"
  shows "ss_stop s' \<and> n + session_rank (ss_point s') \<le> session_rank (ss_point s) \<and>
    (ss_exchanges s' = ss_exchanges s \<or>
     (\<exists>x. ss_exchanges s' = ss_exchanges s @ [x] \<and> \<not> wr_keep_alive (snd x) \<and> session_rank (ss_point s') \<le> 1))"
  using assms(1)
proof (induction rule: session_run.induct)
  case (one n s' s'')
  then have "winds_down s' s''" using stopped_step by blast
  then show ?case using one.IH by (auto simp: winds_down_def)
next
  case (other n s' s'' force)
  from other.hyps(2) other.IH show ?case by (elim disjE) simp_all
qed (simp add: assms(2))

section \<open>Properties\<close>

text \<open>C6. The loop of a session refines the protocol of a persistent connection, in which a connection is idle,
  busy with one request, closing or closed, and a response that closes is the last one: every step of the
  coroutine, every stop request and every posted task is a step of the protocol, or none at all.\<close>

theorem session_refines_connection:
  assumes "session_reachable config handler s"
  shows "connection_step\<^sup>*\<^sup>* (Idle, []) (connection_of s) \<and>
    (\<forall>s'. session_move config handler s s' \<longrightarrow> connection_step\<^sup>=\<^sup>= (connection_of s) (connection_of s'))"
  using session_connection(1) [OF assms] connection_simulates by blast

definition sample_raw_handler :: "unit raw_call" where
  "sample_raw_handler request response a =
     (if rv_path request = ''/bad'' then (Inl (Logic_error ''bad''), response, a)
      else (Inr None, writer_write ''ok'' response, a))"

definition sample_session :: session where
  "sample_session = loop_top (default_config 4) (session_control 3)"

lemma sample_session_reachable: "session_reachable (default_config 4) sample_raw_handler sample_session"
  unfolding sample_session_def
  by (rule session_reachable.moved [OF session_reachable.accepted session_move.own [OF session_step.start]])
    (simp add: session_control_def)

lemma sample_session_parts:
  "ss_point sample_session = Await_header" "ss_stop sample_session = False" "ss_exchanges sample_session = []"
  "ss_token sample_session = 3"
  by (simp_all add: sample_session_def loop_top_def session_control_def)

theorem session_refines_connection_witness:
  "connection_step\<^sup>*\<^sup>* (Idle, []) (connection_of sample_session) \<and>
   connection_step\<^sup>=\<^sup>= (connection_of sample_session)
     (connection_of (header_done (default_config 4) (Inl Beast_timeout) sample_session))"
proof -
  have "ss_point sample_session = Await_header" by (rule sample_session_parts)
  then have "session_move (default_config 4) sample_raw_handler sample_session
      (header_done (default_config 4) (Inl Beast_timeout) sample_session)"
    by (intro session_move.own session_step.header_read)
  with session_refines_connection [OF sample_session_reachable] show ?thesis by blast
qed

text \<open>C10. What a session writes, in every reachable state: a response to a request that reached the handler is
  what the handler returned for it, or a 500 when it threw; any other response is a 400, a 405 or a 413 of
  the server itself; the body of a request is within the limit; nothing follows a response that closes;
  and whenever the session waits on the network, the timeout of that operation is set.\<close>

theorem session_answers:
  assumes "session_reachable config handler s"
  shows "(\<forall>x \<in> set (ss_exchanges s). exchange_ok config handler (ss_token s) x) \<and>
    (\<forall>x \<in> set (butlast (ss_exchanges s)). wr_keep_alive (snd x)) \<and>
    (connection_at (ss_point s) = Idle \<or> (\<exists>r. connection_at (ss_point s) = Busy r) \<longrightarrow>
      (\<forall>x \<in> set (ss_exchanges s). wr_keep_alive (snd x))) \<and>
    deadline_ok config s"
proof -
  have "\<forall>x \<in> set (butlast (map (\<lambda>(r, w). (r, wr_keep_alive w)) (ss_exchanges s))). snd x"
    "connection_at (ss_point s) = Idle \<or> (\<exists>r. connection_at (ss_point s) = Busy r) \<longrightarrow>
      (\<forall>x \<in> set (map (\<lambda>(r, w). (r, wr_keep_alive w)) (ss_exchanges s)). snd x)"
    using session_connection(2) [OF assms] unfolding connection_ok_def by (auto simp: connection_of_def)
  moreover have "butlast (map (\<lambda>(r, w). (r, wr_keep_alive w)) xs) = map (\<lambda>(r, w). (r, wr_keep_alive w)) (butlast xs)"
    for xs :: "(request_view option \<times> wire_response) list" by (simp add: map_butlast)
  ultimately show ?thesis using session_reachable_inv [OF assms] by (simp add: session_inv_def split_beta)
qed

text \<open>A request whose handler throws: the session answers with a 500 and goes on.\<close>

definition sample_head :: message_head where
  "sample_head = \<lparr>mh_verb = Verb_get, mh_target = ''/bad'', mh_version = 11, mh_fields = [], mh_keep_alive = True\<rparr>"

definition sample_answered :: session where
  "sample_answered =
     (let config = default_config 4;
          s1 = body_done config sample_head (Inr ([], [])) (header_done config (Inr sample_head) sample_session)
      in case ss_point s1 of
           Await_handler message request \<Rightarrow>
             write_done config True None
               (handler_done config message request (fst (invoke_raw_handler sample_raw_handler request ())) s1)
         | _ \<Rightarrow> s1)"

theorem session_answers_witness:
  "connection_at (ss_point sample_answered) = Idle \<and> map (wr_status \<circ> snd) (ss_exchanges sample_answered) = [500] \<and>
   map (wr_keep_alive \<circ> snd) (ss_exchanges sample_answered) = [True]"
proof -
  let ?c = "default_config 4"
  let ?s1 = "header_done ?c (Inr sample_head) sample_session"
  let ?s2 = "body_done ?c sample_head (Inr ([], [])) ?s1"
  let ?r = "make_request Get ''/bad'' [] [] True (Some 3)"
  let ?s3 = "handler_done ?c sample_head ?r (fst (invoke_raw_handler sample_raw_handler ?r ())) ?s2"
  have handled: "fst (invoke_raw_handler sample_raw_handler ?r ()) = Inl (Logic_error ''bad'')"
    by (simp add: invoke_raw_handler_def sample_raw_handler_def make_request_def str_find_def before_index_def)
  have k: "mh_keep_alive sample_head" "mh_verb sample_head = Verb_get" "mh_target sample_head = ''/bad''"
      "mh_fields sample_head = []" "sample_head\<lparr>mh_fields := []\<rparr> = sample_head"
    by (simp_all add: sample_head_def)
  have s1: "?s1 = sample_session\<lparr>ss_first := False, ss_deadline := Some (sc_body_timeout ?c), ss_cancelled := False,
      ss_point := Await_body sample_head\<rparr>"
    by (simp add: header_done_def k Let_def)
  have s2: "?s2 = ?s1\<lparr>ss_phase := Handling, ss_point := Await_handler sample_head ?r\<rparr>"
    by (simp add: body_done_def k to_flash_method_def s1 sample_session_parts Let_def)
  have st: "\<not> ss_stop ?s2" and ex: "ss_exchanges ?s2 = []" unfolding s2 unfolding s1 by (simp_all add: sample_session_parts)
  have w: "rm_keep_alive (handler_problem ?r)" "rm_status (handler_problem ?r) = Internal_server_error500"
    by (simp_all add: handler_problem_def transport_problem_def make_problem_response_def default_response_def)
  obtain x where x: "to_beast_response (handler_problem ?r) (mh_version sample_head) True = Inr x"
    using to_beast_response_sent w(2) by (metis status.distinct)
  have s3: "?s3 = start_write ?c (Some ?r) x True ?s2"
    using st by (simp add: handled handler_done_def respond_def k w x Let_def)
  have p: "ss_point sample_session = Await_header" "ss_point ?s1 = Await_body sample_head"
    "ss_point ?s3 = Await_write True"
    unfolding s3 unfolding s1 by (simp_all add: sample_session_parts start_write_def)
  have p3: "ss_point ?s2 = Await_handler sample_head ?r" unfolding s2 by simp
  have "session_reachable ?c sample_raw_handler ?s1"
    by (rule session_reachable.moved [OF sample_session_reachable
        session_move.own [OF session_step.header_read [OF p(1)]]])
  then have "session_reachable ?c sample_raw_handler ?s2"
    by (rule session_reachable.moved) (rule session_move.own, rule session_step.body_read [OF p(2)], simp add: parser_accepts_def)
  then have "session_reachable ?c sample_raw_handler ?s3"
    by (rule session_reachable.moved) (rule session_move.own, rule session_step.handled [OF p3])
  then have "session_reachable ?c sample_raw_handler (write_done ?c True None ?s3)"
    by (rule session_reachable.moved) (rule session_move.own, rule session_step.written [OF p(3)])
  moreover have a: "sample_answered = write_done ?c True None ?s3" by (simp add: sample_answered_def Let_def p3)
  ultimately have r: "session_reachable ?c sample_raw_handler sample_answered" by simp
  have v: "connection_at (ss_point sample_answered) = Idle" "map (wr_status \<circ> snd) (ss_exchanges sample_answered) = [500]"
    unfolding a s3 using st ex x by (simp_all add: write_done_def loop_top_def start_write_def to_beast_response_Inr_iff w)
  have "\<forall>x \<in> set (ss_exchanges sample_answered). wr_keep_alive (snd x)" using session_answers [OF r] v(1) by blast
  then show ?thesis using v by (auto simp: map_eq_Cons_conv)
qed

text \<open>C16. A session that was told to stop ends: whatever it was doing and however the requests of the server
  and the answers of the network interleave, it takes at most four more steps, writes at most one more
  response, which closes the connection, and it never gets stuck before it has ended.\<close>

theorem stopped_session_ends:
  assumes "ss_stop s" "session_run config handler s n s'"
  shows "n \<le> 4 \<and>
    (ss_exchanges s' = ss_exchanges s \<or> (\<exists>x. ss_exchanges s' = ss_exchanges s @ [x] \<and> \<not> wr_keep_alive (snd x))) \<and>
    (ss_point s' = Ended \<or> (\<exists>s''. session_step config handler s' s''))"
proof -
  have "session_rank (ss_point s) \<le> 4" by (cases "ss_point s") simp_all
  then show ?thesis using stopped_run [OF assms(2,1)] session_step_exists [of s' config handler] by fastforce
qed

text \<open>A graceful stop reaches a session that reads a body: the operation is cancelled, and the session answers
  with a 400, although nothing was malformed.\<close>

lemma stop_during_body_answers_400:
  assumes "ss_point s = Await_body head" "ss_phase s = Reading" "ss_posted s = []"
  defines "s1 \<equiv> run_posted (request_session_stop False s)"
  shows "ss_cancelled s1" "\<exists>w. to_beast_response (transport_problem Bad_request400 ''Malformed HTTP request body''
      ''The request body could not be parsed.'' (mh_target head)) (mh_version head) False = Inr w \<and>
    ss_exchanges (body_done config head (Inl Operation_aborted) s1) = ss_exchanges s @ [(None, w)]"
proof -
  obtain w where w: "to_beast_response (transport_problem Bad_request400 ''Malformed HTTP request body''
      ''The request body could not be parsed.'' (mh_target head)) (mh_version head) False = Inr w"
    using to_beast_response_sent [of "transport_problem Bad_request400 ''Malformed HTTP request body''
      ''The request body could not be parsed.'' (mh_target head)"] by auto
  show "ss_cancelled s1" using assms by (simp add: stop_parts)
  show "\<exists>w. to_beast_response (transport_problem Bad_request400 ''Malformed HTTP request body''
      ''The request body could not be parsed.'' (mh_target head)) (mh_version head) False = Inr w \<and>
    ss_exchanges (body_done config head (Inl Operation_aborted) s1) = ss_exchanges s @ [(None, w)]"
    using assms w by (simp add: stop_parts body_done_def body_problem_def is_timeout_error_def refuse_def start_write_def)
qed

text \<open>A handler that answers 204 with a body, as \<open>response<Body>\<close> and the raw writer allow: the exception of
  \<open>prepare_payload\<close> leaves the loop, and the connection ends without an answer.\<close>

lemma no_content_with_body_unanswered:
  assumes "rm_status r = No_content204" "rm_body r \<noteq> []"
  shows "handler_done config message request (Inr r) s = abandon_session s"
    "ss_exchanges (handler_done config message request (Inr r) s) = ss_exchanges s"
  using assms by (simp_all add: handler_done_def respond_def to_beast_response_def prepare_payload_def abandon_session_def Let_def)

theorem stopped_session_ends_witness:
  "session_run (default_config 4) sample_raw_handler (request_session_stop False sample_session) 1
     (finish_session ((request_session_stop False sample_session)\<lparr>ss_first := False\<rparr>)) \<and> (1::nat) \<le> 4"
proof -
  let ?s = "request_session_stop False sample_session"
  have p: "ss_point ?s = Await_header" by (simp add: sample_session_parts)
  have "header_done (default_config 4) (Inl Operation_aborted) ?s = finish_session (?s\<lparr>ss_first := False\<rparr>)"
    by (simp add: header_done_def)
  moreover have "session_step (default_config 4) sample_raw_handler ?s
      (header_done (default_config 4) (Inl Operation_aborted) ?s)"
    by (rule session_step.header_read [OF p])
  ultimately have r: "session_run (default_config 4) sample_raw_handler ?s 1 (finish_session (?s\<lparr>ss_first := False\<rparr>))"
    using session_run.one [OF session_run.none] by (metis One_nat_def)
  from r stopped_session_ends [OF _ r] show ?thesis by simp
qed

end
