(* ===== verification/Flash_Server_Inv.thy ===== *)
theory Flash_Server_Inv
  imports Flash_Server Flash_Session_Props
begin

text \<open>
  The invariants of the server: which sessions it knows and how it counts them, when it may be stopping, that
  one accept loop runs, and when the shutdown timer is armed. Each is a definition with its preservation by
  the operations; \<open>server_inv\<close> collects them.
\<close>

section \<open>Updates of the operations\<close>

lemma post_control_simps [simp]:
  "sv_queue (post_control t sv) = sv_queue sv @ [t]" "sv_sessions (post_control t sv) = sv_sessions sv"
  "sv_controls (post_control t sv) = sv_controls sv" "sv_active (post_control t sv) = sv_active sv"
  "sv_timer (post_control t sv) = sv_timer sv" "sv_stopping (post_control t sv) = sv_stopping sv"
  "sv_started (post_control t sv) = sv_started sv" "sv_spawned (post_control t sv) = sv_spawned sv"
  "sv_stop_pending (post_control t sv) = sv_stop_pending sv" "sv_accepting (post_control t sv) = sv_accepting sv"
  "sv_acceptor_open (post_control t sv) = sv_acceptor_open sv" "sv_config (post_control t sv) = sv_config sv"
  "sv_running_workers (post_control t sv) = sv_running_workers sv"
  "sv_context_stopped (post_control t sv) = sv_context_stopped sv"
  by (simp_all add: post_control_def)

lemma length_stop_sessions [simp]: "length (stop_sessions force is controls) = length controls"
  by (induction force "is" controls rule: stop_sessions.induct) simp_all

lemma nth_stop_sessions:
  "distinct is \<Longrightarrow> j < length controls \<Longrightarrow>
   stop_sessions force is controls ! j =
     (if j \<in> set is then request_session_stop force (controls ! j) else controls ! j)"
proof (induction force "is" controls rule: stop_sessions.induct)
  case (2 force i "is" controls)
  then show ?case by (cases "i = j") auto
qed simp

lemma request_session_stop_simps [simp]:
  "ss_owned (request_session_stop force s) = ss_owned s" "ss_token (request_session_stop force s) = ss_token s"
  by (simp_all add: request_session_stop_def)

lemma run_posted_simps [simp]: "ss_owned (run_posted s) = ss_owned s" "ss_token (run_posted s) = ss_token s"
  by (simp_all add: stop_parts split: list.split)

lemma session_moved_simps [simp]:
  "sv_controls (session_moved i s sv) = (sv_controls sv)[i := s]" "sv_sessions (session_moved i s sv) = sv_sessions sv"
  "sv_queue (session_moved i s sv) = sv_queue sv @ (if ss_point s = Ended then [T_session_complete i] else [])"
  "sv_stopping (session_moved i s sv) = sv_stopping sv" "sv_started (session_moved i s sv) = sv_started sv"
  "sv_spawned (session_moved i s sv) = sv_spawned sv" "sv_stop_pending (session_moved i s sv) = sv_stop_pending sv"
  "sv_accepting (session_moved i s sv) = sv_accepting sv" "sv_timer (session_moved i s sv) = sv_timer sv"
  "sv_acceptor_open (session_moved i s sv) = sv_acceptor_open sv" "sv_config (session_moved i s sv) = sv_config sv"
  "sv_active (session_moved i s sv) = sv_active sv"
  "sv_running_workers (session_moved i s sv) = sv_running_workers sv"
  "sv_context_stopped (session_moved i s sv) = sv_context_stopped sv"
  by (simp_all add: session_moved_def Let_def)

lemma session_step_parts:
  assumes "session_step config handler s s'"
  shows "ss_owned s' = ss_owned s" "ss_token s' = ss_token s" "ss_stop s' = ss_stop s" "ss_posted s' = ss_posted s"
    "ss_point s \<noteq> Ended"
  using assms by (cases rule: session_step.cases;
    auto simp: segments split: sum.splits option.splits prod.splits)+

section \<open>Sessions\<close>

definition ended_session :: "server \<Rightarrow> nat \<Rightarrow> bool" where
  "ended_session sv i \<longleftrightarrow> i < length (sv_controls sv) \<and> ss_owned (sv_controls sv ! i) \<and>
     ss_point (sv_controls sv ! i) = Ended"

definition sessions_inv :: "server \<Rightarrow> bool" where
  "sessions_inv sv \<longleftrightarrow> distinct (sv_sessions sv) \<and>
     (\<forall>i. i \<in> set (sv_sessions sv) \<longleftrightarrow> i < length (sv_controls sv) \<and> ss_owned (sv_controls sv ! i)) \<and>
     sv_active sv = of_nat (length (sv_sessions sv)) \<and>
     (\<forall>i. count_list (sv_queue sv) (T_session_complete i) = (if ended_session sv i then 1 else 0)) \<and>
     (\<forall>i < length (sv_controls sv). ss_owned (sv_controls sv ! i) \<or> ss_point (sv_controls sv ! i) = Ended)"

lemma snapshot_sessions:
  assumes "sessions_inv sv"
  shows "session_snapshot sv = sv_sessions sv"
  using assms by (auto simp: session_snapshot_def lock_session_def sessions_inv_def intro: filter_True)

lemma lock_session_open: "lock_session (sv\<lparr>sv_acceptor_open := b\<rparr>) i = lock_session sv i"
  by (simp add: lock_session_def)

text \<open>Only the number of each session, who owns it and where it is matter.\<close>

lemma sessions_inv_controls:
  assumes "sessions_inv sv" "length controls = length (sv_controls sv)"
    "\<And>i. i < length controls \<Longrightarrow> ss_owned (controls ! i) = ss_owned (sv_controls sv ! i) \<and>
       ss_point (controls ! i) = ss_point (sv_controls sv ! i)"
    "sv_controls sv' = controls" "sv_sessions sv' = sv_sessions sv" "sv_active sv' = sv_active sv"
    "\<And>i. count_list (sv_queue sv') (T_session_complete i) = count_list (sv_queue sv) (T_session_complete i)"
  shows "sessions_inv sv'"
proof -
  have "i < length controls \<and> ss_owned (controls ! i) \<longleftrightarrow> i < length (sv_controls sv) \<and> ss_owned (sv_controls sv ! i)"
    "ended_session sv' i = ended_session sv i" for i
    using assms(2-4) by (auto simp: ended_session_def)
  moreover have "\<forall>i < length controls. ss_owned (controls ! i) \<or> ss_point (controls ! i) = Ended"
    using assms(1-3) by (simp add: sessions_inv_def)
  ultimately show ?thesis using assms(1,2,4-7) by (simp add: sessions_inv_def)
qed

lemma sessions_inv_same:
  assumes "sessions_inv sv" "sv_controls sv' = sv_controls sv" "sv_sessions sv' = sv_sessions sv"
    "sv_active sv' = sv_active sv"
    "\<And>i. count_list (sv_queue sv') (T_session_complete i) = count_list (sv_queue sv) (T_session_complete i)"
  shows "sessions_inv sv'"
  by (rule sessions_inv_controls [OF assms(1) refl _ assms(2-5)]) simp

lemma sessions_inv_accept:
  assumes "sessions_inv sv"
  shows "sessions_inv (accepted_task error sv)"
proof (cases "error = None \<and> sv_acceptor_open sv")
  case True
  let ?sv = "accepted_task error sv" and ?n = "length (sv_controls sv)"
  have c: "sv_controls ?sv = sv_controls sv @ [session_control ?n]" "sv_sessions ?sv = sv_sessions sv @ [?n]"
    "sv_active ?sv = sv_active sv + 1" "sv_queue ?sv = sv_queue sv"
    using True by (simp_all add: accepted_task_def accept_next_def Let_def)
  have new: "ss_owned (session_control ?n)" "ss_point (session_control ?n) \<noteq> Ended"
    by (simp_all add: session_control_def)
  have "ended_session ?sv i = ended_session sv i" for i
    using new by (auto simp: ended_session_def c nth_append less_Suc_eq)
  moreover have "?n \<notin> set (sv_sessions sv)" using assms by (simp add: sessions_inv_def)
  ultimately show ?thesis using assms new
    by (auto simp: sessions_inv_def c nth_append less_Suc_eq)
next
  case False
  then have "accepted_task error sv = sv \<or> accepted_task error sv = accept_next sv"
    by (auto simp: accepted_task_def)
  then show ?thesis using sessions_inv_same [OF assms, of "accept_next sv"] assms by (auto simp: accept_next_def)
qed

lemma sessions_inv_stop:
  assumes "sessions_inv sv"
  shows "sessions_inv (begin_stop sv)" "sessions_inv (force_stop sv)"
proof -
  have s: "session_snapshot (sv\<lparr>sv_acceptor_open := False\<rparr>) = sv_sessions sv"
    using snapshot_sessions [OF assms] by (simp add: session_snapshot_def lock_session_open)
  have d: "distinct (sv_sessions sv)" using assms by (simp add: sessions_inv_def)
  show "sessions_inv (begin_stop sv)"
    by (rule sessions_inv_controls [OF assms, of "stop_sessions False (sv_sessions sv) (sv_controls sv)"])
      (simp_all add: begin_stop_def Let_def s nth_stop_sessions [OF d])
  show "sessions_inv (force_stop sv)"
    by (rule sessions_inv_controls [OF assms, of "stop_sessions True (sv_sessions sv) (sv_controls sv)"])
      (simp_all add: force_stop_def Let_def snapshot_sessions [OF assms] nth_stop_sessions [OF d])
qed

lemma length_filter_one:
  "distinct xs \<Longrightarrow> i \<in> set xs \<Longrightarrow> length (filter (\<lambda>j. j \<noteq> i) xs) + 1 = length xs"
proof (induction xs)
  case (Cons x xs)
  have "filter (\<lambda>j. j \<noteq> i) xs = xs" if "i \<notin> set xs" using that by (intro filter_True) auto
  then show ?case using Cons by auto
qed simp

lemma cancel_timer_simps [simp]:
  "sv_controls (cancel_timer sv) = sv_controls sv" "sv_sessions (cancel_timer sv) = sv_sessions sv"
  "sv_active (cancel_timer sv) = sv_active sv" "sv_stopping (cancel_timer sv) = sv_stopping sv"
  "sv_timer (cancel_timer sv) = None" "sv_acceptor_open (cancel_timer sv) = sv_acceptor_open sv"
  "sv_started (cancel_timer sv) = sv_started sv" "sv_spawned (cancel_timer sv) = sv_spawned sv"
  "sv_stop_pending (cancel_timer sv) = sv_stop_pending sv" "sv_accepting (cancel_timer sv) = sv_accepting sv"
  "sv_config (cancel_timer sv) = sv_config sv" "sv_running_workers (cancel_timer sv) = sv_running_workers sv"
  "sv_context_stopped (cancel_timer sv) = sv_context_stopped sv"
  "sv_queue (cancel_timer sv) = sv_queue sv @ (case sv_timer sv of None \<Rightarrow> [] | Some k \<Rightarrow> [T_timer k True])"
  by (simp_all add: cancel_timer_def split: option.split)

lemma snapshot_queue [simp]: "session_snapshot (sv\<lparr>sv_queue := ts\<rparr>) = session_snapshot sv"
  by (simp add: session_snapshot_def lock_session_def)

lemma session_task_simps:
  fixes sv :: server and i :: nat
  assumes "session_snapshot sv = sv_sessions sv"
  defines "left \<equiv> filter (\<lambda>j. j \<noteq> i) (sv_sessions sv)"
  shows "sv_sessions (session_task i sv) = left"
    "sv_controls (session_task i sv) = (sv_controls sv)[i := (sv_controls sv ! i)\<lparr>ss_owned := False\<rparr>]"
    "sv_active (session_task i sv) = sv_active sv - 1"
    "sv_timer (session_task i sv) = (if sv_stopping sv \<and> left = [] then None else sv_timer sv)"
    "sv_stopping (session_task i sv) = sv_stopping sv" "sv_acceptor_open (session_task i sv) = sv_acceptor_open sv"
    "sv_started (session_task i sv) = sv_started sv" "sv_spawned (session_task i sv) = sv_spawned sv"
    "sv_stop_pending (session_task i sv) = sv_stop_pending sv" "sv_accepting (session_task i sv) = sv_accepting sv"
    "sv_config (session_task i sv) = sv_config sv"
    "sv_running_workers (session_task i sv) = sv_running_workers sv"
    "sv_context_stopped (session_task i sv) = sv_context_stopped sv"
proof -
  have f: "filter (\<lambda>j. \<not> (lock_session sv j = None \<or> j = i)) (sv_sessions sv) = left"
    using assms(1) unfolding left_def session_snapshot_def filter_id_conv by (intro filter_cong) auto
  show "sv_sessions (session_task i sv) = left"
    "sv_controls (session_task i sv) = (sv_controls sv)[i := (sv_controls sv ! i)\<lparr>ss_owned := False\<rparr>]"
    "sv_active (session_task i sv) = sv_active sv - 1"
    "sv_timer (session_task i sv) = (if sv_stopping sv \<and> left = [] then None else sv_timer sv)"
    "sv_stopping (session_task i sv) = sv_stopping sv" "sv_acceptor_open (session_task i sv) = sv_acceptor_open sv"
    "sv_started (session_task i sv) = sv_started sv" "sv_spawned (session_task i sv) = sv_spawned sv"
    "sv_stop_pending (session_task i sv) = sv_stop_pending sv" "sv_accepting (session_task i sv) = sv_accepting sv"
    "sv_config (session_task i sv) = sv_config sv"
    "sv_running_workers (session_task i sv) = sv_running_workers sv"
    "sv_context_stopped (session_task i sv) = sv_context_stopped sv"
    unfolding session_task_def session_complete_def f by (simp_all add: Let_def)
qed

text \<open>It enqueues at most the end of the timer.\<close>

lemma session_task_queue:
  obtains extra where "sv_queue (session_task i sv) = sv_queue sv @ extra"
    "extra = [] \<or> (\<exists>k. sv_timer sv = Some k \<and> extra = [T_timer k True])"
  by (rule that [of "drop (length (sv_queue sv)) (sv_queue (session_task i sv))"])
    (simp_all add: session_task_def session_complete_def Let_def split: option.split)

text \<open>The completion of a session is run once, and gives the counter back what \<open>accept\<close> added.\<close>

lemma sessions_inv_complete:
  assumes "sessions_inv sv" "sv_queue sv = T_session_complete i # ts"
  shows "sessions_inv (session_task i (sv\<lparr>sv_queue := ts\<rparr>))"
proof -
  let ?u = "sv\<lparr>sv_queue := ts\<rparr>"
  have c: "(if j = i then 1 else 0) + count_list ts (T_session_complete j) = (if ended_session sv j then 1 else 0)" for j
  proof -
    have "count_list (sv_queue sv) (T_session_complete j) = (if ended_session sv j then 1 else 0)"
      using assms(1) by (simp add: sessions_inv_def)
    then show ?thesis using assms(2) by (simp split: if_splits)
  qed
  have e: "ended_session sv i" and ts: "count_list ts (T_session_complete i) = 0"
    using c [of i] by (simp_all split: if_splits)
  have ts': "count_list ts (T_session_complete j) = (if ended_session sv j then 1 else 0)" if "j \<noteq> i" for j
    using c [of j] that by simp
  have i: "i < length (sv_controls sv)" "i \<in> set (sv_sessions sv)"
    using e assms(1) by (auto simp: ended_session_def sessions_inv_def)
  let ?v = "session_task i ?u"
  have snap: "session_snapshot ?u = sv_sessions ?u" using snapshot_sessions [OF assms(1)] by simp
  note parts = session_task_simps [OF snap, of i]
  have q: "count_list (sv_queue ?v) (T_session_complete j) = count_list ts (T_session_complete j)" for j
    by (rule session_task_queue [of i ?u]) auto
  have "length (filter (\<lambda>j. j \<noteq> i) (sv_sessions sv)) + 1 = length (sv_sessions sv)"
    using i(2) assms(1) by (intro length_filter_one) (simp_all add: sessions_inv_def)
  then have a: "sv_active sv - 1 = of_nat (length (filter (\<lambda>j. j \<noteq> i) (sv_sessions sv)))"
    using assms(1) by (metis add_diff_cancel_right' of_nat_1 of_nat_add sessions_inv_def)
  have ended: "ended_session ?v j \<longleftrightarrow> j \<noteq> i \<and> ended_session sv j" for j
    using i(1) by (auto simp: ended_session_def parts(2) nth_list_update)
  have "count_list (sv_queue ?v) (T_session_complete j) = (if ended_session ?v j then 1 else 0)" for j
    using ts ts' by (cases "j = i") (simp_all add: q ended)
  moreover have "j \<in> set (sv_sessions ?v) \<longleftrightarrow> j < length (sv_controls ?v) \<and> ss_owned (sv_controls ?v ! j)" for j
    using assms(1) i(1) by (cases "j = i") (simp_all add: parts(1,2) sessions_inv_def)
  moreover have "ss_owned (sv_controls ?v ! j) \<or> ss_point (sv_controls ?v ! j) = Ended" if "j < length (sv_controls ?v)" for j
    using assms(1) e that by (cases "j = i") (simp_all add: parts(2) sessions_inv_def ended_session_def)
  moreover have "distinct (sv_sessions ?v)" "sv_active ?v = of_nat (length (sv_sessions ?v))"
    using assms(1) a by (simp_all add: parts(1,3) sessions_inv_def)
  ultimately show ?thesis unfolding sessions_inv_def by blast
qed

lemma sessions_inv_moved:
  assumes "sessions_inv sv" "i < length (sv_controls sv)" "session_step config handler (sv_controls sv ! i) s"
  shows "sessions_inv (session_moved i s sv)"
proof -
  note p = session_step_parts [OF assms(3)]
  let ?v = "session_moved i s sv"
  have c: "sv_controls ?v = (sv_controls sv)[i := s]" "sv_sessions ?v = sv_sessions sv" "sv_active ?v = sv_active sv"
    "\<And>j. count_list (sv_queue ?v) (T_session_complete j) =
       count_list (sv_queue sv) (T_session_complete j) + (if j = i \<and> ss_point s = Ended then 1 else 0)"
    by (auto simp: session_moved_def Let_def)
  have o: "ss_owned (sv_controls sv ! i)" using assms(1,2) p(5) by (auto simp: sessions_inv_def)
  have ended: "ended_session ?v j = (if j = i then ss_point s = Ended else ended_session sv j)" for j
    using assms(2) o p(1) by (simp add: ended_session_def c(1))
  have "\<not> ended_session sv i" using p(5) by (simp add: ended_session_def)
  then have "count_list (sv_queue ?v) (T_session_complete j) = (if ended_session ?v j then 1 else 0)" for j
    using assms(1) by (cases "j = i") (simp_all add: c(4) ended sessions_inv_def)
  moreover have "j \<in> set (sv_sessions ?v) \<longleftrightarrow> j < length (sv_controls ?v) \<and> ss_owned (sv_controls ?v ! j)" for j
    using assms(1,2) o p(1) by (cases "j = i") (simp_all add: c(1,2) sessions_inv_def)
  moreover have "ss_owned (sv_controls ?v ! j) \<or> ss_point (sv_controls ?v ! j) = Ended" if "j < length (sv_controls ?v)" for j
    using assms(1) o p(1) that by (cases "j = i") (simp_all add: c(1) sessions_inv_def)
  moreover have "distinct (sv_sessions ?v)" "sv_active ?v = of_nat (length (sv_sessions ?v))"
    using assms(1) by (simp_all add: c(2,3) sessions_inv_def)
  ultimately show ?thesis unfolding sessions_inv_def by blast
qed

lemma sessions_inv_queue:
  assumes "sessions_inv sv" "sv_queue sv = t # ts" "\<And>i. t \<noteq> T_session_complete i"
  shows "sessions_inv (sv\<lparr>sv_queue := ts\<rparr>)"
  by (rule sessions_inv_same [OF assms(1)]) (use assms(2,3) in \<open>auto split: if_splits\<close>)

lemma sessions_inv_task:
  assumes "sessions_inv sv" "sv_queue sv = t # ts"
  shows "sessions_inv (run_task t (sv\<lparr>sv_queue := ts\<rparr>))"
proof (cases "\<exists>i. t = T_session_complete i")
  case True
  then show ?thesis using sessions_inv_complete [OF assms(1)] assms(2) by auto
next
  case False
  then have q: "sessions_inv (sv\<lparr>sv_queue := ts\<rparr>)" using sessions_inv_queue [OF assms] by blast
  have n: "sessions_inv (accept_next (sv\<lparr>sv_queue := ts\<rparr>))"
    "sessions_inv (sv\<lparr>sv_queue := ts, sv_context_stopped := True\<rparr>)"
    by (rule sessions_inv_same [OF q]; simp add: accept_next_def)+
  show ?thesis using False q n sessions_inv_stop [OF q] sessions_inv_accept [OF q]
    by (cases t) (auto simp: timer_task_def split: shutdown_timer.split)
qed

lemma sessions_inv_step:
  assumes "server_step handler sv sv'" "sessions_inv sv"
  shows "sessions_inv sv'"
  using assms(1)
proof (cases rule: server_step.cases)
  case (control t ts)
  then show ?thesis using sessions_inv_task assms(2) by simp
next
  case (session i s)
  then show ?thesis using sessions_inv_moved assms(2) by simp
next
  case (session_post i)
  have "ss_owned ((sv_controls sv)[i := run_posted (sv_controls sv ! i)] ! j) = ss_owned (sv_controls sv ! j) \<and>
      ss_point ((sv_controls sv)[i := run_posted (sv_controls sv ! i)] ! j) = ss_point (sv_controls sv ! j)" for j
    using session_post(3) by (cases "j = i") simp_all
  then show ?thesis unfolding session_post(1) by (intro sessions_inv_controls [OF assms(2)]) simp_all
qed (rule sessions_inv_same [OF assms(2)];
    auto simp: start_flag_def start_spawn_def stop_flag_def stop_post_def split: if_splits)+

section \<open>Stopping\<close>

text \<open>\<open>begin_stop\<close> is on its way exactly once; after it every session that has not ended was told to stop.\<close>

definition stopping_inv :: "server \<Rightarrow> bool" where
  "stopping_inv sv \<longleftrightarrow> (sv_stopping sv \<or> sv_spawned sv \<longrightarrow> sv_started sv) \<and>
     count_list (sv_queue sv) T_begin_stop + of_bool (sv_stop_pending sv) + of_bool (\<not> sv_acceptor_open sv) =
       (of_bool (sv_stopping sv) :: nat) \<and>
     (\<not> sv_acceptor_open sv \<longrightarrow> (\<forall>s \<in> set (sv_controls sv). ss_point s \<noteq> Ended \<longrightarrow> ss_stop s))"

lemma stop_simps [simp]:
  "sv_queue (begin_stop sv) = sv_queue sv" "sv_stopping (begin_stop sv) = sv_stopping sv"
  "sv_started (begin_stop sv) = sv_started sv" "sv_spawned (begin_stop sv) = sv_spawned sv"
  "sv_stop_pending (begin_stop sv) = sv_stop_pending sv" "sv_accepting (begin_stop sv) = sv_accepting sv"
  "\<not> sv_acceptor_open (begin_stop sv)" "sv_sessions (begin_stop sv) = sv_sessions sv"
  "sv_config (begin_stop sv) = sv_config sv" "sv_running_workers (begin_stop sv) = sv_running_workers sv"
  "sv_context_stopped (begin_stop sv) = sv_context_stopped sv"
  "sv_queue (force_stop sv) = sv_queue sv" "sv_stopping (force_stop sv) = sv_stopping sv"
  "sv_started (force_stop sv) = sv_started sv" "sv_spawned (force_stop sv) = sv_spawned sv"
  "sv_stop_pending (force_stop sv) = sv_stop_pending sv" "sv_accepting (force_stop sv) = sv_accepting sv"
  "sv_acceptor_open (force_stop sv) = sv_acceptor_open sv" "sv_sessions (force_stop sv) = sv_sessions sv"
  "sv_config (force_stop sv) = sv_config sv" "sv_running_workers (force_stop sv) = sv_running_workers sv"
  "sv_context_stopped (force_stop sv) = sv_context_stopped sv"
  by (simp_all add: begin_stop_def force_stop_def Let_def)

lemma begin_stop_controls:
  assumes "sessions_inv sv"
  shows "sv_controls (begin_stop sv) = stop_sessions False (sv_sessions sv) (sv_controls sv)"
    "sv_timer (begin_stop sv) = (if sv_sessions sv = [] then sv_timer sv else Some Graceful)"
    "sv_controls (force_stop sv) = stop_sessions True (sv_sessions sv) (sv_controls sv)"
    "sv_timer (force_stop sv) = (if sv_sessions sv = [] then sv_timer sv else Some Forced)"
proof -
  have "session_snapshot (sv\<lparr>sv_acceptor_open := False\<rparr>) = sv_sessions sv"
    using snapshot_sessions [OF assms] by (simp add: session_snapshot_def lock_session_open)
  then show "sv_controls (begin_stop sv) = stop_sessions False (sv_sessions sv) (sv_controls sv)"
    "sv_timer (begin_stop sv) = (if sv_sessions sv = [] then sv_timer sv else Some Graceful)"
    "sv_controls (force_stop sv) = stop_sessions True (sv_sessions sv) (sv_controls sv)"
    "sv_timer (force_stop sv) = (if sv_sessions sv = [] then sv_timer sv else Some Forced)"
    using snapshot_sessions [OF assms] by (simp_all add: begin_stop_def force_stop_def Let_def)
qed

lemma told_to_stop:
  assumes "sessions_inv sv" "s \<in> set (stop_sessions force (sv_sessions sv) (sv_controls sv))" "ss_point s \<noteq> Ended"
  shows "ss_stop s"
proof -
  have d: "distinct (sv_sessions sv)" using assms(1) by (simp add: sessions_inv_def)
  obtain j where j: "j < length (sv_controls sv)" "s = stop_sessions force (sv_sessions sv) (sv_controls sv) ! j"
    using assms(2) by (auto simp: in_set_conv_nth)
  have "j \<in> set (sv_sessions sv)"
    using assms(1,3) j nth_stop_sessions [OF d j(1), of force]
    by (auto simp: sessions_inv_def split: if_splits)
  then show ?thesis using j nth_stop_sessions [OF d j(1), of force] by simp
qed

lemma set_list_updateD: "x \<in> set (xs[i := y]) \<Longrightarrow> x = y \<or> x \<in> set xs"
  using set_update_subset_insert by fastforce

lemma stopping_inv_controls:
  assumes "stopping_inv sv" "\<And>s. s \<in> set (sv_controls sv') \<Longrightarrow> ss_point s \<noteq> Ended \<Longrightarrow> \<not> sv_acceptor_open sv \<Longrightarrow>
      \<exists>s0 \<in> set (sv_controls sv). ss_point s0 \<noteq> Ended \<and> (ss_stop s0 \<longrightarrow> ss_stop s)"
    "count_list (sv_queue sv') T_begin_stop = count_list (sv_queue sv) T_begin_stop"
    "sv_stop_pending sv' = sv_stop_pending sv" "sv_acceptor_open sv' = sv_acceptor_open sv"
    "sv_stopping sv' = sv_stopping sv" "sv_spawned sv' = sv_spawned sv" "sv_started sv' = sv_started sv"
  shows "stopping_inv sv'"
  using assms(1,2) unfolding stopping_inv_def assms(3-8) by blast

lemma task_snapshot:
  "sessions_inv sv \<Longrightarrow> session_snapshot (sv\<lparr>sv_queue := ts\<rparr>) = sv_sessions (sv\<lparr>sv_queue := ts\<rparr>)"
  using snapshot_sessions by simp

text \<open>The queue of a task that is neither the begin of the stop nor the end of a session.\<close>

lemma accepted_task_simps [simp]:
  "sv_queue (accepted_task error sv) = sv_queue sv" "sv_stopping (accepted_task error sv) = sv_stopping sv"
  "sv_started (accepted_task error sv) = sv_started sv" "sv_spawned (accepted_task error sv) = sv_spawned sv"
  "sv_stop_pending (accepted_task error sv) = sv_stop_pending sv"
  "sv_acceptor_open (accepted_task error sv) = sv_acceptor_open sv" "sv_timer (accepted_task error sv) = sv_timer sv"
  "sv_config (accepted_task error sv) = sv_config sv"
  "sv_running_workers (accepted_task error sv) = sv_running_workers sv"
  "sv_context_stopped (accepted_task error sv) = sv_context_stopped sv"
  by (simp_all add: accepted_task_def accept_next_def Let_def)

lemma accept_next_simps [simp]:
  "sv_queue (accept_next sv) = sv_queue sv" "sv_stopping (accept_next sv) = sv_stopping sv"
  "sv_started (accept_next sv) = sv_started sv" "sv_spawned (accept_next sv) = sv_spawned sv"
  "sv_stop_pending (accept_next sv) = sv_stop_pending sv"
  "sv_acceptor_open (accept_next sv) = sv_acceptor_open sv" "sv_timer (accept_next sv) = sv_timer sv"
  "sv_config (accept_next sv) = sv_config sv" "sv_controls (accept_next sv) = sv_controls sv"
  "sv_sessions (accept_next sv) = sv_sessions sv" "sv_accepting (accept_next sv)"
  "sv_running_workers (accept_next sv) = sv_running_workers sv"
  "sv_context_stopped (accept_next sv) = sv_context_stopped sv"
  by (simp_all add: accept_next_def)

lemma accepted_closed: "\<not> sv_acceptor_open sv \<Longrightarrow> accepted_task error sv = sv"
  by (simp add: accepted_task_def)

lemma stopping_inv_task:
  assumes "stopping_inv sv" "sessions_inv sv" "sv_queue sv = t # ts"
  shows "stopping_inv (run_task t (sv\<lparr>sv_queue := ts\<rparr>))"
proof -
  let ?u = "sv\<lparr>sv_queue := ts\<rparr>"
  have n: "(if t = T_begin_stop then 1 else 0) + count_list ts T_begin_stop + of_bool (sv_stop_pending sv) +
      of_bool (\<not> sv_acceptor_open sv) = (of_bool (sv_stopping sv) :: nat)"
    using assms(1,3) by (cases "t = T_begin_stop") (simp_all add: stopping_inv_def)
  have b: "sv_stopping sv \<or> sv_spawned sv \<longrightarrow> sv_started sv"
    and c: "\<not> sv_acceptor_open sv \<longrightarrow> (\<forall>s \<in> set (sv_controls sv). ss_point s \<noteq> Ended \<longrightarrow> ss_stop s)"
    using assms(1) by (simp_all add: stopping_inv_def)
  show ?thesis
  proof (cases t)
    case T_accept_loop
    then show ?thesis using n b c by (simp add: stopping_inv_def)
  next
    case (T_accepted error)
    then show ?thesis using n b c by (cases "sv_acceptor_open sv") (simp_all add: stopping_inv_def accepted_closed)
  next
    case T_begin_stop
    have q: "sessions_inv ?u" using sessions_inv_queue [OF assms(2,3)] T_begin_stop by blast
    have o: "sv_acceptor_open sv" using n T_begin_stop by (cases "sv_acceptor_open sv"; cases "sv_stopping sv") simp_all
    have "\<forall>s \<in> set (sv_controls (begin_stop ?u)). ss_point s \<noteq> Ended \<longrightarrow> ss_stop s"
      unfolding begin_stop_controls(1) [OF q] using told_to_stop [OF q] by blast
    then show ?thesis using n b o T_begin_stop by (simp add: stopping_inv_def)
  next
    case (T_session_complete i)
    note parts = session_task_simps [OF task_snapshot [OF assms(2)], of i]
    have "count_list (sv_queue sv) (T_session_complete i) \<noteq> 0" using assms(3) T_session_complete by simp
    then have e: "ended_session sv i" using assms(2) by (auto simp: sessions_inv_def split: if_splits)
    have "\<forall>s \<in> set ((sv_controls sv)[i := (sv_controls sv ! i)\<lparr>ss_owned := False\<rparr>]).
        \<not> sv_acceptor_open sv \<and> ss_point s \<noteq> Ended \<longrightarrow> ss_stop s"
      using c e set_list_updateD by (fastforce simp: ended_session_def)
    moreover have "count_list (sv_queue (session_task i ?u)) T_begin_stop = count_list ts T_begin_stop"
      by (rule session_task_queue [of i ?u]) auto
    ultimately show ?thesis using n b T_session_complete
      by (simp add: stopping_inv_def parts(1-4) parts(5-13))
  next
    case (T_timer k aborted)
    have q: "sessions_inv ?u" using sessions_inv_queue [OF assms(2,3)] T_timer by blast
    have "\<forall>s \<in> set (sv_controls (force_stop ?u)). ss_point s \<noteq> Ended \<longrightarrow> ss_stop s"
      unfolding begin_stop_controls(3) [OF q] using told_to_stop [OF q] by blast
    then show ?thesis using n b c T_timer
      by (cases k; cases aborted) (simp_all add: stopping_inv_def timer_task_def)
  qed
qed

lemma stopping_inv_step:
  assumes "server_step handler sv sv'" "stopping_inv sv" "sessions_inv sv"
  shows "stopping_inv sv'"
  using assms(1)
proof (cases rule: server_step.cases)
  case (control t ts)
  then show ?thesis using stopping_inv_task [OF assms(2,3)] by simp
next
  case (session i s)
  show ?thesis unfolding session(1)
    by (rule stopping_inv_controls [OF assms(2)])
      (use session_step_parts [OF session(4)] session(3) in
        \<open>auto dest!: set_list_updateD intro: nth_mem\<close>)
next
  case (session_post i)
  show ?thesis unfolding session_post(1)
    by (rule stopping_inv_controls [OF assms(2)])
      (use session_post(3) in \<open>auto dest!: set_list_updateD intro: nth_mem\<close>)
qed (use assms(2) in \<open>auto simp: stopping_inv_def start_flag_def start_spawn_def stop_flag_def stop_post_def
    split: if_splits\<close>)

section \<open>The accept loop, the timer and the workers\<close>

text \<open>There is one accept loop, and it only ends when the acceptor is closed.\<close>

fun accept_task :: "control_task \<Rightarrow> bool" where
  "accept_task T_accept_loop = True"
| "accept_task (T_accepted error) = True"
| "accept_task _ = False"

definition accept_inv :: "server \<Rightarrow> bool" where
  "accept_inv sv \<longleftrightarrow>
     (let loops = length (filter accept_task (sv_queue sv)) + of_bool (sv_accepting sv) in
      (if sv_spawned sv then (if sv_acceptor_open sv then loops = 1 else loops \<le> 1) else loops = 0)) \<and>
     (T_accepted (Some Operation_aborted) \<in> set (sv_queue sv) \<longrightarrow> \<not> sv_acceptor_open sv)"

text \<open>The timer is only armed after the begin of the stop and while sessions are left.\<close>

definition timer_inv :: "server \<Rightarrow> bool" where
  "timer_inv sv \<longleftrightarrow> (sv_timer sv \<noteq> None \<longrightarrow> \<not> sv_acceptor_open sv \<and> sv_sessions sv \<noteq> []) \<and>
     (\<forall>k b. T_timer k b \<in> set (sv_queue sv) \<longrightarrow> \<not> sv_acceptor_open sv) \<and>
     (sv_context_stopped sv \<longrightarrow> \<not> sv_acceptor_open sv)"

text \<open>A worker only leaves when the server has begun to stop.\<close>

definition worker_inv :: "server_config \<Rightarrow> server \<Rightarrow> bool" where
  "worker_inv config sv \<longleftrightarrow> sv_config sv = config \<and> sv_running_workers sv \<le> sc_workers config \<and>
     (sv_spawned sv \<and> sv_acceptor_open sv \<longrightarrow> sv_running_workers sv = sc_workers config) \<and>
     (\<not> sv_spawned sv \<longrightarrow> sv_running_workers sv = 0)"

definition controls_inv :: "server_config \<Rightarrow> 'a raw_call \<Rightarrow> server \<Rightarrow> bool" where
  "controls_inv config handler sv \<longleftrightarrow> (\<forall>i < length (sv_controls sv).
     session_reachable config handler (sv_controls sv ! i) \<and> ss_token (sv_controls sv ! i) = i)"

lemma accept_inv_task:
  assumes "accept_inv sv" "sessions_inv sv" "sv_queue sv = t # ts" "sv_spawned sv \<or> \<not> accept_task t"
  shows "accept_inv (run_task t (sv\<lparr>sv_queue := ts\<rparr>))"
proof (cases t)
  case T_accept_loop
  then show ?thesis using assms by (simp add: accept_inv_def Let_def split: if_splits)
next
  case (T_accepted error)
  show ?thesis
  proof (cases "error = Some Operation_aborted \<or> \<not> sv_acceptor_open sv")
    case True
    then show ?thesis using assms T_accepted
      by (auto simp: accept_inv_def accepted_task_def Let_def split: if_splits)
  next
    case False
    then have "sv_accepting (accepted_task error (sv\<lparr>sv_queue := ts\<rparr>))"
      by (simp add: accepted_task_def Let_def)
    then show ?thesis using assms T_accepted False by (simp add: accept_inv_def Let_def split: if_splits)
  qed
next
  case T_begin_stop
  then show ?thesis using assms by (auto simp: accept_inv_def Let_def split: if_splits)
next
  case (T_session_complete i)
  note parts = session_task_simps [OF task_snapshot [OF assms(2)], of i]
  have "T_accepted e \<in> set (sv_queue (session_task i (sv\<lparr>sv_queue := ts\<rparr>))) \<longleftrightarrow> T_accepted e \<in> set ts" for e
    by (rule session_task_queue [of i "sv\<lparr>sv_queue := ts\<rparr>"]) auto
  moreover have "filter accept_task (sv_queue (session_task i (sv\<lparr>sv_queue := ts\<rparr>))) = filter accept_task ts"
    by (rule session_task_queue [of i "sv\<lparr>sv_queue := ts\<rparr>"]) auto
  ultimately show ?thesis using assms T_session_complete
    by (auto simp: accept_inv_def parts(5-13) Let_def split: if_splits)
next
  case (T_timer k aborted)
  then show ?thesis using assms
    by (cases k; cases aborted) (auto simp: accept_inv_def timer_task_def Let_def split: if_splits)
qed

lemma timer_inv_task:
  assumes "timer_inv sv" "stopping_inv sv" "sessions_inv sv" "sv_queue sv = t # ts"
  shows "timer_inv (run_task t (sv\<lparr>sv_queue := ts\<rparr>))"
proof (cases t)
  case T_accept_loop
  then show ?thesis using assms by (simp add: timer_inv_def)
next
  case (T_accepted error)
  then show ?thesis using assms
    by (auto simp: timer_inv_def accepted_task_def accept_next_def Let_def)
next
  case T_begin_stop
  have q: "sessions_inv (sv\<lparr>sv_queue := ts\<rparr>)" using sessions_inv_queue [OF assms(3,4)] T_begin_stop by blast
  have "sv_acceptor_open sv" using assms(2,4) T_begin_stop
    by (cases "sv_acceptor_open sv"; cases "sv_stopping sv") (simp_all add: stopping_inv_def)
  then show ?thesis using assms(1) T_begin_stop
    by (auto simp: timer_inv_def begin_stop_controls(2) [OF q])
next
  case (T_session_complete i)
  note parts = session_task_simps [OF task_snapshot [OF assms(3)], of i]
  have c: "\<not> sv_acceptor_open sv \<Longrightarrow> sv_stopping sv"
    using assms(2) by (cases "sv_stopping sv") (simp_all add: stopping_inv_def)
  have "T_timer k b \<in> set (sv_queue (session_task i (sv\<lparr>sv_queue := ts\<rparr>))) \<Longrightarrow>
      T_timer k b \<in> set ts \<or> sv_timer sv \<noteq> None" for k b
    by (rule session_task_queue [of i "sv\<lparr>sv_queue := ts\<rparr>"]) auto
  then show ?thesis using assms(1,4) c T_session_complete
    by (auto simp: timer_inv_def parts(1,4) parts(5-13))
next
  case (T_timer k aborted)
  have q: "sessions_inv (sv\<lparr>sv_queue := ts\<rparr>)" using sessions_inv_queue [OF assms(3,4)] T_timer by blast
  show ?thesis using assms(1,4) T_timer
    by (auto simp: timer_inv_def timer_task_def begin_stop_controls(4) [OF q] split: shutdown_timer.split)
qed

lemma accept_inv_step:
  assumes "server_step handler sv sv'" "accept_inv sv" "sessions_inv sv"
  shows "accept_inv sv'"
  using assms(1)
proof (cases rule: server_step.cases)
  case (control t ts)
  have "sv_spawned sv \<or> \<not> accept_task t"
    using assms(2) control(3) by (auto simp: accept_inv_def split: if_splits)
  then show ?thesis using accept_inv_task [OF assms(2,3) control(3)] control(1) by simp
next
  case (connection error)
  then show ?thesis using assms(2)
    by (auto simp: accept_inv_def accept_answer_def Let_def split: if_splits)
qed (use assms(2) in \<open>auto simp: accept_inv_def start_flag_def start_spawn_def stop_flag_def stop_post_def Let_def
    split: if_splits\<close>)

lemma timer_inv_step:
  assumes "server_step handler sv sv'" "timer_inv sv" "stopping_inv sv" "sessions_inv sv"
  shows "timer_inv sv'"
  using assms(1)
proof (cases rule: server_step.cases)
  case (control t ts)
  then show ?thesis using timer_inv_task [OF assms(2-4)] by simp
qed (use assms(2) in \<open>auto simp: timer_inv_def start_flag_def start_spawn_def stop_flag_def stop_post_def
    split: if_splits\<close>)

lemma run_task_simps:
  assumes "sessions_inv sv"
  shows "sv_config (run_task t (sv\<lparr>sv_queue := ts\<rparr>)) = sv_config sv"
    "sv_running_workers (run_task t (sv\<lparr>sv_queue := ts\<rparr>)) = sv_running_workers sv"
    "sv_spawned (run_task t (sv\<lparr>sv_queue := ts\<rparr>)) = sv_spawned sv"
    "sv_acceptor_open (run_task t (sv\<lparr>sv_queue := ts\<rparr>)) \<longleftrightarrow> sv_acceptor_open sv \<and> t \<noteq> T_begin_stop"
    "sv_stop_pending (run_task t (sv\<lparr>sv_queue := ts\<rparr>)) = sv_stop_pending sv"
    "sv_stopping (run_task t (sv\<lparr>sv_queue := ts\<rparr>)) = sv_stopping sv"
    "sv_started (run_task t (sv\<lparr>sv_queue := ts\<rparr>)) = sv_started sv"
  using session_task_simps [OF task_snapshot [OF assms]]
  by (cases t; auto simp: timer_task_def split: shutdown_timer.split)+

lemma worker_inv_step:
  assumes "server_step handler sv sv'" "worker_inv config sv" "accept_inv sv" "timer_inv sv" "sessions_inv sv"
  shows "worker_inv config sv'"
  using assms(1)
proof (cases rule: server_step.cases)
  case (control t ts)
  then show ?thesis using assms(2) by (auto simp: worker_inv_def run_task_simps [OF assms(5)])
next
  case worker
  have "\<not> (sv_spawned sv \<and> sv_acceptor_open sv)"
    using worker(3) assms(3,4) by (auto simp: has_work_def accept_inv_def timer_inv_def)
  then show ?thesis using worker assms(2) by (auto simp: worker_inv_def)
qed (use assms(2) in \<open>auto simp: worker_inv_def start_flag_def start_spawn_def stop_flag_def stop_post_def
    split: if_splits\<close>)

lemma controls_inv_update:
  assumes "controls_inv config handler sv" "i < length (sv_controls sv)"
    "session_move config handler (sv_controls sv ! i) s" "ss_token s = ss_token (sv_controls sv ! i)"
    "sv_controls sv' = (sv_controls sv)[i := s]"
  shows "controls_inv config handler sv'"
  unfolding controls_inv_def assms(5)
proof (intro allI impI)
  fix j
  assume j: "j < length ((sv_controls sv)[i := s])"
  show "session_reachable config handler ((sv_controls sv)[i := s] ! j) \<and> ss_token ((sv_controls sv)[i := s] ! j) = j"
    using assms(1,2,4) j session_reachable.moved [OF _ assms(3)]
    by (cases "j = i") (auto simp: controls_inv_def)
qed

lemma controls_inv_stop_sessions:
  assumes "controls_inv config handler sv" "distinct (sv_sessions sv)"
    "sv_controls sv' = stop_sessions force (sv_sessions sv) (sv_controls sv)"
  shows "controls_inv config handler sv'"
  unfolding controls_inv_def assms(3) length_stop_sessions
proof (intro allI impI)
  fix j
  assume j: "j < length (sv_controls sv)"
  show "session_reachable config handler (stop_sessions force (sv_sessions sv) (sv_controls sv) ! j) \<and>
      ss_token (stop_sessions force (sv_sessions sv) (sv_controls sv) ! j) = j"
    using assms(1) j session_reachable.moved [OF _ session_move.stopped, of config handler "sv_controls sv ! j" force]
    unfolding nth_stop_sessions [OF assms(2) j] by (simp add: controls_inv_def)
qed

lemma controls_inv_cong: "sv_controls sv' = sv_controls sv \<Longrightarrow> controls_inv config handler sv' = controls_inv config handler sv"
  by (simp add: controls_inv_def)

lemma controls_inv_task:
  assumes "controls_inv config handler sv" "sessions_inv sv" "sv_queue sv = t # ts"
  shows "controls_inv config handler (run_task t (sv\<lparr>sv_queue := ts\<rparr>))"
proof -
  let ?u = "sv\<lparr>sv_queue := ts\<rparr>"
  have u: "controls_inv config handler ?u" using assms(1) by (simp add: controls_inv_def)
  have d: "distinct (sv_sessions sv)" using assms(2) by (simp add: sessions_inv_def)
  show ?thesis
  proof (cases t)
    case T_accept_loop
    then show ?thesis using u by (simp add: controls_inv_def)
  next
    case (T_accepted error)
    have "ss_token (session_control n) = n" for n by (simp add: session_control_def)
    then show ?thesis using u T_accepted session_reachable.accepted
      by (auto simp: controls_inv_def accepted_task_def accept_next_def Let_def nth_append less_Suc_eq)
  next
    case T_begin_stop
    have q: "sessions_inv ?u" using sessions_inv_queue [OF assms(2,3)] T_begin_stop by blast
    show ?thesis using controls_inv_stop_sessions [OF u _ begin_stop_controls(1) [OF q]] d T_begin_stop by simp
  next
    case (T_session_complete i)
    have "count_list (sv_queue sv) (T_session_complete i) \<noteq> 0" using assms(3) T_session_complete by simp
    then have e: "ended_session sv i" using assms(2) by (auto simp: sessions_inv_def split: if_splits)
    have "session_move config handler (sv_controls ?u ! i) ((sv_controls ?u ! i)\<lparr>ss_owned := False\<rparr>)"
      using e by (intro session_move.completed) (simp add: ended_session_def)
    from controls_inv_update [OF u _ this _ session_task_simps(2) [OF task_snapshot [OF assms(2)]]] e
    show ?thesis using T_session_complete by (simp add: ended_session_def)
  next
    case (T_timer k aborted)
    have q: "sessions_inv ?u" using sessions_inv_queue [OF assms(2,3)] T_timer by blast
    have "controls_inv config handler (force_stop ?u)"
      using controls_inv_stop_sessions [OF u _ begin_stop_controls(3) [OF q]] d by simp
    moreover have "controls_inv config handler (?u\<lparr>sv_context_stopped := True\<rparr>)" using u by (simp add: controls_inv_def)
    ultimately show ?thesis using T_timer u by (cases k; cases aborted) (simp_all add: timer_task_def)
  qed
qed

section \<open>Reachable states\<close>

definition server_inv :: "server_config \<Rightarrow> 'a raw_call \<Rightarrow> server \<Rightarrow> bool" where
  "server_inv config handler sv \<longleftrightarrow> sessions_inv sv \<and> stopping_inv sv \<and> accept_inv sv \<and> timer_inv sv \<and>
     worker_inv config sv \<and> controls_inv config handler sv"

lemma controls_inv_step:
  assumes "server_step handler sv sv'" "controls_inv config handler sv" "sessions_inv sv" "sv_config sv = config"
  shows "controls_inv config handler sv'"
  using assms(1)
proof (cases rule: server_step.cases)
  case (control t ts)
  then show ?thesis using controls_inv_task [OF assms(2,3)] by simp
next
  case (session i s)
  show ?thesis unfolding session(1)
    by (rule controls_inv_update [OF assms(2) session(3)])
      (use session(4) session_step_parts(2) [OF session(4)] assms(4) in \<open>auto intro: session_move.own\<close>)
next
  case (session_post i)
  show ?thesis unfolding session_post(1)
    by (rule controls_inv_update [OF assms(2) session_post(3)])
      (use session_post(4) in \<open>auto intro: session_move.posted\<close>)
qed (use assms(2) in \<open>auto simp: start_flag_def start_spawn_def stop_flag_def stop_post_def
    cong: controls_inv_cong split: if_splits\<close>)

lemma server_inv_step: "server_inv config handler sv \<Longrightarrow> server_step handler sv sv' \<Longrightarrow> server_inv config handler sv'"
  unfolding server_inv_def
  using sessions_inv_step stopping_inv_step accept_inv_step timer_inv_step worker_inv_step controls_inv_step
  by (metis worker_inv_def)

lemma server_inv_initial:
  assumes "raw_server config listen = Inr sv"
  shows "server_inv config handler sv"
  using assms by (auto simp: raw_server_def bind_sum_Inr_iff server_inv_def sessions_inv_def ended_session_def
      stopping_inv_def accept_inv_def timer_inv_def worker_inv_def controls_inv_def)

lemma server_reachable_inv: "server_reachable handler config sv \<Longrightarrow> server_inv config handler sv"
  by (induction rule: server_reachable.induct) (auto intro: server_inv_initial server_inv_step)

end
