(* ===== verification/Flash_Server_Props.thy ===== *)
theory Flash_Server_Props
  imports Flash_Server_Inv
begin

text \<open>
  What the server promises: it accounts for its sessions, it only shuts down on request and then takes no new
  session, and a shutdown that has begun ends.
\<close>

section \<open>The work that is left\<close>

definition session_weight :: "session \<Rightarrow> nat" where
  "session_weight s = 2 * session_rank (ss_point s) + length (ss_posted s)"

fun task_weight :: "nat \<Rightarrow> control_task \<Rightarrow> nat" where
  "task_weight n T_accept_loop = 3"
| "task_weight n (T_accepted error) = 1"
| "task_weight n T_begin_stop = 0"
| "task_weight n (T_session_complete i) = 1"
| "task_weight n (T_timer k aborted) = (if aborted then 1 else case k of Graceful \<Rightarrow> n + 5 | Forced \<Rightarrow> 2)"

definition timer_weight :: "nat \<Rightarrow> shutdown_timer option \<Rightarrow> nat" where
  "timer_weight n k = (case k of None \<Rightarrow> 0 | Some Graceful \<Rightarrow> n + 6 | Some Forced \<Rightarrow> 3)"

text \<open>An upper bound of the steps a server takes once its acceptor is closed.\<close>

definition shutdown_bound :: "server \<Rightarrow> nat" where
  "shutdown_bound sv = (let n = length (sv_controls sv) in
     sum_list (map session_weight (sv_controls sv)) + sum_list (map (task_weight n) (sv_queue sv)) +
     (if sv_accepting sv then 2 else 0) + timer_weight n (sv_timer sv) + sv_running_workers sv +
     (if sv_spawned sv then 0 else sc_workers (sv_config sv) + 4))"

lemma sum_list_update_nat:
  "i < length xs \<Longrightarrow> sum_list (map g (xs[i := y])) + g (xs ! i) = sum_list (map g xs) + (g y :: nat)"
proof (induction xs arbitrary: i)
  case (Cons x xs)
  then show ?case by (cases i) auto
qed simp

lemma weight_stop_sessions:
  "\<forall>i \<in> set is. i < length controls \<Longrightarrow>
   sum_list (map session_weight (stop_sessions force is controls)) =
     sum_list (map session_weight controls) + length is"
proof (induction force "is" controls rule: stop_sessions.induct)
  case (2 force i "is" controls)
  have "session_weight (request_session_stop force (controls ! i)) = session_weight (controls ! i) + 1"
    by (simp add: session_weight_def request_session_stop_def)
  then show ?case
    using 2 sum_list_update_nat [of i controls session_weight "request_session_stop force (controls ! i)"] by simp
qed simp

lemma sessions_bounded:
  assumes "sessions_inv sv"
  shows "length (sv_sessions sv) \<le> length (sv_controls sv)"
proof -
  have "set (sv_sessions sv) \<subseteq> {..<length (sv_controls sv)}" "distinct (sv_sessions sv)"
    using assms by (auto simp: sessions_inv_def)
  then show ?thesis by (metis card_lessThan card_mono distinct_card finite_lessThan)
qed

lemma weight_force_stop:
  assumes "sessions_inv sv"
  shows "sum_list (map session_weight (sv_controls (force_stop sv))) \<le>
      sum_list (map session_weight (sv_controls sv)) + length (sv_controls sv)"
    "length (sv_controls (force_stop sv)) = length (sv_controls sv)"
    "timer_weight n (sv_timer (force_stop sv)) \<le> timer_weight n (sv_timer sv) + 3"
proof -
  have "\<forall>i \<in> set (sv_sessions sv). i < length (sv_controls sv)" using assms by (simp add: sessions_inv_def)
  then show "sum_list (map session_weight (sv_controls (force_stop sv))) \<le>
      sum_list (map session_weight (sv_controls sv)) + length (sv_controls sv)"
    using sessions_bounded [OF assms] by (simp add: begin_stop_controls(3) [OF assms] weight_stop_sessions)
  show "length (sv_controls (force_stop sv)) = length (sv_controls sv)"
    by (simp add: begin_stop_controls(3) [OF assms])
  show "timer_weight n (sv_timer (force_stop sv)) \<le> timer_weight n (sv_timer sv) + 3"
    by (simp add: begin_stop_controls(4) [OF assms] timer_weight_def)
qed

lemma closed_facts:
  assumes "stopping_inv sv" "\<not> sv_acceptor_open sv"
  shows "sv_stopping sv" "sv_started sv" "\<not> sv_stop_pending sv" "T_begin_stop \<notin> set (sv_queue sv)"
proof -
  have n: "count_list (sv_queue sv) T_begin_stop + of_bool (sv_stop_pending sv) + 1 = (of_bool (sv_stopping sv) :: nat)"
    using assms by (simp add: stopping_inv_def)
  then show "sv_stopping sv" by (cases "sv_stopping sv") simp_all
  then have m: "count_list (sv_queue sv) T_begin_stop + of_bool (sv_stop_pending sv) = (0 :: nat)" using n by simp
  then show "\<not> sv_stop_pending sv" by (cases "sv_stop_pending sv") simp_all
  show "T_begin_stop \<notin> set (sv_queue sv)" using m by (simp add: count_list_0_iff)
  show "sv_started sv" using assms(1) \<open>sv_stopping sv\<close> by (simp add: stopping_inv_def)
qed

lemma weight_session_complete:
  assumes "sessions_inv sv" "sv_queue sv = T_session_complete i # ts"
  shows "shutdown_bound (session_task i (sv\<lparr>sv_queue := ts\<rparr>)) < shutdown_bound sv"
proof -
  let ?u = "sv\<lparr>sv_queue := ts\<rparr>" and ?n = "length (sv_controls sv)"
  let ?v = "session_task i ?u"
  note parts = session_task_simps [OF task_snapshot [OF assms(1)], of i]
  have "count_list (sv_queue sv) (T_session_complete i) \<noteq> 0" using assms(2) by simp
  then have i: "i < ?n" using assms(1) by (auto simp: sessions_inv_def ended_session_def split: if_splits)
  have c: "sum_list (map session_weight (sv_controls ?v)) = sum_list (map session_weight (sv_controls sv))"
    using sum_list_update_nat [OF i, of session_weight "(sv_controls sv ! i)\<lparr>ss_owned := False\<rparr>"]
    by (simp add: parts(2) session_weight_def)
  have t: "sum_list (map (task_weight ?n) (sv_queue ?v)) + timer_weight ?n (sv_timer ?v) \<le>
      sum_list (map (task_weight ?n) ts) + timer_weight ?n (sv_timer sv)"
  proof (cases "sv_timer ?v = sv_timer sv")
    case True
    have "sv_queue ?v = ts" if "sv_timer sv \<noteq> None \<longrightarrow> sv_timer ?v \<noteq> None"
      using that by (auto simp: session_task_def session_complete_def cancel_timer_def Let_def split: option.splits if_splits)
    then show ?thesis using True by simp
  next
    case False
    have none: "sv_timer ?v = None" using False by (simp add: parts(4) split: if_splits)
    then have "sv_timer sv \<noteq> None" using False by metis
    moreover note none
    moreover have "sum_list (map (task_weight ?n) (sv_queue ?v)) \<le> sum_list (map (task_weight ?n) ts) + 1"
      by (rule session_task_queue [of i ?u]) auto
    ultimately show ?thesis by (auto simp: timer_weight_def split: option.split shutdown_timer.split)
  qed
  show ?thesis using c t assms(2) by (simp add: shutdown_bound_def Let_def parts(2,5-13))
qed

lemma weight_task:
  assumes "sessions_inv sv" "stopping_inv sv" "\<not> sv_acceptor_open sv" "sv_queue sv = t # ts"
  shows "shutdown_bound (run_task t (sv\<lparr>sv_queue := ts\<rparr>)) < shutdown_bound sv"
proof -
  let ?u = "sv\<lparr>sv_queue := ts\<rparr>"
  show ?thesis
  proof (cases t)
    case T_accept_loop
    then show ?thesis using assms(4) by (simp add: shutdown_bound_def Let_def)
  next
    case (T_accepted error)
    then show ?thesis using assms(3,4) by (simp add: accepted_closed shutdown_bound_def Let_def)
  next
    case T_begin_stop
    then show ?thesis using closed_facts(4) [OF assms(2,3)] assms(4) by simp
  next
    case (T_session_complete i)
    then show ?thesis using weight_session_complete [OF assms(1)] assms(4) by simp
  next
    case (T_timer k aborted)
    have q: "sessions_inv ?u" using sessions_inv_queue [OF assms(1,4)] T_timer by blast
    show ?thesis using weight_force_stop(1,2) [OF q] weight_force_stop(3) [OF q, of "length (sv_controls sv)"] T_timer assms(4)
      by (cases k; cases aborted) (simp_all add: timer_task_def shutdown_bound_def Let_def)
  qed
qed

lemma weight_session:
  assumes "stopping_inv sv" "\<not> sv_acceptor_open sv" "i < length (sv_controls sv)"
    "session_step config handler (sv_controls sv ! i) s"
  shows "shutdown_bound (session_moved i s sv) < shutdown_bound sv"
proof -
  let ?s = "sv_controls sv ! i"
  have "ss_stop ?s" using assms(1-3) session_step_parts(5) [OF assms(4)] by (auto simp: stopping_inv_def)
  then have "session_rank (ss_point s) < session_rank (ss_point ?s)"
    using stopped_step [OF assms(4)] by (simp add: winds_down_def)
  then have "session_weight s + 1 < session_weight ?s"
    using session_step_parts(4) [OF assms(4)] by (simp add: session_weight_def)
  then show ?thesis using sum_list_update_nat [OF assms(3), of session_weight s]
    by (simp add: shutdown_bound_def Let_def)
qed

lemma weight_posted:
  assumes "i < length (sv_controls sv)" "ss_posted (sv_controls sv ! i) \<noteq> []"
  shows "shutdown_bound (sv\<lparr>sv_controls := (sv_controls sv)[i := run_posted (sv_controls sv ! i)]\<rparr>) < shutdown_bound sv"
proof -
  have "length (ss_posted (run_posted (sv_controls sv ! i))) < length (ss_posted (sv_controls sv ! i))"
    using assms(2) by (auto simp: stop_parts split: list.split)
  then have "session_weight (run_posted (sv_controls sv ! i)) < session_weight (sv_controls sv ! i)"
    by (simp add: session_weight_def)
  then show ?thesis using sum_list_update_nat [OF assms(1), of session_weight "run_posted (sv_controls sv ! i)"]
    by (simp add: shutdown_bound_def Let_def)
qed

text \<open>After the begin of the stop, every step is progress.\<close>

lemma shutdown_progress:
  assumes "server_inv config handler sv" "\<not> sv_acceptor_open sv" "server_step handler sv sv'"
  shows "shutdown_bound sv' < shutdown_bound sv"
proof -
  note inv = assms(1) [unfolded server_inv_def]
  have st: "stopping_inv sv" and se: "sessions_inv sv" and w: "worker_inv config sv" using inv by auto
  note closed = closed_facts [OF st assms(2)]
  show ?thesis using assms(3)
  proof (cases rule: server_step.cases)
    case start_finished
    then show ?thesis using w by (simp add: start_spawn_def shutdown_bound_def worker_inv_def Let_def)
  next
    case (control t ts)
    then show ?thesis using weight_task [OF se st assms(2)] by simp
  next
    case (connection error)
    then show ?thesis by (simp add: shutdown_bound_def Let_def)
  next
    case (timer k)
    then show ?thesis by (cases k) (simp_all add: shutdown_bound_def timer_weight_def Let_def)
  next
    case (session i s)
    then show ?thesis using weight_session [OF st assms(2)] by simp
  next
    case (session_post i)
    then show ?thesis using weight_posted by simp
  next
    case worker
    then show ?thesis by (simp add: shutdown_bound_def Let_def)
  qed (use closed in \<open>auto simp: start_flag_def\<close>)
qed

text \<open>The acceptor stays closed.\<close>

lemma step_acceptor:
  assumes "server_step handler sv sv'" "sessions_inv sv" "\<not> sv_acceptor_open sv"
  shows "\<not> sv_acceptor_open sv'"
  using assms(1)
  by (cases rule: server_step.cases)
    (use assms(2,3) run_task_simps(4) in \<open>auto simp: start_flag_def start_spawn_def stop_flag_def stop_post_def
      split: if_splits\<close>)

interpretation shutdown: winding_down "server_step handler"
    "\<lambda>sv. server_inv config handler sv \<and> \<not> sv_acceptor_open sv" shutdown_bound
    for handler :: "'a raw_call" and config
proof unfold_locales
  fix sv sv'
  assume ok: "server_inv config handler sv \<and> \<not> sv_acceptor_open sv" and step: "server_step handler sv sv'"
  then have "sessions_inv sv" by (simp add: server_inv_def)
  then show "server_inv config handler sv' \<and> \<not> sv_acceptor_open sv'"
    using ok server_inv_step step step_acceptor by blast
  show "shutdown_bound sv' < shutdown_bound sv" using ok shutdown_progress step by blast
qed

section \<open>When nothing is left to do\<close>

text \<open>A worker that has left means that there was nothing left, and nothing comes back.\<close>

definition idle_inv :: "server \<Rightarrow> bool" where
  "idle_inv sv \<longleftrightarrow> (sv_spawned sv \<and> sv_running_workers sv < sc_workers (sv_config sv) \<longrightarrow>
     sv_context_stopped sv \<or> \<not> has_work sv)"

lemma idle_inv_step:
  assumes "server_inv config handler sv" "idle_inv sv" "server_step handler sv sv'"
  shows "idle_inv sv'"
proof (cases "sv_spawned sv \<and> sv_running_workers sv < sc_workers (sv_config sv)")
  case True
  have c: "\<not> sv_acceptor_open sv" "stopping_inv sv"
    using assms(1) True by (auto simp: server_inv_def worker_inv_def)
  have w: "sv_context_stopped sv \<or> \<not> has_work sv" using assms(2) True by (simp add: idle_inv_def)
  note closed = closed_facts [OF c(2,1)]
  show ?thesis using assms(3)
  proof (cases rule: server_step.cases)
    case worker
    then show ?thesis using w by (auto simp: idle_inv_def has_work_def)
  next
    case (session i s)
    then have "ss_point (sv_controls sv ! i) \<noteq> Ended" using session_step_parts(5) by blast
    then show ?thesis using w session(2,3) by (auto simp: has_work_def running_def)
  next
    case (session_post i)
    then show ?thesis using w by (auto simp: has_work_def running_def)
  qed (use True w closed in \<open>auto simp: start_flag_def has_work_def running_def\<close>)
next
  case False
  show ?thesis using assms(3)
  proof (cases rule: server_step.cases)
    case (control t ts)
    have "sessions_inv sv" using assms(1) by (simp add: server_inv_def)
    then show ?thesis using False control(1) by (auto simp: idle_inv_def run_task_simps)
  next
    case worker
    then show ?thesis by (auto simp: idle_inv_def has_work_def)
  qed (use False in \<open>auto simp: idle_inv_def start_flag_def start_spawn_def stop_flag_def stop_post_def
      split: if_splits\<close>)
qed

lemma server_reachable_idle: "server_reachable handler config sv \<Longrightarrow> idle_inv sv"
proof (induction rule: server_reachable.induct)
  case (constructed listen sv)
  then show ?case by (auto simp: idle_inv_def raw_server_def bind_sum_Inr_iff)
next
  case (stepped sv sv')
  then show ?case using idle_inv_step server_reachable_inv by blast
qed

text \<open>Only a server whose workers have left can be stuck.\<close>

lemma stuck_workers:
  assumes "\<nexists>sv'. server_step handler sv sv'"
  shows "sv_running_workers sv = 0"
proof (rule ccontr)
  assume w: "sv_running_workers sv \<noteq> 0"
  then have n: "\<not> sv_context_stopped sv" "has_work sv" using assms server_step.worker by blast+
  then have r: "running sv" using w by (simp add: running_def)
  from n(2) consider "sv_queue sv \<noteq> []" | "sv_accepting sv" | "sv_timer sv \<noteq> None"
    | i where "i < length (sv_controls sv)" "ss_point (sv_controls sv ! i) \<noteq> Ended"
    | i where "i < length (sv_controls sv)" "ss_posted (sv_controls sv ! i) \<noteq> []"
    by (auto simp: has_work_def in_set_conv_nth)
  then show False
  proof cases
    case 1
    then show False using assms server_step.control [OF r] by (metis neq_Nil_conv)
  next
    case 2
    then show False using assms server_step.connection [OF r 2, of "Some Eof"] by (auto simp: accept_answer_def)
  next
    case 3
    then show False using assms server_step.timer [OF r] by blast
  next
    case 4
    then show False using assms server_step.session [OF r 4(1)] session_step_exists [OF 4(2)] by blast
  next
    case 5
    then show False using assms server_step.session_post [OF r] by blast
  qed
qed

lemma no_work_sessions:
  assumes "sessions_inv sv" "\<not> has_work sv"
  shows "sv_sessions sv = [] \<and> sv_active sv = 0 \<and> (\<forall>s \<in> set (sv_controls sv). ss_point s = Ended)"
proof -
  have q: "sv_queue sv = []" and e: "\<forall>s \<in> set (sv_controls sv). ss_point s = Ended"
    using assms(2) by (auto simp: has_work_def)
  have "i \<notin> set (sv_sessions sv)" for i
  proof
    assume i: "i \<in> set (sv_sessions sv)"
    then have "ended_session sv i" using assms(1) e by (auto simp: sessions_inv_def ended_session_def)
    then have "count_list (sv_queue sv) (T_session_complete i) = 1" using assms(1) by (simp add: sessions_inv_def)
    then show False by (simp add: q)
  qed
  then have "sv_sessions sv = []" by (metis list.set_intros(1) neq_Nil_conv)
  then show ?thesis using assms(1) e by (simp add: sessions_inv_def)
qed

lemma step_controls:
  assumes "server_step handler sv sv'" "sessions_inv sv" "\<not> sv_acceptor_open sv"
  shows "length (sv_controls sv') = length (sv_controls sv)"
  using assms(1)
proof (cases rule: server_step.cases)
  case (control t ts)
  let ?u = "sv\<lparr>sv_queue := ts\<rparr>"
  have s: "length (sv_controls (begin_stop ?u)) = length (sv_controls sv)"
    "length (sv_controls (force_stop ?u)) = length (sv_controls sv)"
    by (simp_all add: begin_stop_def force_stop_def Let_def)
  show ?thesis
    using control(1) s assms(3) session_task_simps(2) [OF task_snapshot [OF assms(2)]]
    by (cases t) (auto simp: accepted_closed timer_task_def split: shutdown_timer.split)
qed (auto simp: start_flag_def start_spawn_def stop_flag_def stop_post_def split: if_splits)

lemma step_spawned: "server_step handler sv sv' \<Longrightarrow> sv_spawned sv \<Longrightarrow> sv_spawned sv'"
proof (induction rule: server_step.induct)
  case (control sv t ts)
  then show ?case
    by (cases t) (auto simp: timer_task_def session_task_def session_complete_def Let_def split: shutdown_timer.split)
qed (auto simp: start_flag_def start_spawn_def stop_flag_def stop_post_def split: if_splits)

lemma reachable_workers: "server_reachable handler config sv \<Longrightarrow> 0 < sc_workers (sv_config sv)"
proof (induction rule: server_reachable.induct)
  case (constructed listen sv)
  then show ?case by (auto simp: raw_server_def validated_worker_count_def bind_sum_Inr_iff split: if_splits)
next
  case (stepped sv sv')
  then have "sv_config sv' = sv_config sv"
    using server_reachable_inv server_inv_step unfolding server_inv_def worker_inv_def by metis
  then show ?case using stepped.IH by simp
qed

section \<open>A server that is stopped at once\<close>

definition sample_server :: server where
  "sample_server = \<lparr>sv_config = default_config 4, sv_port = 8080, sv_started = True, sv_spawned = True,
     sv_stopping = True, sv_stop_pending = False, sv_acceptor_open = False, sv_accepting = True, sv_sessions = [],
     sv_controls = [], sv_active = 0, sv_timer = None, sv_queue = [], sv_running_workers = 2,
     sv_context_stopped = False\<rparr>"

lemma sample_server_reachable: "server_reachable handler (default_config 4) sample_server"
proof -
  let ?c = "default_config 4"
  have w: "sc_workers ?c = 2" by (simp add: default_config_def)
  obtain sv0 where s0: "raw_server ?c (Inr 8080) = Inr sv0" "sv0 = \<lparr>sv_config = ?c, sv_port = 8080,
      sv_started = False, sv_spawned = False, sv_stopping = False, sv_stop_pending = False,
      sv_acceptor_open = True, sv_accepting = False, sv_sessions = [], sv_controls = [], sv_active = 0,
      sv_timer = None, sv_queue = [], sv_running_workers = 0, sv_context_stopped = False\<rparr>"
    by (simp add: raw_server_def validated_worker_count_def w)
  let ?s1 = "sv0\<lparr>sv_started := True\<rparr>"
  let ?s2 = "start_spawn ?s1"
  let ?s3 = "stop_flag ?s2"
  let ?s4 = "stop_post ?s3"
  let ?s5 = "run_task T_accept_loop (?s4\<lparr>sv_queue := [T_begin_stop]\<rparr>)"
  let ?s6 = "run_task T_begin_stop (?s5\<lparr>sv_queue := []\<rparr>)"
  note d = s0(2) start_flag_def start_spawn_def stop_flag_def stop_post_def running_def w
  have "server_reachable handler ?c sv0" by (rule server_reachable.constructed [OF s0(1)])
  then have "server_reachable handler ?c ?s1"
    by (rule server_reachable.stepped [OF _ server_step.start_called]) (simp add: d)
  then have "server_reachable handler ?c ?s2"
    by (rule server_reachable.stepped [OF _ server_step.start_finished]) (simp_all add: d)
  then have "server_reachable handler ?c ?s3"
    by (rule server_reachable.stepped [OF _ server_step.stop_called]) (simp_all add: d)
  then have "server_reachable handler ?c ?s4"
    by (rule server_reachable.stepped [OF _ server_step.stop_finished]) (simp_all add: d)
  then have "server_reachable handler ?c ?s5"
    by (rule server_reachable.stepped [OF _ server_step.control]) (simp_all add: d)
  then have "server_reachable handler ?c ?s6"
    by (rule server_reachable.stepped [OF _ server_step.control]) (simp_all add: d)
  moreover have "?s6 = sample_server"
    by (simp add: d post_control_def accept_next_def begin_stop_def session_snapshot_def sample_server_def Let_def)
  ultimately show ?thesis by simp
qed

text \<open>A stop that is requested before \<open>serve_raw\<close> starts the server is forgotten: the server starts and nothing
  will stop it.\<close>

lemma early_stop_lost: "serve_raw config listen True = serve_raw config listen False"
  by (cases "raw_server config listen")
    (auto simp: serve_raw_def raw_server_def bind_sum_Inr_iff stop_server_def stop_flag_def stop_post_def)

text \<open>The start of a server up to its first connection.\<close>

lemma server_first_connection:
  assumes "0 < sc_workers config" "sc_workers config \<le> 256"
  shows "\<exists>sv. server_reachable handler config sv \<and> running sv \<and> sv_config sv = config \<and>
    sv_controls sv = [session_control 0] \<and> sv_sessions sv = [0]"
proof -
  have w: "validated_worker_count (sc_workers config) = Inr (sc_workers config)"
    using assms by (simp add: validated_worker_count_def)
  obtain sv0 where sv0: "raw_server config (Inr 8080) = Inr sv0" by (simp add: raw_server_def w)
  have f: "\<not> sv_started sv0" "sv_config sv0 = config" "sv_queue sv0 = []" "sv_controls sv0 = []" "sv_sessions sv0 = []" "\<not> sv_context_stopped sv0"
    "sv_acceptor_open sv0" "\<not> sv_spawned sv0"
    using sv0 by (auto simp: raw_server_def w)
  let ?sv1 = "sv0\<lparr>sv_started := True\<rparr>"
  let ?sv2 = "start_spawn ?sv1"
  let ?sv3 = "run_task T_accept_loop (?sv2\<lparr>sv_queue := []\<rparr>)"
  let ?sv4 = "post_control (T_accepted None) (?sv3\<lparr>sv_accepting := False\<rparr>)"
  let ?sv5 = "run_task (T_accepted None) (?sv4\<lparr>sv_queue := []\<rparr>)"
  note d = running_def start_spawn_def post_control_def accept_next_def f assms
  have "server_reachable handler config ?sv1"
    by (rule server_reachable.stepped [OF server_reachable.constructed [OF sv0] server_step.start_called])
      (simp add: start_flag_def f)
  then have "server_reachable handler config ?sv2"
    by (rule server_reachable.stepped) (rule server_step.start_finished, simp_all add: f)
  then have "server_reachable handler config ?sv3"
    by (rule server_reachable.stepped) (rule server_step.control, simp_all add: d)
  then have "server_reachable handler config ?sv4"
    by (rule server_reachable.stepped) (rule server_step.connection, simp_all add: d accept_answer_def)
  then have "server_reachable handler config ?sv5"
    by (rule server_reachable.stepped) (rule server_step.control, simp_all add: d)
  moreover have "running ?sv5 \<and> sv_config ?sv5 = config \<and> sv_controls ?sv5 = [session_control 0] \<and>
      sv_sessions ?sv5 = [0]"
    by (simp add: d accepted_task_def Let_def)
  ultimately show ?thesis by blast
qed

section \<open>Properties\<close>

text \<open>C11. The server accounts for its sessions in every reachable state, whatever the threads interleave: the
  sessions it lists are exactly those accepted and not yet completed, each once and each still alive when
  it is looked up; the counter of the active sessions is their number (modulo the width of the counter, so
  it never underflows); a completion is queued once for a session that has ended, and for no other.\<close>

theorem sessions_accounted:
  assumes "server_reachable handler config sv"
  shows "distinct (sv_sessions sv) \<and>
    (\<forall>i. i \<in> set (sv_sessions sv) \<longleftrightarrow> i < length (sv_controls sv) \<and> ss_owned (sv_controls sv ! i)) \<and>
    session_snapshot sv = sv_sessions sv \<and> sv_active sv = of_nat (length (sv_sessions sv)) \<and>
    (\<forall>i. count_list (sv_queue sv) (T_session_complete i) =
      (if i \<in> set (sv_sessions sv) \<and> ss_point (sv_controls sv ! i) = Ended then 1 else 0)) \<and>
    (\<forall>i < length (sv_controls sv). session_reachable config handler (sv_controls sv ! i) \<and>
      (i \<notin> set (sv_sessions sv) \<longrightarrow> ss_point (sv_controls sv ! i) = Ended))"
proof -
  have s: "sessions_inv sv" and c: "controls_inv config handler sv"
    using server_reachable_inv [OF assms] by (simp_all add: server_inv_def)
  show ?thesis using s c snapshot_sessions [OF s]
    by (auto simp: sessions_inv_def controls_inv_def ended_session_def)
qed

theorem sessions_accounted_witness:
  "\<exists>sv. server_reachable sample_raw_handler (default_config 4) sv \<and> session_snapshot sv = [0] \<and> sv_active sv = 1 \<and>
     ss_owned (sv_controls sv ! 0) \<and> count_list (sv_queue sv) (T_session_complete 0) = 0"
proof -
  obtain sv where sv: "server_reachable sample_raw_handler (default_config 4) sv"
      "sv_controls sv = [session_control 0]" "sv_sessions sv = [0]"
    using server_first_connection [of "default_config 4" sample_raw_handler] by (auto simp: default_config_def)
  have "session_snapshot sv = [0]" "sv_active sv = of_nat (length [0::nat])" "ss_owned (sv_controls sv ! 0)"
    "count_list (sv_queue sv) (T_session_complete 0) = 0"
    using sessions_accounted [OF sv(1)] sv(2,3) by (auto simp: session_control_def)
  then show ?thesis using sv(1) by auto
qed

text \<open>C15. The server shuts down only on request, and in order: while the acceptor is open the accept loop is
  alive and no worker has left; a stop that was requested is on its way exactly once until the acceptor is
  closed; from then on no step adds a session, every session that has not ended has been told to stop, and
  the shutdown timer is armed only while sessions are left.\<close>

theorem shutdown_on_request:
  assumes "server_reachable handler config sv"
  shows "if sv_acceptor_open sv
    then (sv_spawned sv \<longrightarrow> has_work sv \<and> sv_running_workers sv = sc_workers config) \<and>
      sv_timer sv = None \<and> \<not> sv_context_stopped sv \<and>
      (sv_stopping sv \<longleftrightarrow> sv_stop_pending sv \<or> T_begin_stop \<in> set (sv_queue sv)) \<and>
      count_list (sv_queue sv) T_begin_stop + of_bool (sv_stop_pending sv) \<le> (1 :: nat)
    else sv_stopping sv \<and> T_begin_stop \<notin> set (sv_queue sv) \<and>
      (\<forall>s \<in> set (sv_controls sv). ss_point s \<noteq> Ended \<longrightarrow> ss_stop s) \<and>
      (sv_timer sv \<noteq> None \<longrightarrow> sv_sessions sv \<noteq> []) \<and>
      (\<forall>sv'. server_step handler sv sv' \<longrightarrow>
        \<not> sv_acceptor_open sv' \<and> length (sv_controls sv') = length (sv_controls sv))"
proof -
  have inv: "sessions_inv sv" "stopping_inv sv" "accept_inv sv" "timer_inv sv" "worker_inv config sv"
    using server_reachable_inv [OF assms] by (simp_all add: server_inv_def)
  show ?thesis
  proof (cases "sv_acceptor_open sv")
    case True
    have n: "count_list (sv_queue sv) T_begin_stop + of_bool (sv_stop_pending sv) = (of_bool (sv_stopping sv) :: nat)"
      using inv(2) True by (simp add: stopping_inv_def)
    have mem: "T_begin_stop \<in> set (sv_queue sv) \<longleftrightarrow> count_list (sv_queue sv) T_begin_stop \<noteq> 0"
      by (simp add: count_list_0_iff)
    have "sv_stopping sv \<longleftrightarrow> sv_stop_pending sv \<or> T_begin_stop \<in> set (sv_queue sv)"
      unfolding mem using n by (cases "sv_stopping sv"; cases "sv_stop_pending sv") simp_all
    moreover have "has_work sv" if "sv_spawned sv"
      using inv(3) True that by (auto simp: accept_inv_def has_work_def Let_def split: if_splits)
    ultimately show ?thesis using inv(4,5) True n by (simp add: timer_inv_def worker_inv_def)
  next
    case False
    have "length (sv_controls sv') = length (sv_controls sv)" if "server_step handler sv sv'" for sv'
      using step_controls [OF that inv(1) False] .
    then show ?thesis using inv(2,4) False closed_facts [OF inv(2) False] step_acceptor [OF _ inv(1) False, of handler]
      by (simp add: stopping_inv_def timer_inv_def)
  qed
qed

theorem shutdown_on_request_witness:
  "sv_stopping sample_server \<and> T_begin_stop \<notin> set (sv_queue sample_server) \<and> sv_timer sample_server = None"
proof -
  have "\<not> sv_acceptor_open sample_server" "sv_sessions sample_server = []" by (simp_all add: sample_server_def)
  then show ?thesis using shutdown_on_request [OF sample_server_reachable] by auto
qed

text \<open>C5. A shutdown ends: once the acceptor is closed, the server takes at most \<open>shutdown_bound\<close> more steps,
  however the threads, the network and the timer interleave, whatever handlers do between two waits; and
  it only stops taking steps when every worker has left, so that \<open>wait\<close> returns, with every session ended and
  accounted for, unless the time of the graceful shutdown ran out and the context was stopped.\<close>

theorem shutdown_terminates:
  assumes "server_reachable handler config sv" "\<not> sv_acceptor_open sv" "sv_spawned sv"
    "(server_step handler ^^ n) sv sv'"
  shows "n \<le> shutdown_bound sv \<and>
    ((\<nexists>sv''. server_step handler sv' sv'') \<longrightarrow> wait_returns sv' \<and>
      (sv_context_stopped sv' \<or> sv_sessions sv' = [] \<and> sv_active sv' = 0 \<and>
        (\<forall>s \<in> set (sv_controls sv'). ss_point s = Ended)))"
proof -
  have r: "server_reachable handler config sv'" using assms(4)
    by (induction n arbitrary: sv') (auto intro: assms(1) server_reachable.stepped)
  have run: "n + shutdown_bound sv' \<le> shutdown_bound sv" "server_inv config handler sv'"
    using shutdown.run [OF assms(4), of config] server_reachable_inv [OF assms(1)] assms(2) by auto
  have sp: "sv_spawned sv'" using assms(4)
    by (induction n arbitrary: sv') (auto intro: assms(3) step_spawned)
  have "sv_running_workers sv' = 0 \<and> (sv_context_stopped sv' \<or> \<not> has_work sv')" if "\<nexists>sv''. server_step handler sv' sv''"
  proof -
    have w: "sv_running_workers sv' = 0" using stuck_workers [OF that] .
    moreover have "0 < sc_workers (sv_config sv')" using reachable_workers [OF r] by simp
    ultimately show ?thesis using server_reachable_idle [OF r] sp by (simp add: idle_inv_def)
  qed
  then show ?thesis using run no_work_sessions [of sv'] by (auto simp: server_inv_def wait_returns_def)
qed

theorem shutdown_terminates_witness:
  "\<exists>sv. server_step sample_raw_handler sample_server sv \<and> 1 \<le> shutdown_bound sample_server"
proof -
  let ?sv = "post_control (T_accepted (Some Operation_aborted)) (sample_server\<lparr>sv_accepting := False\<rparr>)"
  have st: "server_step sample_raw_handler sample_server ?sv"
    by (rule server_step.connection) (simp_all add: sample_server_def running_def accept_answer_def)
  then have "(server_step sample_raw_handler ^^ 1) sample_server ?sv" by (simp add: relcompp.simps)
  moreover have "\<not> sv_acceptor_open sample_server" "sv_spawned sample_server" by (simp_all add: sample_server_def)
  ultimately have "1 \<le> shutdown_bound sample_server"
    using shutdown_terminates [OF sample_server_reachable] by blast
  then show ?thesis using st by blast
qed

end
