(* ===== verification/Flash_Serve.thy ===== *)
theory Flash_Serve
  imports Flash_Dispatch_Props Flash_Server_Props
begin

text \<open>
  The last part of \<open>include/flash/dispatch.hpp\<close>: the handlers as the server calls them, and \<open>serve\<close>; and what
  the routing decides, seen on the connection.
\<close>

section \<open>Handlers of the server\<close>

text \<open>The call operators of \<open>reflected_handler\<close> and \<open>application_handler\<close> return a response and leave the
  writer alone.\<close>

definition reflected_call ::
    "documentation_mode \<Rightarrow> string throwing \<Rightarrow> type_table \<Rightarrow> error_map \<Rightarrow> 'a handlers \<Rightarrow> decl_info list \<Rightarrow>
     state_registry \<Rightarrow> 'a raw_call" where
  "reflected_call mode doc T em call ns states request writer a =
     (case reflected_handler mode doc T em call ns states request a of
        (result, a') \<Rightarrow> (map_sum id Some result, writer, a'))"

definition application_call ::
    "documentation_mode \<Rightarrow> string throwing \<Rightarrow> type_table \<Rightarrow> error_map \<Rightarrow> 'a handlers \<Rightarrow> decl_info list \<Rightarrow>
     state_registry \<Rightarrow> 'a middleware list \<Rightarrow> 'a world raw_call" where
  "application_call mode doc T em call ns states layers request writer w =
     (case application_handler mode doc T em call ns states layers request w of
        (result, w') \<Rightarrow> (map_sum id Some result, writer, w'))"

text \<open>\<open>serve\<close>: the handler, and the server up to its \<open>wait\<close>. The overloads without a stop token pass one that is
  never requested.\<close>

definition serve ::
    "documentation_mode \<Rightarrow> string throwing \<Rightarrow> type_table \<Rightarrow> error_map \<Rightarrow> 'a handlers \<Rightarrow> decl_info list \<Rightarrow>
     server_config \<Rightarrow> 16 word throwing \<Rightarrow> bool \<Rightarrow> state_registry \<Rightarrow> 'a raw_call \<times> server throwing" where
  "serve mode doc T em call ns config listen stop_requested states =
     (reflected_call mode doc T em call ns states, serve_raw config listen stop_requested)"

definition serve_application ::
    "documentation_mode \<Rightarrow> string throwing \<Rightarrow> type_table \<Rightarrow> error_map \<Rightarrow> 'a handlers \<Rightarrow> decl_info list \<Rightarrow>
     server_config \<Rightarrow> 16 word throwing \<Rightarrow> bool \<Rightarrow> 'a middleware list \<Rightarrow> state_registry \<Rightarrow>
     'a world raw_call \<times> server throwing" where
  "serve_application mode doc T em call ns config listen stop_requested layers states =
     (application_call mode doc T em call ns states layers, serve_raw config listen stop_requested)"

section \<open>What the handler gives the session\<close>

lemma invoke_reflected:
  "fst (invoke_raw_handler (reflected_call mode doc T em call ns states) request a) =
     fst (reflected_handler mode doc T em call ns states request a)"
  by (cases "reflected_handler mode doc T em call ns states request a"; cases "fst (reflected_handler mode doc T em call ns states request a)")
    (auto simp: invoke_raw_handler_def reflected_call_def)

lemma invoke_application:
  "fst (invoke_raw_handler (application_call mode doc T em call ns states layers) request w) =
     fst (application_handler mode doc T em call ns states layers request w)"
  by (cases "application_handler mode doc T em call ns states layers request w";
      cases "fst (application_handler mode doc T em call ns states layers request w)")
    (auto simp: invoke_raw_handler_def application_call_def)

text \<open>Off the documentation paths, the reflected handler dispatches.\<close>

definition undocumented_path :: "documentation_mode \<Rightarrow> decl_info list \<Rightarrow> request_view \<Rightarrow> bool" where
  "undocumented_path mode ns request \<longleftrightarrow> mode = Disabled \<or>
     documentation_paths_available (endpoints ns) \<and> rv_path request \<noteq> ''/openapi.json'' \<and> rv_path request \<noteq> ''/docs''"

lemma reflected_dispatches:
  "undocumented_path mode ns request \<Longrightarrow>
   reflected_handler mode doc T em call ns states request a = dispatch_with_state T em call ns request states [] a"
  by (auto simp: undocumented_path_def reflected_handler_def documentation_response_def Let_def)

lemma exchange_answer:
  assumes "session_reachable config handler s" "(Some request, w) \<in> set (ss_exchanges s)"
  shows "\<exists>a version keep. to_beast_response (answer_of handler request a) version keep = Inr w"
proof -
  have "exchange_ok config handler (ss_token s) (Some request, w)"
    using session_reachable_inv [OF assms(1)] assms(2) by (simp add: session_inv_def)
  then show ?thesis by (simp add: exchange_ok_def)
qed

lemma wire_parts:
  assumes "to_beast_response r version keep = Inr w"
  shows "wr_status w = status_code (rm_status r)" "wr_body w = rm_body r"
    "header_map r n = Some v \<Longrightarrow> (n, v) \<in> set (wr_fields w)"
  using assms by (auto simp: to_beast_response_Inr_iff header_map_def dest: map_of_SomeD)

section \<open>Runs of a server\<close>

text \<open>A session that is left alone runs in a server as it runs by itself.\<close>

lemma server_runs_session:
  assumes "(session_step config handler)\<^sup>*\<^sup>* s s'" "server_reachable handler config sv" "running sv"
    "sv_config sv = config" "sv_controls sv = [s]"
  shows "\<exists>sv'. server_reachable handler config sv' \<and> running sv' \<and> sv_config sv' = config \<and> sv_controls sv' = [s']"
  using assms(1)
proof (induction rule: rtranclp_induct)
  case (step s1 s2)
  then obtain sv1 where sv1: "server_reachable handler config sv1" "running sv1" "sv_config sv1 = config"
    "sv_controls sv1 = [s1]" by blast
  have "server_step handler sv1 (session_moved 0 s2 sv1)"
    using sv1 step.hyps(2) by (intro server_step.session) simp_all
  then have "server_reachable handler config (session_moved 0 s2 sv1)" using sv1(1) server_reachable.stepped by blast
  moreover have "running (session_moved 0 s2 sv1) \<and> sv_config (session_moved 0 s2 sv1) = config \<and>
      sv_controls (session_moved 0 s2 sv1) = [s2]"
    using sv1 by (simp add: session_moved_def post_control_def running_def Let_def)
  ultimately show ?case by blast
qed (use assms in blast)

text \<open>A request within the limits reaches the handler, and what it answers is written.\<close>

lemma session_exchange:
  fixes head :: message_head
  assumes "to_flash_method (mh_verb head) = Some m" "length (mh_fields head) \<le> sc_header_field_limit config"
    "length content \<le> sc_body_limit config"
  defines "request \<equiv> make_request m (mh_target head) (mh_fields head) content (mh_keep_alive head) (Some 0)"
  assumes w: "to_beast_response (answer_of handler request a) (mh_version head) (mh_keep_alive head) = Inr w"
  shows "\<exists>s. (session_step config handler)\<^sup>*\<^sup>* (session_control 0) s \<and> ss_exchanges s = [(Some request, w)]"
proof -
  let ?s1 = "loop_top config (session_control 0)"
  let ?s2 = "header_done config (Inr head) ?s1"
  let ?s3 = "body_done config head (Inr (mh_fields head, content)) ?s2"
  let ?s4 = "handler_done config head request (fst (invoke_raw_handler handler request a)) ?s3"
  have s1: "?s1 = (session_control 0)\<lparr>ss_phase := Reading, ss_deadline := Some (sc_header_timeout config),
      ss_cancelled := False, ss_point := Await_header\<rparr>"
    by (simp add: loop_top_def session_control_def)
  have s2: "?s2 = ?s1\<lparr>ss_first := False, ss_deadline := Some (sc_body_timeout config), ss_cancelled := False,
      ss_point := Await_body head\<rparr>"
    using assms(2) by (simp add: header_done_def Let_def)
  have s3: "?s3 = ?s2\<lparr>ss_phase := Handling, ss_point := Await_handler head request\<rparr>"
    using assms(1) unfolding s2 unfolding s1 by (simp add: body_done_def request_def Let_def session_control_def)
  have p: "ss_point (session_control 0) = Spawned" "ss_point ?s1 = Await_header" "ss_point ?s2 = Await_body head"
    by (simp add: session_control_def) (simp add: s1, simp add: s2)
  have p3: "ss_point ?s3 = Await_handler head request" unfolding s3 by simp
  have st: "\<not> ss_stop ?s3" and e: "ss_exchanges ?s3 = []"
    unfolding s3 unfolding s2 unfolding s1 by (simp_all add: session_control_def)
  have "(session_step config handler)\<^sup>*\<^sup>* (session_control 0) ?s1" by (intro r_into_rtranclp session_step.start p)
  then have "(session_step config handler)\<^sup>*\<^sup>* (session_control 0) ?s2"
    by (rule rtranclp.rtrancl_into_rtrancl) (rule session_step.header_read [OF p(2)])
  then have "(session_step config handler)\<^sup>*\<^sup>* (session_control 0) ?s3"
    by (rule rtranclp.rtrancl_into_rtrancl) (rule session_step.body_read [OF p(3)], simp add: parser_accepts_def assms(3))
  then have "(session_step config handler)\<^sup>*\<^sup>* (session_control 0) ?s4"
    by (rule rtranclp.rtrancl_into_rtrancl) (rule session_step.handled [OF p3])
  moreover have "ss_exchanges ?s4 = [(Some request, w)]"
    using st w [unfolded answer_of_def] by (simp add: handler_done_def respond_def start_write_def e Let_def)
  ultimately show ?thesis by blast
qed

text \<open>Both together: a running server that has answered this request.\<close>

lemma server_exchange:
  fixes head :: message_head
  assumes "to_flash_method (mh_verb head) = Some m" "length (mh_fields head) \<le> sc_header_field_limit config"
    "length content \<le> sc_body_limit config" "0 < sc_workers config" "sc_workers config \<le> 256"
  defines "request \<equiv> make_request m (mh_target head) (mh_fields head) content (mh_keep_alive head) (Some 0)"
  assumes "to_beast_response (answer_of handler request a) (mh_version head) (mh_keep_alive head) = Inr w"
  shows "\<exists>sv s. server_reachable handler config sv \<and> s \<in> set (sv_controls sv) \<and> (Some request, w) \<in> set (ss_exchanges s)"
proof -
  obtain s where s: "(session_step config handler)\<^sup>*\<^sup>* (session_control 0) s"
    "ss_exchanges s = [(Some request, w)]"
    using session_exchange [OF assms(1-3), of handler a w] assms(7) unfolding request_def by blast
  obtain sv where "server_reachable handler config sv" "running sv" "sv_config sv = config" "sv_controls sv = [session_control 0]"
    using server_first_connection [OF assms(4,5)] by blast
  from server_runs_session [OF s(1) this] obtain sv' where
    sv': "server_reachable handler config sv'" "sv_controls sv' = [s]" by blast
  then have "s \<in> set (sv_controls sv')" by simp
  moreover have "(Some request, w) \<in> set (ss_exchanges s)" unfolding s(2) by simp
  ultimately show ?thesis using sv'(1) by blast
qed

lemma server_exchange_answer:
  assumes "server_reachable handler config sv" "s \<in> set (sv_controls sv)" "(Some request, w) \<in> set (ss_exchanges s)"
  shows "\<exists>a version keep. to_beast_response (answer_of handler request a) version keep = Inr w"
proof -
  obtain i where "i < length (sv_controls sv)" "s = sv_controls sv ! i" using assms(2) by (metis in_set_conv_nth)
  then have "session_reachable config handler s"
    using server_reachable_inv [OF assms(1)] by (simp add: server_inv_def controls_inv_def)
  from exchange_answer [OF this assms(3)] show ?thesis .
qed

end
