(* ===== verification/Flash_Store.thy ===== *)
theory Flash_Store
  imports "HOL-Library.Word"
begin

text \<open>
  The store of \<open>src/examples/crud/main.cpp\<close>: a vector of items under a mutex, so each method is one step. Its
  interface is \<open>item_repository\<close>: what each method does to the finite map from ids to items.
\<close>

section \<open>The store\<close>

record create_item =
  ci_name :: string
  ci_quantity :: "32 word"

record patch_item =
  pa_name :: "string option"
  pa_quantity :: "32 word option"

record item =
  it_id :: "64 word"
  it_name :: string
  it_quantity :: "32 word"

datatype item_error = Item_not_found

record item_store =
  st_items :: "item list"
  st_next_id :: "64 word"

definition empty_store :: item_store where
  "empty_store = \<lparr>st_items = [], st_next_id = 1\<rparr>"

fun find_locked :: "item list \<Rightarrow> 64 word \<Rightarrow> nat option" where
  "find_locked [] i = None"
| "find_locked (x # xs) i = (if it_id x = i then Some 0 else map_option Suc (find_locked xs i))"

definition store_create :: "create_item \<Rightarrow> item_store \<Rightarrow> item \<times> item_store" where
  "store_create input st =
     (let x = \<lparr>it_id = st_next_id st, it_name = ci_name input, it_quantity = ci_quantity input\<rparr>
      in (x, st\<lparr>st_items := st_items st @ [x], st_next_id := st_next_id st + 1\<rparr>))"

definition store_find :: "64 word \<Rightarrow> item_store \<Rightarrow> item_error + item" where
  "store_find i st = (case find_locked (st_items st) i of
       None \<Rightarrow> Inl Item_not_found
     | Some k \<Rightarrow> Inr (st_items st ! k))"

definition store_replace :: "64 word \<Rightarrow> create_item \<Rightarrow> item_store \<Rightarrow> (item_error + item) \<times> item_store" where
  "store_replace i input st = (case find_locked (st_items st) i of
       None \<Rightarrow> (Inl Item_not_found, st)
     | Some k \<Rightarrow>
         (let x = (st_items st ! k)\<lparr>it_name := ci_name input, it_quantity := ci_quantity input\<rparr>
          in (Inr x, st\<lparr>st_items := (st_items st)[k := x]\<rparr>)))"

definition store_patch :: "64 word \<Rightarrow> patch_item \<Rightarrow> item_store \<Rightarrow> (item_error + item) \<times> item_store" where
  "store_patch i input st = (case find_locked (st_items st) i of
       None \<Rightarrow> (Inl Item_not_found, st)
     | Some k \<Rightarrow>
         (let x = st_items st ! k;
              x1 = (case pa_name input of None \<Rightarrow> x | Some n \<Rightarrow> x\<lparr>it_name := n\<rparr>);
              x2 = (case pa_quantity input of None \<Rightarrow> x1 | Some q \<Rightarrow> x1\<lparr>it_quantity := q\<rparr>)
          in (Inr x2, st\<lparr>st_items := (st_items st)[k := x2]\<rparr>)))"

definition store_erase :: "64 word \<Rightarrow> item_store \<Rightarrow> (item_error + unit) \<times> item_store" where
  "store_erase i st = (case find_locked (st_items st) i of
       None \<Rightarrow> (Inl Item_not_found, st)
     | Some k \<Rightarrow> (Inr (), st\<lparr>st_items := take k (st_items st) @ drop (k + 1) (st_items st)\<rparr>))"

section \<open>The interface\<close>

type_synonym items = "64 word \<rightharpoonup> string \<times> 32 word"

definition item_of :: "64 word \<Rightarrow> string \<times> 32 word \<Rightarrow> item" where
  "item_of i x = \<lparr>it_id = i, it_name = fst x, it_quantity = snd x\<rparr>"

definition patched :: "patch_item \<Rightarrow> string \<times> 32 word \<Rightarrow> string \<times> 32 word" where
  "patched input x =
     ((case pa_name input of None \<Rightarrow> fst x | Some n \<Rightarrow> n), (case pa_quantity input of None \<Rightarrow> snd x | Some q \<Rightarrow> q))"

locale item_repository =
  fixes ok :: "'s \<Rightarrow> bool" and fresh :: "'s \<Rightarrow> 64 word" and items_of :: "'s \<Rightarrow> items"
    and create :: "create_item \<Rightarrow> 's \<Rightarrow> item \<times> 's"
    and lookup :: "64 word \<Rightarrow> 's \<Rightarrow> item_error + item"
    and replace :: "64 word \<Rightarrow> create_item \<Rightarrow> 's \<Rightarrow> (item_error + item) \<times> 's"
    and patch :: "64 word \<Rightarrow> patch_item \<Rightarrow> 's \<Rightarrow> (item_error + item) \<times> 's"
    and erase :: "64 word \<Rightarrow> 's \<Rightarrow> (item_error + unit) \<times> 's"
  assumes create_spec: "ok s \<Longrightarrow> fresh s \<noteq> - 1 \<Longrightarrow>
      fst (create c s) = item_of (fresh s) (ci_name c, ci_quantity c) \<and> ok (snd (create c s)) \<and>
      fresh (snd (create c s)) = fresh s + 1 \<and> items_of s (fresh s) = None \<and>
      items_of (snd (create c s)) = (items_of s)(fresh s \<mapsto> (ci_name c, ci_quantity c))"
    and lookup_spec: "ok s \<Longrightarrow> lookup i s =
      (case items_of s i of None \<Rightarrow> Inl Item_not_found | Some x \<Rightarrow> Inr (item_of i x))"
    and missing: "ok s \<Longrightarrow> items_of s i = None \<Longrightarrow> replace i c s = (Inl Item_not_found, s) \<and>
      patch i p s = (Inl Item_not_found, s) \<and> erase i s = (Inl Item_not_found, s)"
    and replace_spec: "ok s \<Longrightarrow> items_of s i = Some x \<Longrightarrow>
      fst (replace i c s) = Inr (item_of i (ci_name c, ci_quantity c)) \<and> ok (snd (replace i c s)) \<and>
      fresh (snd (replace i c s)) = fresh s \<and>
      items_of (snd (replace i c s)) = (items_of s)(i \<mapsto> (ci_name c, ci_quantity c))"
    and patch_spec: "ok s \<Longrightarrow> items_of s i = Some x \<Longrightarrow>
      fst (patch i p s) = Inr (item_of i (patched p x)) \<and> ok (snd (patch i p s)) \<and>
      fresh (snd (patch i p s)) = fresh s \<and> items_of (snd (patch i p s)) = (items_of s)(i \<mapsto> patched p x)"
    and erase_spec: "ok s \<Longrightarrow> items_of s i = Some x \<Longrightarrow>
      fst (erase i s) = Inr () \<and> ok (snd (erase i s)) \<and> fresh (snd (erase i s)) = fresh s \<and>
      items_of (snd (erase i s)) = (items_of s)(i := None)"
begin

text \<open>Reading what was written, through any of the methods that write.\<close>

lemma lookup_created:
  "ok s \<Longrightarrow> fresh s \<noteq> - 1 \<Longrightarrow> lookup (it_id (fst (create c s))) (snd (create c s)) = Inr (fst (create c s))"
  using create_spec [of s c] lookup_spec [of "snd (create c s)"] by (simp add: item_of_def)

lemma lookup_replaced:
  "ok s \<Longrightarrow> fst (replace i c s) = Inr x \<Longrightarrow> lookup i (snd (replace i c s)) = Inr x"
  using replace_spec [of s i _ c] missing [of s i c] lookup_spec [of "snd (replace i c s)" i]
  by (cases "items_of s i") auto

lemma lookup_erased: "ok s \<Longrightarrow> lookup i (snd (erase i s)) = Inl Item_not_found"
  using erase_spec [of s i] missing [of s i] lookup_spec [of "snd (erase i s)" i] lookup_spec [of s i]
  by (cases "items_of s i") auto

lemma lookup_other:
  assumes "ok s" "i \<noteq> j"
  shows "lookup j (snd (replace i c s)) = lookup j s" "lookup j (snd (patch i p s)) = lookup j s"
    "lookup j (snd (erase i s)) = lookup j s"
  using assms missing [of s i] replace_spec [of s i _ c] patch_spec [of s i _ p] erase_spec [of s i]
    lookup_spec [of s j] lookup_spec [of "snd (replace i c s)" j] lookup_spec [of "snd (patch i p s)" j]
    lookup_spec [of "snd (erase i s)" j]
  by (cases "items_of s i"; simp)+

end

section \<open>The store provides it\<close>

definition store_items :: "item_store \<Rightarrow> items" where
  "store_items st = map_of (map (\<lambda>x. (it_id x, (it_name x, it_quantity x))) (st_items st))"

definition store_ok :: "item_store \<Rightarrow> bool" where
  "store_ok st \<longleftrightarrow> distinct (map it_id (st_items st)) \<and> (\<forall>x \<in> set (st_items st). it_id x < st_next_id st)"

lemma find_locked_None: "find_locked xs i = None \<longleftrightarrow> i \<notin> it_id ` set xs"
  by (induction xs) auto

lemma find_locked_Some: "find_locked xs i = Some k \<Longrightarrow> k < length xs \<and> it_id (xs ! k) = i"
proof (induction xs arbitrary: k)
  case (Cons x xs)
  then show ?case by (cases "it_id x = i") auto
qed simp

definition pairs :: "item list \<Rightarrow> (64 word \<times> (string \<times> 32 word)) list" where
  "pairs xs = map (\<lambda>x. (it_id x, (it_name x, it_quantity x))) xs"

lemma fst_pairs: "map fst (pairs xs) = map it_id xs"
  by (simp add: pairs_def)

lemma map_of_pairs_find:
  "map_of (pairs xs) i = (case find_locked xs i of None \<Rightarrow> None | Some k \<Rightarrow> Some (it_name (xs ! k), it_quantity (xs ! k)))"
  by (induction xs) (auto simp: pairs_def split: option.split)

lemma map_of_pairs_update:
  assumes "distinct (map it_id xs)" "k < length xs" "it_id y = it_id (xs ! k)"
  shows "map_of (pairs (xs[k := y])) = (map_of (pairs xs))(it_id y \<mapsto> (it_name y, it_quantity y))"
  using assms
proof (induction xs arbitrary: k)
  case (Cons x xs)
  show ?case
  proof (cases k)
    case 0
    then show ?thesis using Cons.prems by (auto simp: pairs_def fun_eq_iff)
  next
    case (Suc n)
    have "it_id (xs ! n) \<in> it_id ` set xs" using Cons.prems Suc by simp
    then have "it_id x \<noteq> it_id y" using Cons.prems Suc by auto
    then show ?thesis using Cons.IH [of n] Cons.prems Suc by (auto simp: pairs_def)
  qed
qed simp

lemma map_of_pairs_erase:
  assumes "distinct (map it_id xs)" "k < length xs"
  shows "map_of (pairs (take k xs @ drop (k + 1) xs)) = (map_of (pairs xs))(it_id (xs ! k) := None)"
  using assms
proof (induction xs arbitrary: k)
  case (Cons x xs)
  show ?case
  proof (cases k)
    case 0
    have "map_of (pairs xs) (it_id x) = None"
      using Cons.prems(1) by (simp add: map_of_eq_None_iff pairs_def image_image)
    then show ?thesis using 0 by (auto simp: pairs_def)
  next
    case (Suc n)
    have "it_id (xs ! n) \<in> it_id ` set xs" using Cons.prems Suc by simp
    then have "it_id x \<noteq> it_id (xs ! n)" using Cons.prems by auto
    then show ?thesis using Cons.IH [of n] Cons.prems Suc by (auto simp: pairs_def)
  qed
qed simp

lemma update_store_ok:
  assumes "store_ok st" "k < length (st_items st)" "it_id y = it_id (st_items st ! k)"
  shows "store_ok (st\<lparr>st_items := (st_items st)[k := y]\<rparr>)"
    "store_items (st\<lparr>st_items := (st_items st)[k := y]\<rparr>) = (store_items st)(it_id y \<mapsto> (it_name y, it_quantity y))"
proof -
  have "map it_id ((st_items st)[k := y]) = map it_id (st_items st)"
    using assms(2,3) by (metis list_update_id map_update nth_map)
  moreover have "it_id x < st_next_id st" if "x \<in> set ((st_items st)[k := y])" for x
    using that set_update_subset_insert [of "st_items st" k y] assms by (auto simp: store_ok_def)
  ultimately show "store_ok (st\<lparr>st_items := (st_items st)[k := y]\<rparr>)" using assms(1) by (simp add: store_ok_def)
  show "store_items (st\<lparr>st_items := (st_items st)[k := y]\<rparr>) = (store_items st)(it_id y \<mapsto> (it_name y, it_quantity y))"
    using map_of_pairs_update [of "st_items st" k y] assms by (simp add: store_items_def store_ok_def pairs_def)
qed

lemma store_items_find:
  "store_items st i = (case find_locked (st_items st) i of None \<Rightarrow> None
     | Some k \<Rightarrow> Some (it_name (st_items st ! k), it_quantity (st_items st ! k)))"
  using map_of_pairs_find [of "st_items st" i] by (simp add: store_items_def pairs_def)

lemma item_eta: "it_id x = i \<Longrightarrow> x = item_of i (it_name x, it_quantity x)"
  by (simp add: item_of_def)

lemma less_add_one_word:
  assumes "n \<noteq> - 1"
  shows "(n :: 64 word) < n + 1" "x < n \<Longrightarrow> x < n + 1"
proof -
  have "1 + n \<noteq> 0" using assms by (metis add_eq_0_iff)
  then have "unat (n + 1) = Suc (unat n)" using unatSuc by (metis add.commute)
  then show "n < n + 1" "x < n \<Longrightarrow> x < n + 1" by (simp_all add: word_less_nat_alt)
qed

lemma store_create_ok:
  assumes "store_ok st" "st_next_id st \<noteq> - 1"
  shows "store_ok (snd (store_create c st))" "store_items st (st_next_id st) = None"
    "store_items (snd (store_create c st)) = (store_items st)(st_next_id st \<mapsto> (ci_name c, ci_quantity c))"
proof -
  have new: "st_next_id st \<notin> it_id ` set (st_items st)" using assms(1) by (auto simp: store_ok_def)
  show "store_ok (snd (store_create c st))"
    using assms(1) new less_add_one_word [OF assms(2)] by (auto simp: store_ok_def store_create_def Let_def)
  show none: "store_items st (st_next_id st) = None"
    using new by (simp add: store_items_find find_locked_None split: option.split)
  show "store_items (snd (store_create c st)) = (store_items st)(st_next_id st \<mapsto> (ci_name c, ci_quantity c))"
    using none by (auto simp: store_items_def store_create_def Let_def map_add_def fun_eq_iff split: option.split)
qed

lemma store_erase_ok:
  assumes "store_ok st" "find_locked (st_items st) i = Some k"
  shows "store_ok (snd (store_erase i st))" "store_items (snd (store_erase i st)) = (store_items st)(i := None)"
proof -
  have k: "k < length (st_items st)" "it_id (st_items st ! k) = i" using find_locked_Some [OF assms(2)] by auto
  let ?xs = "take k (st_items st) @ drop (k + 1) (st_items st)"
  have "map it_id ?xs = take k (map it_id (st_items st)) @ drop (k + 1) (map it_id (st_items st))"
    by (simp add: take_map drop_map)
  then have "distinct (map it_id ?xs)"
    using assms(1) set_take_disj_set_drop_if_distinct [of "map it_id (st_items st)" k "k + 1"] by (simp add: store_ok_def)
  moreover have "set ?xs \<subseteq> set (st_items st)" by (auto dest: in_set_takeD in_set_dropD)
  ultimately show "store_ok (snd (store_erase i st))" using assms by (auto simp: store_ok_def store_erase_def)
  show "store_items (snd (store_erase i st)) = (store_items st)(i := None)"
    using map_of_pairs_erase [of "st_items st" k] assms k
    by (simp add: store_items_def store_ok_def pairs_def store_erase_def)
qed

interpretation items: item_repository store_ok st_next_id store_items store_create store_find store_replace
    store_patch store_erase
proof unfold_locales
  fix st c i p x
  assume ok: "store_ok st"
  show "st_next_id st \<noteq> - 1 \<Longrightarrow> fst (store_create c st) = item_of (st_next_id st) (ci_name c, ci_quantity c) \<and>
      store_ok (snd (store_create c st)) \<and> st_next_id (snd (store_create c st)) = st_next_id st + 1 \<and>
      store_items st (st_next_id st) = None \<and>
      store_items (snd (store_create c st)) = (store_items st)(st_next_id st \<mapsto> (ci_name c, ci_quantity c))"
    using store_create_ok(1,3) [OF ok, of c] store_create_ok(2) [OF ok] by (simp add: store_create_def item_of_def Let_def)
  show "store_find i st = (case store_items st i of None \<Rightarrow> Inl Item_not_found | Some x \<Rightarrow> Inr (item_of i x))"
    by (auto simp: store_find_def store_items_find item_of_def dest: find_locked_Some split: option.split)
  show "store_items st i = None \<Longrightarrow> store_replace i c st = (Inl Item_not_found, st) \<and>
      store_patch i p st = (Inl Item_not_found, st) \<and> store_erase i st = (Inl Item_not_found, st)"
    by (auto simp: store_items_find store_replace_def store_patch_def store_erase_def split: option.splits)
  assume x: "store_items st i = Some x"
  then obtain k where k: "find_locked (st_items st) i = Some k"
    "x = (it_name (st_items st ! k), it_quantity (st_items st ! k))"
    by (auto simp: store_items_find split: option.splits)
  note kk = find_locked_Some [OF k(1)]
  show "fst (store_replace i c st) = Inr (item_of i (ci_name c, ci_quantity c)) \<and> store_ok (snd (store_replace i c st)) \<and>
      st_next_id (snd (store_replace i c st)) = st_next_id st \<and>
      store_items (snd (store_replace i c st)) = (store_items st)(i \<mapsto> (ci_name c, ci_quantity c))"
    using update_store_ok [OF ok, of k "(st_items st ! k)\<lparr>it_name := ci_name c, it_quantity := ci_quantity c\<rparr>"] k kk
    by (simp add: store_replace_def Let_def item_of_def)
  show "fst (store_patch i p st) = Inr (item_of i (patched p x)) \<and> store_ok (snd (store_patch i p st)) \<and>
      st_next_id (snd (store_patch i p st)) = st_next_id st \<and>
      store_items (snd (store_patch i p st)) = (store_items st)(i \<mapsto> patched p x)"
  proof -
    let ?y = "item_of i (patched p x)"
    obtain n q where y: "st_items st ! k = \<lparr>it_id = i, it_name = n, it_quantity = q\<rparr>"
      using kk by (cases "st_items st ! k") auto
    have "store_patch i p st = (Inr ?y, st\<lparr>st_items := (st_items st)[k := ?y]\<rparr>)"
      using k(2) unfolding store_patch_def k(1)
      by (cases "pa_name p"; cases "pa_quantity p") (simp_all add: y Let_def item_of_def patched_def)
    then show ?thesis using update_store_ok [OF ok, of k ?y] kk by (simp add: item_of_def)
  qed
  show "fst (store_erase i st) = Inr () \<and> store_ok (snd (store_erase i st)) \<and>
      st_next_id (snd (store_erase i st)) = st_next_id st \<and>
      store_items (snd (store_erase i st)) = (store_items st)(i := None)"
    using store_erase_ok [OF ok k(1)] k(1) by (simp add: store_erase_def)
qed

section \<open>Sequences of calls\<close>

text \<open>The mutex serialises the calls of all threads, so a history of the store is a list of calls.\<close>

datatype store_call =
    Call_create create_item
  | Call_find "64 word"
  | Call_replace "64 word" create_item
  | Call_patch "64 word" patch_item
  | Call_erase "64 word"

datatype store_result = Got "item_error + item" | Erased "item_error + unit"

fun run_call :: "store_call \<Rightarrow> item_store \<Rightarrow> store_result \<times> item_store" where
  "run_call (Call_create c) st = map_prod (Got \<circ> Inr) id (store_create c st)"
| "run_call (Call_find i) st = (Got (store_find i st), st)"
| "run_call (Call_replace i c) st = map_prod Got id (store_replace i c st)"
| "run_call (Call_patch i p) st = map_prod Got id (store_patch i p st)"
| "run_call (Call_erase i) st = map_prod Erased id (store_erase i st)"

text \<open>The specification: a map and the next id.\<close>

fun spec_call :: "store_call \<Rightarrow> items \<times> 64 word \<Rightarrow> store_result \<times> items \<times> 64 word" where
  "spec_call (Call_create c) (m, n) =
     (let x = (ci_name c, ci_quantity c) in (Got (Inr (item_of n x)), m(n \<mapsto> x), n + 1))"
| "spec_call (Call_find i) (m, n) =
     (Got (case m i of None \<Rightarrow> Inl Item_not_found | Some x \<Rightarrow> Inr (item_of i x)), m, n)"
| "spec_call (Call_replace i c) (m, n) =
     (case m i of None \<Rightarrow> (Got (Inl Item_not_found), m, n)
      | Some x \<Rightarrow> (let y = (ci_name c, ci_quantity c) in (Got (Inr (item_of i y)), m(i \<mapsto> y), n)))"
| "spec_call (Call_patch i p) (m, n) =
     (case m i of None \<Rightarrow> (Got (Inl Item_not_found), m, n)
      | Some x \<Rightarrow> (Got (Inr (item_of i (patched p x))), m(i \<mapsto> patched p x), n))"
| "spec_call (Call_erase i) (m, n) =
     (case m i of None \<Rightarrow> (Erased (Inl Item_not_found), m, n) | Some x \<Rightarrow> (Erased (Inr ()), m(i := None), n))"

definition store_abs :: "item_store \<Rightarrow> items \<times> 64 word" where
  "store_abs st = (store_items st, st_next_id st)"

fun run_calls :: "(store_call \<Rightarrow> 's \<Rightarrow> store_result \<times> 's) \<Rightarrow> store_call list \<Rightarrow> 's \<Rightarrow> store_result list \<times> 's" where
  "run_calls run [] s = ([], s)"
| "run_calls run (c # cs) s =
     (case run c s of (r, s1) \<Rightarrow> (case run_calls run cs s1 of (rs, s2) \<Rightarrow> (r # rs, s2)))"

fun creates :: "store_call list \<Rightarrow> nat" where
  "creates [] = 0"
| "creates (Call_create c # cs) = creates cs + 1"
| "creates (_ # cs) = creates cs"

lemma pair_parts: "fst p = a \<Longrightarrow> snd p = b \<Longrightarrow> p = (a, b)"
  by (cases p) simp

lemma run_call_refines:
  assumes "store_ok st" "\<forall>d. c = Call_create d \<longrightarrow> st_next_id st \<noteq> - 1"
  shows "spec_call c (store_abs st) = map_prod id store_abs (run_call c st) \<and> store_ok (snd (run_call c st))"
proof (cases c)
  case (Call_create d)
  then show ?thesis using assms items.create_spec [of st d] by (simp add: store_abs_def Let_def map_prod_def split_beta)
next
  case (Call_find i)
  then show ?thesis using assms(1) items.lookup_spec [of st i] by (simp add: store_abs_def)
next
  case (Call_replace i d)
  then show ?thesis using assms(1) items.missing [of st i d] items.replace_spec [of st i _ d]
    by (cases "store_items st i") (simp_all add: store_abs_def Let_def map_prod_def split_beta)
next
  case (Call_patch i p)
  then show ?thesis using assms(1) items.missing [of st i] items.patch_spec [of st i _ p]
    by (cases "store_items st i") (simp_all add: store_abs_def map_prod_def split_beta)
next
  case (Call_erase i)
  then show ?thesis using assms(1) items.missing [of st i] items.erase_spec [of st i]
    by (cases "store_items st i") (simp_all add: store_abs_def map_prod_def split_beta)
qed

lemma next_id_create: "st_next_id (snd (run_call c st)) = st_next_id st + of_nat (creates [c])"
  by (cases c) (simp_all add: store_create_def store_replace_def store_patch_def store_erase_def Let_def split: option.split)

lemma creates_Cons: "creates (c # cs) = creates [c] + creates cs"
  by (cases c) simp_all

lemma run_calls_refine:
  assumes "store_ok st" "unat (st_next_id st) + creates cs < 2 ^ 64"
  shows "run_calls spec_call cs (store_abs st) = map_prod id store_abs (run_calls run_call cs st) \<and>
    store_ok (snd (run_calls run_call cs st))"
  using assms
proof (induction cs arbitrary: st)
  case (Cons c cs)
  let ?s = "snd (run_call c st)"
  have n: "unat (st_next_id st) + creates [c] + creates cs < 2 ^ 64"
    using Cons.prems(2) creates_Cons [of c cs] by simp
  have "unat (- 1 :: 64 word) = 2 ^ 64 - 1" by (simp add: unsigned_minus_1_eq_mask mask_eq_exp_minus_1)
  then have "\<forall>d. c = Call_create d \<longrightarrow> st_next_id st \<noteq> - 1" using n by auto
  note one = run_call_refines [OF Cons.prems(1) this]
  have "unat (st_next_id ?s) = unat (st_next_id st) + creates [c]"
    unfolding next_id_create using n by (simp add: unat_word_ariths unat_of_nat take_bit_eq_mod)
  then have "unat (st_next_id ?s) + creates cs < 2 ^ 64" using n by simp
  from Cons.IH [OF _ this] one show ?case
    by (cases "run_call c st"; cases "run_calls run_call cs ?s") (auto simp: split_beta)
qed simp

section \<open>Properties\<close>

text \<open>C26. The item store of the example behaves as a map from ids to items: whatever calls are made, in whatever
  order, the results are those of the map and the next free id, and so is what is left in the store, up
  to the number of items for which the 64 bit id has room; no id is given twice, also not after an item was
  erased.\<close>

theorem store_refines_map:
  assumes "creates cs < 2 ^ 64 - 1"
  shows "fst (run_calls run_call cs empty_store) = fst (run_calls spec_call cs (Map.empty, 1)) \<and>
    store_abs (snd (run_calls run_call cs empty_store)) = snd (run_calls spec_call cs (Map.empty, 1)) \<and>
    distinct (map it_id (st_items (snd (run_calls run_call cs empty_store))))"
proof -
  have e: "store_ok empty_store" "store_abs empty_store = (Map.empty, 1)"
    by (simp_all add: store_ok_def empty_store_def store_abs_def store_items_def)
  have "unat (st_next_id empty_store) + creates cs < 2 ^ 64" using assms by (simp add: empty_store_def)
  from run_calls_refine [OF e(1) this] show ?thesis by (simp add: e(2) store_ok_def)
qed

theorem store_refines_map_witness:
  "fst (run_calls run_call [Call_create \<lparr>ci_name = ''a'', ci_quantity = 2\<rparr>, Call_erase 1,
      Call_create \<lparr>ci_name = ''b'', ci_quantity = 3\<rparr>, Call_find 1, Call_find 2] empty_store) =
     [Got (Inr \<lparr>it_id = 1, it_name = ''a'', it_quantity = 2\<rparr>), Erased (Inr ()),
      Got (Inr \<lparr>it_id = 2, it_name = ''b'', it_quantity = 3\<rparr>), Got (Inl Item_not_found),
      Got (Inr \<lparr>it_id = 2, it_name = ''b'', it_quantity = 3\<rparr>)]"
proof -
  let ?cs = "[Call_create \<lparr>ci_name = ''a'', ci_quantity = 2\<rparr>, Call_erase 1,
      Call_create \<lparr>ci_name = ''b'', ci_quantity = 3\<rparr>, Call_find 1, Call_find 2]"
  have "creates ?cs < 2 ^ 64 - 1" by simp
  from store_refines_map [OF this] show ?thesis by (simp add: item_of_def Let_def)
qed

end
