(* ===== verification/Flash_Crud.thy ===== *)
theory Flash_Crud
  imports Flash_Serve Flash_Store
begin

text \<open>
  The application of \<open>src/examples/crud/main.cpp\<close>: its classes, its error mapping and its endpoints as the
  reflected declarations of the model, the endpoints' code over the store, and what a client of the
  service sees.
\<close>

section \<open>Classes\<close>

definition plain_field :: "string \<Rightarrow> ctype \<Rightarrow> constraint_annotation list \<Rightarrow> field_info" where
  "plain_field name t cs = \<lparr>fi_identifier = name, fi_type = t, fi_public = True, fi_names = [], fi_defaults = [],
     fi_constraints = cs, fi_descriptions = [], fi_deprecated = 0\<rparr>"

definition plain_class :: "string \<Rightarrow> field_info list \<Rightarrow> object_info" where
  "plain_class name fs = \<lparr>ob_fields = fs, ob_aggregate = True, ob_default_initializable = True,
     ob_schema_names = [], ob_display = name\<rparr>"

definition create_item_class :: object_info where
  "create_item_class = plain_class ''CreateItem''
     [plain_field ''name'' C_string [size_constraint Min_length 1, size_constraint Max_length 80],
      plain_field ''quantity'' (C_int False 32) [numeric_constraint Minimum 1]]"

definition patch_item_class :: object_info where
  "patch_item_class = plain_class ''PatchItem''
     [plain_field ''name'' (C_optional C_string) [size_constraint Min_length 1, size_constraint Max_length 80],
      plain_field ''quantity'' (C_optional (C_int False 32)) [numeric_constraint Minimum 1]]"

definition item_class :: object_info where
  "item_class = plain_class ''Item''
     [plain_field ''id'' (C_int False 64) [], plain_field ''name'' C_string [], plain_field ''quantity'' (C_int False 32) []]"

definition crud_table :: type_table where
  "crud_table = [''CreateItem'' \<mapsto> create_item_class, ''PatchItem'' \<mapsto> patch_item_class, ''Item'' \<mapsto> item_class]"

text \<open>Values of the classes.\<close>

definition item_value :: "item \<Rightarrow> jvalue" where
  "item_value x = V_object [V_int (uint (it_id x)), V_string (it_name x), V_int (uint (it_quantity x))]"

fun create_input :: "jvalue \<Rightarrow> create_item option" where
  "create_input (V_object [V_string n, V_int q]) = Some \<lparr>ci_name = n, ci_quantity = word_of_int q\<rparr>"
| "create_input _ = None"

fun optional_string :: "jvalue \<Rightarrow> string option option" where
  "optional_string V_null = Some None"
| "optional_string (V_some (V_string s)) = Some (Some s)"
| "optional_string _ = None"

fun optional_int :: "jvalue \<Rightarrow> int option option" where
  "optional_int V_null = Some None"
| "optional_int (V_some (V_int i)) = Some (Some i)"
| "optional_int _ = None"

fun patch_input :: "jvalue \<Rightarrow> patch_item option" where
  "patch_input (V_object [n, q]) =
     Option.bind (optional_string n) (\<lambda>n'. Option.bind (optional_int q) (\<lambda>q'.
       Some \<lparr>pa_name = n', pa_quantity = map_option word_of_int q'\<rparr>))"
| "patch_input _ = None"

section \<open>The error mapping\<close>

definition item_errors :: enum_info where
  "item_errors = \<lparr>en_name = ''item_error'', en_enumerators = [(''not_found'', 0)]\<rparr>"

fun item_error_value :: "item_error \<Rightarrow> int" where
  "item_error_value Item_not_found = 0"

definition item_error_mapping :: error_mapping where
  "item_error_mapping = the (map_error (item_error_value Item_not_found) Not_found404 ''item_not_found'' ''Item not found'')"

definition crud_errors :: error_map where
  "crud_errors = [item_errors \<mapsto> [item_error_mapping]]"

section \<open>Endpoints\<close>

definition plain_parameter :: "string \<Rightarrow> ctype \<Rightarrow> parameter_info" where
  "plain_parameter name t = \<lparr>pi_identifier = Some name, pi_type = t, pi_sources = [], pi_defaults = [],
     pi_constraints = [], pi_descriptions = [], pi_deprecated = 0\<rparr>"

definition plain_endpoint :: "http_method \<Rightarrow> string \<Rightarrow> string \<Rightarrow> parameter_info list \<Rightarrow> ctype \<Rightarrow> decl_info" where
  "plain_endpoint m path name ps t = \<lparr>d_is_function = True, d_identifier = name,
     d_routes = (case route_of_literal m path of None \<Rightarrow> [] | Some r \<Rightarrow> [r]), d_parameters = ps, d_return = t,
     d_descriptions = [], d_deprecated = 0\<rparr>"

definition store_type :: cv_type where
  "store_type = \<lparr>cv_class = ''ItemStore'', cv_const = False, cv_volatile = False\<rparr>"

definition id_parameter :: parameter_info where
  "id_parameter = plain_parameter ''id'' (C_int False 64)"

definition store_parameter :: parameter_info where
  "store_parameter = plain_parameter ''store'' (C_state store_type)"

definition expected_item_type :: ctype where
  "expected_item_type = C_expected (C_object ''Item'') item_errors"

definition get_item_decl :: decl_info where
  "get_item_decl = plain_endpoint Get ''/items/{id}'' ''get_item'' [id_parameter, store_parameter] expected_item_type"

definition create_item_decl :: decl_info where
  "create_item_decl = plain_endpoint Post ''/items'' ''create_item''
     [plain_parameter ''input'' (C_object ''CreateItem''), store_parameter] (C_created (C_object ''Item''))"

definition replace_item_decl :: decl_info where
  "replace_item_decl = plain_endpoint Put ''/items/{id}'' ''replace_item''
     [id_parameter, plain_parameter ''input'' (C_object ''CreateItem''), store_parameter] expected_item_type"

definition patch_item_decl :: decl_info where
  "patch_item_decl = plain_endpoint Patch ''/items/{id}'' ''patch_item''
     [id_parameter, plain_parameter ''input'' (C_object ''PatchItem''), store_parameter] expected_item_type"

definition delete_item_decl :: decl_info where
  "delete_item_decl = plain_endpoint Delete ''/items/{id}'' ''delete_item'' [id_parameter, store_parameter]
     (C_expected C_void item_errors)"

definition crud_api :: "decl_info list" where
  "crud_api = [get_item_decl, create_item_decl, replace_item_decl, patch_item_decl, delete_item_decl]"

definition crud_states :: state_registry where
  "crud_states = [(store_type, 0)]"

section \<open>The code of the endpoints\<close>

definition expected_item :: "item_error + item \<Rightarrow> result_value" where
  "expected_item r = (case r of Inl e \<Rightarrow> R_error (item_error_value e) | Inr x \<Rightarrow> R_ok (R_value (item_value x)))"

definition expected_void :: "item_error + unit \<Rightarrow> result_value" where
  "expected_void r = (case r of Inl e \<Rightarrow> R_error (item_error_value e) | Inr u \<Rightarrow> R_ok R_void)"

definition item_location :: "64 word \<Rightarrow> string" where
  "item_location i = ''/items/'' @ show_nat (unat i)"

text \<open>Arguments that do not have the types of the parameters do not compile.\<close>

fun get_item :: "bound_value list \<Rightarrow> item_store \<Rightarrow> result_value throwing \<times> item_store" where
  "get_item [B_value (V_int i), B_state a] st = (Inr (expected_item (store_find (word_of_int i) st)), st)"
| "get_item _ st = (not_compiled, st)"

fun create_item_handler :: "bound_value list \<Rightarrow> item_store \<Rightarrow> result_value throwing \<times> item_store" where
  "create_item_handler [B_value v, B_state a] st = (case create_input v of
       None \<Rightarrow> (not_compiled, st)
     | Some input \<Rightarrow>
         (case store_create input st of
            (x, st') \<Rightarrow> (Inr (R_created (item_value x) (item_location (it_id x))), st')))"
| "create_item_handler _ st = (not_compiled, st)"

fun replace_item :: "bound_value list \<Rightarrow> item_store \<Rightarrow> result_value throwing \<times> item_store" where
  "replace_item [B_value (V_int i), B_value v, B_state a] st = (case create_input v of
       None \<Rightarrow> (not_compiled, st)
     | Some input \<Rightarrow> map_prod (Inr \<circ> expected_item) id (store_replace (word_of_int i) input st))"
| "replace_item _ st = (not_compiled, st)"

fun patch_item_handler :: "bound_value list \<Rightarrow> item_store \<Rightarrow> result_value throwing \<times> item_store" where
  "patch_item_handler [B_value (V_int i), B_value v, B_state a] st = (case patch_input v of
       None \<Rightarrow> (not_compiled, st)
     | Some input \<Rightarrow> map_prod (Inr \<circ> expected_item) id (store_patch (word_of_int i) input st))"
| "patch_item_handler _ st = (not_compiled, st)"

fun delete_item :: "bound_value list \<Rightarrow> item_store \<Rightarrow> result_value throwing \<times> item_store" where
  "delete_item [B_value (V_int i), B_state a] st =
     map_prod (Inr \<circ> expected_void) id (store_erase (word_of_int i) st)"
| "delete_item _ st = (not_compiled, st)"

definition crud_call :: "item_store handlers" where
  "crud_call f =
     (if f = get_item_decl then get_item
      else if f = create_item_decl then create_item_handler
      else if f = replace_item_decl then replace_item
      else if f = patch_item_decl then patch_item_handler
      else if f = delete_item_decl then delete_item
      else (\<lambda>args st. (not_compiled, st)))"

abbreviation crud_dispatch :: "request_view \<Rightarrow> item_store \<Rightarrow> response_message throwing \<times> item_store" where
  "crud_dispatch request st \<equiv> dispatch crud_table crud_errors crud_call crud_api request crud_states st"

text \<open>\<open>main\<close>, up to the wait, for the default configuration with the port and the number of workers of the
  example.\<close>

definition crud_main :: "nat \<Rightarrow> 16 word throwing \<Rightarrow> (item_store raw_call \<times> server throwing) \<times> item_store" where
  "crud_main hardware_concurrency listen =
     (let config = (default_config hardware_concurrency)\<lparr>sc_port := 8080, sc_workers := 2\<rparr>
      in (serve Development (document 3 crud_table crud_errors crud_api) crud_table crud_errors
            crud_call crud_api config listen False crud_states, empty_store))"

end
