(* ===== verification/Flash_Crud_Props.thy ===== *)
theory Flash_Crud_Props
  imports Flash_Crud Flash_Json_Roundtrip
begin

text \<open>
  What a client of the example application sees: its namespace compiles, each request on an item gets the
  response its id and the store call for, and what is created can be read back.
\<close>

section \<open>The namespace compiles\<close>

lemma crud_endpoints: "endpoints crud_api = crud_api"
  by (simp add: crud_api_def endpoints_def get_item_decl_def create_item_decl_def replace_item_decl_def patch_item_decl_def
      delete_item_decl_def plain_endpoint_def is_endpoint_def route_of_literal_def fixed_string_lit_def annotation_text_capacity_def)

definition items_route :: route_pattern where
  "items_route = parse_route (the (fixed_string_lit ''/items''))"

definition item_route :: route_pattern where
  "item_route = parse_route (the (fixed_string_lit ''/items/{id}''))"

lemma crud_entries: "entry_of get_item_decl = (Get, item_route)" "entry_of create_item_decl = (Post, items_route)"
  "entry_of replace_item_decl = (Put, item_route)" "entry_of patch_item_decl = (Patch, item_route)"
  "entry_of delete_item_decl = (Delete, item_route)"
  unfolding items_route_def item_route_def by code_simp+

lemma crud_compiled: "\<exists>api. compile_api crud_api = Some api"
proof -
  have "compile_api crud_api \<noteq> None" by code_simp
  then show ?thesis by simp
qed

text \<open>The sources of the parameters depend on the table only in what is an aggregate.\<close>

definition crud_shapes :: type_table where
  "crud_shapes = [''CreateItem'' \<mapsto> plain_class ''CreateItem'' [], ''PatchItem'' \<mapsto> plain_class ''PatchItem'' [],
     ''Item'' \<mapsto> plain_class ''Item'' []]"

lemma crud_aggregates: "is_aggregate crud_table = is_aggregate crud_shapes"
proof
  show "is_aggregate crud_table t = is_aggregate crud_shapes t" for t
    by (cases t) (simp_all add: crud_table_def crud_shapes_def plain_class_def create_item_class_def
        patch_item_class_def item_class_def)
qed

lemma crud_parameter_source: "parameter_source crud_table = parameter_source crud_shapes"
proof -
  have k: "inferred_kind crud_table = inferred_kind crud_shapes" by (intro ext) (simp add: inferred_kind_def crud_aggregates)
  show ?thesis by (intro ext) (unfold parameter_source_def k, rule refl)
qed

lemma crud_validate: "validate_endpoint_binding crud_table = validate_endpoint_binding crud_shapes"
proof -
  have "every_explicit_path_exists crud_table f i n = every_explicit_path_exists crud_shapes f i n" for f i n
    by (induction n arbitrary: i) (simp, simp only: every_explicit_path_exists.simps crud_parameter_source)
  moreover have "body_parameter_count crud_table f i n = body_parameter_count crud_shapes f i n" for f i n
    by (induction n arbitrary: i) (simp, simp only: body_parameter_count.simps crud_parameter_source)
  ultimately show ?thesis by (intro ext) (simp add: validate_endpoint_binding_def)
qed

lemma crud_checks:
  "list_all (validate_endpoint_binding crud_table) crud_api" "validate_error_mapping crud_errors item_errors"
  "registry_ok crud_states" "documentation_paths_available crud_api"
  unfolding crud_validate by code_simp+

lemma crud_sources:
  "parameter_source crud_table get_item_decl 0 = Some Src_path" "parameter_source crud_table get_item_decl 1 = Some Src_state"
  "parameter_source crud_table delete_item_decl 0 = Some Src_path"
  "parameter_source crud_table delete_item_decl 1 = Some Src_state"
  "parameter_source crud_table create_item_decl 0 = Some Src_body"
  "parameter_source crud_table create_item_decl 1 = Some Src_state"
  "wire_name get_item_decl 0 = Some ''id''" "wire_name delete_item_decl 0 = Some ''id''"
  "wire_name get_item_decl 1 = Some ''store''" "wire_name delete_item_decl 1 = Some ''store''"
  "wire_name create_item_decl 0 = Some ''input''" "wire_name create_item_decl 1 = Some ''store''"
  unfolding crud_parameter_source by code_simp+

lemma route_segments:
  "route_valid item_route" "route_valid items_route"
  "map (\<lambda>e. (seg_kind e, view (seg_text e))) (rp_segments item_route) = [(Literal, ''items''), (Parameter, ''id'')]"
  "map (\<lambda>e. (seg_kind e, view (seg_text e))) (rp_segments items_route) = [(Literal, ''items'')]"
  unfolding items_route_def item_route_def by code_simp+

section \<open>Routing\<close>

definition item_match :: "string \<Rightarrow> route_match" where
  "item_match ds = \<lparr>matched = True, captures = [\<lparr>pc_name = ''id'', pc_value = ds\<rparr>]\<rparr>"

lemma item_path_routes:
  assumes "ds \<noteq> []" "CHR ''/'' \<notin> set ds"
  shows "match_route item_route (''/items/'' @ ds) = item_match ds" "\<not> matched (match_route items_route (''/items/'' @ ds))"
proof -
  obtain a b where ab: "rp_segments item_route = [a, b]" "seg_kind a = Literal" "view (seg_text a) = ''items''"
    "seg_kind b = Parameter" "view (seg_text b) = ''id''"
    using route_segments(3) by (auto simp: map_eq_Cons_conv)
  obtain c where c: "rp_segments items_route = [c]" "seg_kind c = Literal" "view (seg_text c) = ''items''"
    using route_segments(4) by (auto simp: map_eq_Cons_conv)
  have sp: "split_on (CHR ''/'') (''items/'' @ ds) = [''items'', ds]"
    using split_on_append [of "CHR ''/''" "''items''" ds] split_on_clean [OF assms(2)] by simp
  have l: "last (''/items/'' @ ds) \<noteq> CHR ''/''" using assms by (metis last_appendR last_in_set)
  have ne: "rp_segments item_route \<noteq> []" "rp_segments items_route \<noteq> []" by (simp_all add: ab(1) c(1))
  show "match_route item_route (''/items/'' @ ds) = item_match ds"
    using sp l assms(1) by (simp add: match_route_spec [OF ne(1)] route_segments(1) ab item_match_def)
  show "\<not> matched (match_route items_route (''/items/'' @ ds))"
    using sp l assms(1) by (simp add: match_route_spec [OF ne(2)] route_segments(2) c no_match_def)
qed

text \<open>The endpoint for a method on the path of an item.\<close>

definition item_endpoint :: "http_method \<Rightarrow> decl_info option" where
  "item_endpoint m = (case m of Get \<Rightarrow> Some get_item_decl | Head \<Rightarrow> Some get_item_decl | Put \<Rightarrow> Some replace_item_decl
     | Patch \<Rightarrow> Some patch_item_decl | Delete \<Rightarrow> Some delete_item_decl | _ \<Rightarrow> None)"

lemma crud_dispatch_item:
  assumes "rv_path request = ''/items/'' @ ds" "ds \<noteq> []" "CHR ''/'' \<notin> set ds" "item_endpoint (rv_method request) = Some d"
  shows "dispatch_with_state T em call crud_api request crud_states rid s =
    map_prod (map_sum id (clear_body request)) id
      (invoke_endpoint T em call d request (item_match ds) crud_states rid s)"
proof -
  obtain api where api: "compile_api crud_api = Some api" using crud_compiled by blast
  have "api = map entry_of (endpoints crud_api)" using iffD1 [OF compile_api_iff api] by blast
  then have e: "api = [(Get, item_route), (Post, items_route), (Put, item_route), (Patch, item_route), (Delete, item_route)]"
    unfolding crud_endpoints by (simp add: crud_api_def crud_entries)
  note r = item_path_routes [OF assms(2,3), folded assms(1)]
  have m: "matched (match_route item_route (rv_path request))" unfolding r(1) item_match_def by simp
  have q: "rv_method request \<in> {Get, Head, Put, Patch, Delete}"
    using assms(4) by (auto simp: item_endpoint_def split: http_method.splits)
  have f: "filter (path_matches (rv_path request)) api =
      [(Get, item_route), (Put, item_route), (Patch, item_route), (Delete, item_route)]"
    unfolding e by (simp add: path_matches_def m r(2))
  have "\<exists>d. best_endpoint (endpoints crud_api) request d \<and>
      dispatch_with_state T em call crud_api request crud_states rid s = served_by T em call request crud_states rid s d"
    using dispatch_cases [OF api crud_checks(3), of request T em call rid s] q unfolding f
    by (auto simp: eligible_def path_matches_def m)
  then obtain d' where d': "best_endpoint (endpoints crud_api) request d'"
      "dispatch_with_state T em call crud_api request crud_states rid s = served_by T em call request crud_states rid s d'"
    by blast
  have "d' \<in> set crud_api" "eligible (rv_method request) (rv_path request) (entry_of d')"
    using d'(1) unfolding best_endpoint_def crud_endpoints by blast+
  then have "d' = d" using assms(4) q unfolding crud_api_def
    by (auto simp: eligible_def crud_entries item_endpoint_def)
  moreover have "snd (entry_of d) = item_route"
    using assms(4) by (auto simp: item_endpoint_def crud_entries split: http_method.splits)
  ultimately show ?thesis using d'(2) by (simp add: served_by_def r(1))
qed


section \<open>Binding\<close>

text \<open>The id a path segment stands for: after percent decoding, a decimal numeral that fits 64 bits.\<close>

definition item_id :: "string \<Rightarrow> 64 word option" where
  "item_id ds = (case percent_spec False ds of None \<Rightarrow> None
     | Some t \<Rightarrow> if t \<noteq> [] \<and> list_all is_digit t \<and> dec_value t < 2 ^ 64 then Some (of_nat (dec_value t)) else None)"

lemma parse_item_id:
  "case item_id ds of
     Some i \<Rightarrow> parse_decoded_scalar (C_int False 64) ds False = Some (Inr (V_int (uint i)))
   | None \<Rightarrow> \<exists>e. parse_decoded_scalar (C_int False 64) ds False = Some (Inl e)"
proof (cases "percent_spec False ds")
  case None
  then show ?thesis using percent_decode_spec [of ds False] by (auto simp: item_id_def parse_decoded_scalar_def)
next
  case (Some t)
  then obtain d where d: "percent_decode ds False = Inr d" "dv_view d = t"
    using percent_decode_spec [of ds False] by auto
  then have p: "parse_decoded_scalar (C_int False 64) ds False = parse_scalar (C_int False 64) t"
    by (simp add: parse_decoded_scalar_def)
  show ?thesis
  proof (cases "t \<noteq> [] \<and> list_all is_digit t \<and> dec_value t < 2 ^ 64")
    case True
    have "decimal_numeral False t (int (dec_value t)) \<and> int_in_range False 64 (int (dec_value t))"
      using True by (auto simp: decimal_numeral_def int_in_range_def list_all_iff)
    then have "parse_scalar (C_int False 64) t = Some (Inr (V_int (int (dec_value t))))"
      by (rule iffD2 [OF parse_scalar_int_iff])
    moreover have "uint (of_nat (dec_value t) :: 64 word) = int (dec_value t)"
      using True by (simp add: unsigned_of_nat take_bit_nat_eq_self uint_nat)
    ultimately show ?thesis unfolding p using True Some by (simp add: item_id_def del: parse_scalar.simps)
  next
    case False
    have "parse_scalar (C_int False 64) t \<noteq> Some (Inr v)" for v
    proof
      assume a: "parse_scalar (C_int False 64) t = Some (Inr v)"
      then obtain i where "v = V_int i" by (auto split: prod.splits if_splits)
      then have "decimal_numeral False t i \<and> int_in_range False 64 i"
        using iffD1 [OF parse_scalar_int_iff, of False 64 t i] a by (simp del: parse_scalar.simps)
      then show False using False by (auto simp: decimal_numeral_def int_in_range_def list_all_iff)
    qed
    moreover obtain y where "parse_scalar (C_int False 64) t = Some y" by simp
    ultimately have "\<exists>e. parse_scalar (C_int False 64) t = Some (Inl e)" by (cases y) (auto simp del: parse_scalar.simps)
    moreover have "item_id ds = None" using False by (simp add: item_id_def Some)
    ultimately show ?thesis unfolding p by simp
  qed
qed

lemma bind_item_id:
  assumes "parameter_at d 0 = Some id_parameter" "parameter_source crud_table d 0 = Some Src_path" "wire_name d 0 = Some ''id''"
  shows "case item_id ds of
     Some i \<Rightarrow> bind_parameter crud_table d 0 request (item_match ds) states rid = Some (Inr (B_value (V_int (uint i))))
   | None \<Rightarrow> \<exists>e. bind_parameter crud_table d 0 request (item_match ds) states rid = Some (Inl e) \<and>
       be_status e = Unprocessable_content422"
proof -
  have raw: "raw_parameter Src_path request (item_match ds) ''id'' = Inr (Some ds)"
    by (simp add: raw_parameter_def item_match_def find_path_value_def)
  have "bind_parameter crud_table d 0 request (item_match ds) states rid =
      map_option (map_sum id B_value) (bind_present (C_int False 64) [] Src_path ''id'' ds)"
    unfolding bind_parameter_scalar [OF assms insertI1]
    by (simp add: bind_scalar_def raw id_parameter_def plain_parameter_def)
  then show ?thesis using parse_item_id [of ds]
    by (auto simp: bind_present_def scalar_binding_error_def split: option.split option.split_asm)
qed

lemma bind_store:
  assumes "parameter_at d i = Some store_parameter" "parameter_source crud_table d i = Some Src_state" "wire_name d i = Some name"
  shows "bind_parameter crud_table d i request m crud_states rid = Some (Inr (B_state 0))"
proof -
  have "get_state crud_states store_type = Some 0"
    by (simp add: get_state_def crud_states_def)
  then show ?thesis using assms by (simp add: bind_parameter_def store_parameter_def plain_parameter_def)
qed

text \<open>An endpoint whose parameters are the id and the store.\<close>

lemma invoke_item:
  assumes "d \<in> {get_item_decl, delete_item_decl}"
  shows "case item_id ds of
     Some i \<Rightarrow> invoke_endpoint crud_table em call d request (item_match ds) crud_states rid s =
       (case call d [B_value (V_int (uint i)), B_state 0] s of
          (Inl e, s') \<Rightarrow> (Inl e, s')
        | (Inr v, s') \<Rightarrow> (adapt_result crud_table em (d_return d) v rid, s'))
   | None \<Rightarrow> \<exists>r. invoke_endpoint crud_table em call d request (item_match ds) crud_states rid s = (Inr r, s) \<and>
       rm_status r = Unprocessable_content422"
proof -
  have d: "d_is_function d" "d_parameters d = [id_parameter, store_parameter]"
    using assms by (auto simp: get_item_decl_def delete_item_decl_def plain_endpoint_def)
  have par: "parameter_at d 0 = Some id_parameter" "parameter_at d 1 = Some store_parameter"
    by (simp_all add: parameter_at_def d)
  have src: "parameter_source crud_table d 0 = Some Src_path" "parameter_source crud_table d 1 = Some Src_state"
    "wire_name d 0 = Some ''id''" "wire_name d 1 = Some ''store''"
    using assms crud_sources by auto
  have v: "validate_endpoint_binding crud_table d" using assms crud_checks(1) by (auto simp: crud_api_def)
  have two: "[0..<length (d_parameters d)] = [0, 1]" by (simp add: d upt_rec)
  note st = bind_store [OF par(2) src(2,4), of request "item_match ds" rid]
  show ?thesis
  proof (cases "item_id ds")
    case None
    then obtain e where "bind_parameter crud_table d 0 request (item_match ds) crud_states rid = Some (Inl e)"
        "be_status e = Unprocessable_content422"
      using bind_item_id [OF par(1) src(1,3), where ds = ds and request = request and states = crud_states and rid = rid] by auto
    then show ?thesis using v st
      by (auto simp: invoke_endpoint_def bind_arguments_def two None binding_problem_def make_problem_response_def Let_def
          simp del: One_nat_def)
  next
    case (Some i)
    then have "bind_parameter crud_table d 0 request (item_match ds) crud_states rid = Some (Inr (B_value (V_int (uint i))))"
      using bind_item_id [OF par(1) src(1,3), where ds = ds and request = request and states = crud_states and rid = rid] by simp
    then show ?thesis using v st
      by (simp add: invoke_endpoint_def bind_arguments_def two Some del: One_nat_def)
  qed
qed


section \<open>Results\<close>

lemma crud_calls:
  "crud_call get_item_decl = get_item" "crud_call create_item_decl = create_item_handler"
  "crud_call delete_item_decl = delete_item"
proof -
  have "get_item_decl \<noteq> create_item_decl" "delete_item_decl \<noteq> get_item_decl" "delete_item_decl \<noteq> create_item_decl"
    "delete_item_decl \<noteq> replace_item_decl" "delete_item_decl \<noteq> patch_item_decl"
    by (simp_all add: get_item_decl_def create_item_decl_def delete_item_decl_def replace_item_decl_def
        patch_item_decl_def plain_endpoint_def)
  then show "crud_call get_item_decl = get_item" "crud_call create_item_decl = create_item_handler"
    "crud_call delete_item_decl = delete_item" by (simp_all add: crud_call_def)
qed

lemma crud_returns:
  "d_return get_item_decl = C_expected (C_object ''Item'') item_errors"
  "d_return delete_item_decl = C_expected C_void item_errors" "d_return create_item_decl = C_created (C_object ''Item'')"
  by (simp_all add: get_item_decl_def delete_item_decl_def create_item_decl_def plain_endpoint_def expected_item_type_def)

lemma adapt_not_found:
  "\<exists>r. adapt_result crud_table crud_errors (C_expected u item_errors) (R_error 0) rid = Inr r \<and> rm_status r = Not_found404"
proof -
  have "mapped_error crud_errors item_errors 0 = Some item_error_mapping" "em_status item_error_mapping = Not_found404"
    by code_simp+
  then show ?thesis
    by (simp add: adapt_result_def adapt_response.simps crud_checks(2) domain_error_problem_def make_problem_response_def Let_def)
qed

lemma adapt_found:
  "adapt_result crud_table crud_errors (C_expected (C_object ''Item'') item_errors) (R_ok (R_value v)) rid =
     json_response crud_table (C_object ''Item'') v default_response"
  "adapt_result crud_table crud_errors (C_expected C_void item_errors) (R_ok R_void) rid = Inr adapt_void_response"
  by (simp_all add: adapt_result_def adapt_response.simps [of _ _ "C_expected u e" for u e]
      adapt_response.simps [of _ _ "C_object n" for n] crud_checks(2))

lemma crud_item_answer:
  fixes request :: request_view
  assumes "store_ok st" "rv_path request = ''/items/'' @ ds" "ds \<noteq> []" "CHR ''/'' \<notin> set ds"
    "rv_method request \<in> {Get, Head, Delete}"
  defines "D \<equiv> crud_dispatch request st"
  shows "case item_id ds of
      None \<Rightarrow> \<exists>r. D = (Inr (clear_body request r), st) \<and> rm_status r = Unprocessable_content422
    | Some i \<Rightarrow>
        (case store_items st i of
           None \<Rightarrow> \<exists>r. D = (Inr (clear_body request r), st) \<and> rm_status r = Not_found404
         | Some x \<Rightarrow>
             if rv_method request = Delete
             then \<exists>st'. D = (Inr adapt_void_response, st') \<and> store_ok st' \<and> store_items st' = (store_items st)(i := None)
             else D = (map_sum id (clear_body request)
               (json_response crud_table (C_object ''Item'') (item_value (item_of i x)) default_response), st))"
proof -
  define d where "d = (if rv_method request = Delete then delete_item_decl else get_item_decl)"
  have e: "item_endpoint (rv_method request) = Some d" and mem: "d \<in> {get_item_decl, delete_item_decl}"
    using assms(5) by (auto simp: item_endpoint_def d_def)
  have D: "D = map_prod (map_sum id (clear_body request)) id
      (invoke_endpoint crud_table crud_errors crud_call d request (item_match ds) crud_states [] st)"
    unfolding D_def dispatch_def by (rule crud_dispatch_item [OF assms(2-4) e])
  note inv = invoke_item [OF mem, where ds = ds and em = crud_errors and call = crud_call and request = request and
      rid = "[]" and s = st]
  show ?thesis
  proof (cases "item_id ds")
    case None
    then show ?thesis using inv by (auto simp: D)
  next
    case (Some i)
    note missing = items.missing [OF assms(1), of i] and lookup = items.lookup_spec [OF assms(1), of i]
    note call = crud_calls d_def crud_returns expected_item_def expected_void_def
    show ?thesis
    proof (cases "store_items st i")
      case None
      obtain r where "invoke_endpoint crud_table crud_errors crud_call d request (item_match ds) crud_states [] st = (Inr r, st)"
          "rm_status r = Not_found404"
        using inv adapt_not_found [of "C_object ''Item''" "[]"] adapt_not_found [of C_void "[]"] missing lookup None Some
        by (auto simp: call split: if_splits)
      then show ?thesis using None Some by (auto simp: D)
    next
      case (Some x)
      then show ?thesis using inv \<open>item_id ds = Some i\<close> lookup items.erase_spec [OF assms(1) Some]
        by (cases "store_erase i st") (auto simp: D call adapt_found clear_body_def)
    qed
  qed
qed

lemma digits_clean: "c \<in> set (show_nat n) \<Longrightarrow> c \<noteq> CHR ''/'' \<and> c \<noteq> CHR ''%''"
  using show_nat_digits [of n] by (auto simp: is_digit_def)

lemma item_id_show: "item_id (show_nat (unat i)) = Some i"
proof -
  have "percent_spec False (show_nat (unat i)) = Some (show_nat (unat i))"
    by (rule percent_spec_id) (use digits_clean in auto)
  moreover have "list_all is_digit (show_nat (unat i))" using show_nat_digits by (simp add: list_all_iff)
  moreover have "unat i < 2 ^ 64" using unsigned_less [of i, where ?'a = nat] by simp
  ultimately show ?thesis by (simp add: item_id_def)
qed

lemma crud_dispatch_create:
  assumes "rv_path request = ''/items''" "rv_method request = Post"
  shows "dispatch_with_state T em call crud_api request crud_states rid s =
    invoke_endpoint T em call create_item_decl request (match_route items_route ''/items'') crud_states rid s"
proof -
  obtain api where api: "compile_api crud_api = Some api" using crud_compiled by blast
  have "api = map entry_of (endpoints crud_api)" using iffD1 [OF compile_api_iff api] by blast
  then have e: "api = [(Get, item_route), (Post, items_route), (Put, item_route), (Patch, item_route), (Delete, item_route)]"
    unfolding crud_endpoints by (simp add: crud_api_def crud_entries)
  have m: "matched (match_route items_route ''/items'')" "\<not> matched (match_route item_route ''/items'')"
    unfolding items_route_def item_route_def by code_simp+
  have f: "filter (path_matches (rv_path request)) api = [(Post, items_route)]"
    unfolding e assms(1) by (simp only: filter.simps path_matches_def snd_conv m if_True if_False simp_thms)
  have "eligible Post (rv_path request) (Post, items_route)" unfolding assms(1) eligible_def path_matches_def using m by simp
  then obtain d where d: "best_endpoint (endpoints crud_api) request d"
      "dispatch_with_state T em call crud_api request crud_states rid s = served_by T em call request crud_states rid s d"
    using dispatch_cases [OF api crud_checks(3), of request T em call rid s] unfolding f assms(2) by auto
  have "d \<in> set crud_api" "fst (entry_of d) = Post"
    using d(1) assms(2) unfolding best_endpoint_def crud_endpoints eligible_def by auto
  then have "d = create_item_decl" unfolding crud_api_def by (auto simp: crud_entries)
  moreover have "map_prod (map_sum id (clear_body request)) id x = x" for x :: "response_message throwing \<times> 'a"
    by (cases x; cases "fst x") (auto simp: clear_body_def assms(2))
  ultimately show ?thesis using d(2) by (simp only: served_by_def crud_entries snd_conv assms(1))
qed

lemma bind_body_status: "bind_body T t n request = Some (Inl e) \<Longrightarrow> be_status e \<noteq> Created201"
  by (auto simp: bind_body_def scalar_binding_error_def split: sum.splits option.splits outcome.splits if_splits)

text \<open>The endpoint that creates: its input is the body.\<close>

lemma invoke_create:
  "invoke_endpoint crud_table em crud_call create_item_decl request m crud_states rid st =
     (case bind_body crud_table (C_object ''CreateItem'') ''input'' request of
        None \<Rightarrow> (not_compiled, st)
      | Some (Inl e) \<Rightarrow> (Inr (binding_problem e request rid), st)
      | Some (Inr v) \<Rightarrow>
          (case create_input v of
             None \<Rightarrow> (not_compiled, st)
           | Some c \<Rightarrow>
               (case store_create c st of
                  (x, st') \<Rightarrow> (adapt_result crud_table em (d_return create_item_decl)
                    (R_created (item_value x) (item_location (it_id x))) rid, st'))))"
proof -
  let ?d = create_item_decl
  have d: "d_is_function ?d" "d_parameters ?d = [plain_parameter ''input'' (C_object ''CreateItem''), store_parameter]"
    by (simp_all add: create_item_decl_def plain_endpoint_def)
  have par: "parameter_at ?d 0 = Some (plain_parameter ''input'' (C_object ''CreateItem''))"
    "parameter_at ?d 1 = Some store_parameter"
    by (simp_all add: parameter_at_def d)
  have v: "validate_endpoint_binding crud_table ?d" using crud_checks(1) by (simp add: crud_api_def)
  have two: "[0..<length (d_parameters ?d)] = [0, 1]" by (simp add: d upt_rec)
  have st: "bind_parameter crud_table ?d 1 request m crud_states rid = Some (Inr (B_state 0))"
    by (rule bind_store [OF par(2) crud_sources(6,12)])
  have b: "bind_parameter crud_table ?d 0 request m crud_states rid =
      map_option (map_sum id B_value) (bind_body crud_table (C_object ''CreateItem'') ''input'' request)"
    using par(1) crud_sources(5,11) by (simp add: bind_parameter_def plain_parameter_def)
  show ?thesis using v st b
    by (auto simp: invoke_endpoint_def bind_arguments_def two crud_calls not_compiled_def split: option.split sum.split prod.split
        simp del: One_nat_def)
qed

text \<open>A 201 comes from the code of the endpoint, with the input that was read from the body.\<close>

lemma crud_created:
  assumes "rv_path request = ''/items''" "rv_method request = Post"
    "crud_dispatch request st = (Inr r, st')" "rm_status r = Created201"
  shows "\<exists>c body. (let (x, st1) = store_create c st in st' = st1 \<and>
    write_json crud_table (C_object ''Item'') (item_value x) = Inr body \<and> rm_body r = body \<and>
    header_map r ''Location'' = Some (item_location (it_id x)))"
proof -
  have inv: "invoke_endpoint crud_table crud_errors crud_call create_item_decl request (match_route items_route ''/items'')
      crud_states [] st = (Inr r, st')"
    using assms(3) unfolding dispatch_def crud_dispatch_create [OF assms(1,2)] .
  have "rm_status (binding_problem e request []) = be_status e" for e
    by (simp add: binding_problem_def make_problem_response_def Let_def)
  then obtain v c where c: "bind_body crud_table (C_object ''CreateItem'') ''input'' request = Some (Inr v)" "create_input v = Some c"
    using inv assms(4) bind_body_status [of crud_table "C_object ''CreateItem''" "''input''" request]
    by (auto simp: invoke_create not_compiled_def split: option.splits sum.splits)
  obtain x st1 where x: "store_create c st = (x, st1)" by (cases "store_create c st")
  from inv c x have r: "bind_sum (json_response crud_table (C_object ''Item'') (item_value x) (default_response\<lparr>rm_status := Created201\<rparr>))
      (set_header ''Location'' (item_location (it_id x))) = Inr r" "st' = st1"
    by (simp_all add: invoke_create crud_returns adapt_result_def adapt_response.simps [of _ _ "C_created u" for u])
  then obtain body where body: "write_json crud_table (C_object ''Item'') (item_value x) = Inr body"
      "set_header ''Location'' (item_location (it_id x)) (default_response\<lparr>rm_status := Created201, rm_body := body\<rparr>) = Inr r"
    by (auto simp: json_response_def bind_sum_Inr_iff)
  then have "rm_body r = body \<and> header_map r ''Location'' = Some (item_location (it_id x))"
    by (auto simp: set_header_Inr_iff header_map_def replace_or_append_map)
  then show ?thesis using x r(2) body(1) by (intro exI [of _ c] exI [of _ body]) simp
qed

text \<open>What was created is found at its \<open>Location\<close>, in the same words.\<close>

lemma crud_created_is_found:
  fixes post :: request_view
  assumes "store_ok st" "st_next_id st \<noteq> - 1" "rv_path post = ''/items''" "rv_method post = Post"
    "crud_dispatch post st = (Inr r, st')" "rm_status r = Created201"
  shows "\<exists>path. header_map r ''Location'' = Some path \<and>
    (\<forall>request. rv_path request = path \<longrightarrow> rv_method request = Get \<longrightarrow>
      crud_dispatch request st' =
        (Inr (default_response\<lparr>rm_body := rm_body r\<rparr>), st'))"
proof -
  obtain c body where c: "let (x, st1) = store_create c st in st' = st1 \<and>
      write_json crud_table (C_object ''Item'') (item_value x) = Inr body \<and> rm_body r = body \<and>
      header_map r ''Location'' = Some (item_location (it_id x))"
    using crud_created [OF assms(3-6)] by blast
  let ?i = "st_next_id st" and ?x = "(ci_name c, ci_quantity c)"
  note new = items.create_spec [OF assms(1,2), of c]
  have st': "st' = snd (store_create c st)" "store_ok st'" "store_items st' ?i = Some ?x"
    using c new by (auto simp: split_beta Let_def)
  have b: "write_json crud_table (C_object ''Item'') (item_value (item_of ?i ?x)) = Inr (rm_body r)"
    "header_map r ''Location'' = Some (item_location ?i)"
    using c new by (auto simp: split_beta Let_def item_of_def)
  have "crud_dispatch request st' =
      (Inr (default_response\<lparr>rm_body := rm_body r\<rparr>), st')"
    if "rv_path request = item_location ?i" "rv_method request = Get" for request :: request_view
  proof -
    have "CHR ''/'' \<notin> set (show_nat (unat ?i))" using digits_clean by blast
    from crud_item_answer [OF st'(2) that(1) [unfolded item_location_def] show_nat_not_Nil this, unfolded that(2)] show ?thesis
      using b(1) by (simp add: item_id_show st'(3) json_response_def clear_body_def that(2))
  qed
  with b(2) show ?thesis by blast
qed

section \<open>Valid input\<close>

lemma plain_field_name:
  assumes "length name < annotation_text_capacity"
  shows "field_wire_name_value (plain_field name t cs) = Some (fixed_substring name 0 (length name))"
    "field_wire_name (plain_field name t cs) = view (fixed_substring name 0 (length name))"
  using assms by (simp_all add: field_wire_name_def field_wire_name_value_def plain_field_def)

lemma crud_names:
  "view (fixed_substring ''id'' 0 (length ''id'')) = ''id''" "view (fixed_substring ''name'' 0 (length ''name'')) = ''name''"
  "view (fixed_substring ''quantity'' 0 (length ''quantity'')) = ''quantity''"
  by code_simp+

lemma crud_field_names:
  "field_wire_name_value (plain_field ''id'' t cs) \<noteq> None" "field_wire_name (plain_field ''id'' t cs) = ''id''"
  "field_wire_name_value (plain_field ''name'' t cs) \<noteq> None" "field_wire_name (plain_field ''name'' t cs) = ''name''"
  "field_wire_name_value (plain_field ''quantity'' t cs) \<noteq> None" "field_wire_name (plain_field ''quantity'' t cs) = ''quantity''"
  using plain_field_name [of "''id''" t cs] plain_field_name [of "''name''" t cs] plain_field_name [of "''quantity''" t cs]
  unfolding crud_names by (simp_all add: annotation_text_capacity_def)

lemma plain_field_parts [simp]:
  "fi_type (plain_field n t cs) = t" "fi_constraints (plain_field n t cs) = cs" "fi_public (plain_field n t cs)"
  "fi_names (plain_field n t cs) = []" "fi_defaults (plain_field n t cs) = []"
  by (simp_all add: plain_field_def)

lemma crud_table_ok: "table_ok crud_table"
  unfolding table_ok_def validate_input_schema_def validate_output_schema_iff crud_table_def
  by (auto simp: plain_class_def create_item_class_def patch_item_class_def item_class_def crud_field_names
      split: if_splits simp del: not_None_eq)

lemma crud_utf8: "valid_utf8 ''id''" "valid_utf8 ''name''" "valid_utf8 ''quantity''"
  by code_simp+

definition create_value :: "create_item \<Rightarrow> jvalue" where
  "create_value c = V_object [V_string (ci_name c), V_int (uint (ci_quantity c))]"

text \<open>What the annotations of \<open>CreateItem\<close> ask for.\<close>

definition create_valid :: "create_item \<Rightarrow> bool" where
  "create_valid c \<longleftrightarrow> valid_utf8 (ci_name c) \<and> 1 \<le> length (ci_name c) \<and> length (ci_name c) \<le> 80 \<and> 1 \<le> ci_quantity c"

lemma uint_fits: "int_in_range False LENGTH('a) (uint (w :: 'a::len word))"
  using unsigned_less [of w, where ?'a = int] by (simp add: int_in_range_def)

lemma create_fits:
  assumes "create_valid c"
  shows "value_fits default_limits crud_table (C_object ''CreateItem'') 0 (create_value c)"
proof -
  have T: "crud_table ''CreateItem'' = Some create_item_class" by (simp add: crud_table_def)
  have u: "uint (ci_quantity c) < 2 ^ 32" "int_in_range False 32 (uint (ci_quantity c))"
    using uint_fits [of "ci_quantity c"] unsigned_less [of "ci_quantity c", where ?'a = int] by simp_all
  moreover have "1 \<le> uint (ci_quantity c)" using assms by (simp add: create_valid_def word_le_def)
  ultimately have "fp_le (double_of_int 1) (double_of_int (uint (ci_quantity c)))"
    using double_compare_exact(1) [of 1 "uint (ci_quantity c)"] by simp
  then show ?thesis using assms u(2)
    by (auto simp: value_fits_object value_fits_simps T create_value_def create_item_class_def plain_class_def crud_utf8
        crud_field_names default_limits_def create_valid_def validate_field_def constraint_valid_def size_constraint_def
        numeric_constraint_def)
qed

lemma item_fits:
  assumes "valid_utf8 (it_name x)" "length (it_name x) \<le> 80"
  shows "value_fits default_limits crud_table (C_object ''Item'') 0 (item_value x)"
proof -
  have T: "crud_table ''Item'' = Some item_class" by (simp add: crud_table_def)
  show ?thesis using assms uint_fits [of "it_id x"] uint_fits [of "it_quantity x"]
    by (auto simp: value_fits_object value_fits_simps T item_value_def item_class_def plain_class_def crud_utf8
        crud_field_names default_limits_def validate_field_def)
qed

lemma json_media: "is_json_media_type ''application/json''"
  by code_simp

lemma location_valid: "valid_header_name ''Location''" "valid_header_value (item_location i)"
proof -
  show "valid_header_name ''Location''" by code_simp
  have "unat i < 10 ^ 20" using unsigned_less [of i, where ?'a = nat] by simp
  then have "length (show_nat (unat i)) \<le> 20" using length_show_nat [of 20 "unat i"] by simp
  moreover have "(of_char c :: nat) \<ge> 32" if "c \<in> set (item_location i)" for c
    using that show_nat_digits [of "unat i"] by (auto simp: item_location_def is_digit_def)
  ultimately show "valid_header_value (item_location i)"
    by (simp add: valid_header_value_def header_value_chars_ok_iff) (simp add: item_location_def)
qed


text \<open>A valid input, written as JSON, is read, stored and answered with a 201.\<close>

lemma bind_create_body:
  assumes "create_valid c" "find_header_value request ''Content-Type'' = Inr (Some ''application/json'')"
    "write_json crud_table (C_object ''CreateItem'') (create_value c) = Inr (rv_body request)"
    "length (rv_body request) \<le> maximum_input_bytes default_limits"
  shows "bind_body crud_table (C_object ''CreateItem'') ''input'' request = Some (Inr (create_value c))"
proof -
  from json_read_back [OF crud_table_ok create_fits [OF assms(1)]] obtain cu where
    "read_json crud_table (C_object ''CreateItem'') (rv_body request) default_limits = Done (create_value c) cu"
    using assms(3,4) by auto
  then show ?thesis using assms(2) by (simp add: bind_body_def json_media)
qed

lemma crud_create_answer:
  assumes "store_ok st" "st_next_id st \<noteq> - 1" "create_valid c" "rv_path post = ''/items''" "rv_method post = Post"
    "bind_body crud_table (C_object ''CreateItem'') ''input'' post = Some (Inr (create_value c))"
  shows "\<exists>r st'. crud_dispatch post st = (Inr r, st') \<and>
    rm_status r = Created201 \<and> header_map r ''Location'' = Some (item_location (st_next_id st)) \<and>
    write_json crud_table (C_object ''Item'') (item_value (item_of (st_next_id st) (ci_name c, ci_quantity c))) = Inr (rm_body r) \<and>
    store_ok st' \<and> store_items st' = (store_items st)(st_next_id st \<mapsto> (ci_name c, ci_quantity c))"
proof -
  let ?x = "item_of (st_next_id st) (ci_name c, ci_quantity c)"
  obtain st1 where x: "store_create c st = (?x, st1)" "store_ok st1"
      "store_items st1 = (store_items st)(st_next_id st \<mapsto> (ci_name c, ci_quantity c))"
    using items.create_spec [OF assms(1,2), of c] by (cases "store_create c st") auto
  have "valid_utf8 (it_name ?x)" "length (it_name ?x) \<le> 80" using assms(3) by (simp_all add: item_of_def create_valid_def)
  from json_read_back [OF crud_table_ok item_fits [OF this]] obtain body where
    body: "write_json crud_table (C_object ''Item'') (item_value ?x) = Inr body" by blast
  let ?r = "default_response\<lparr>rm_status := Created201, rm_body := body,
      rm_headers := [\<lparr>h_name = ''Location'', h_value = item_location (st_next_id st)\<rparr>]\<rparr>"
  have i: "create_input (create_value c) = Some c" by (simp add: create_value_def)
  have id: "it_id ?x = st_next_id st" by (simp add: item_of_def)
  have r: "adapt_result crud_table crud_errors (C_created (C_object ''Item''))
      (R_created (item_value ?x) (item_location (st_next_id st))) [] = Inr ?r"
    by (simp add: adapt_result_def adapt_response.simps [of _ _ "C_created u" for u] json_response_def body
        set_header_def location_valid default_response_def)
  have "invoke_endpoint crud_table crud_errors crud_call create_item_decl post (match_route items_route ''/items'')
      crud_states [] st = (Inr ?r, st1)"
    by (simp add: invoke_create assms(6) i x(1) id crud_returns r)
  then have "crud_dispatch post st = (Inr ?r, st1)"
    by (simp add: dispatch_def crud_dispatch_create [OF assms(4,5)])
  then show ?thesis using body x by (intro exI [of _ ?r] exI [of _ st1]) (simp add: header_map_def)
qed

section \<open>Properties\<close>

text \<open>C23. What a client of the example sees at \<open>/items/{id}\<close>, for any store that the service can be in: a segment
  that is no decimal numeral of 64 bits gets a 422, the id of no item a 404, both without a change of the
  store; otherwise \<open>GET\<close> answers with the JSON of the item, \<open>HEAD\<close> with the same response without its body, and
  \<open>DELETE\<close> with a 204 that removes exactly this item.\<close>

theorem crud_item_served:
  fixes request :: request_view
  assumes "store_ok st" "rv_path request = ''/items/'' @ ds" "ds \<noteq> []" "CHR ''/'' \<notin> set ds"
    "rv_method request \<in> {Get, Head, Delete}"
  defines "D \<equiv> crud_dispatch request st"
  shows "case item_id ds of
      None \<Rightarrow> \<exists>r. D = (Inr (clear_body request r), st) \<and> rm_status r = Unprocessable_content422
    | Some i \<Rightarrow>
        (case store_items st i of
           None \<Rightarrow> \<exists>r. D = (Inr (clear_body request r), st) \<and> rm_status r = Not_found404
         | Some x \<Rightarrow>
             if rv_method request = Delete
             then \<exists>st'. D = (Inr adapt_void_response, st') \<and> store_ok st' \<and> store_items st' = (store_items st)(i := None)
             else D = (map_sum id (clear_body request)
               (json_response crud_table (C_object ''Item'') (item_value (item_of i x)) default_response), st))"
  unfolding D_def by (rule crud_item_answer [OF assms(1-5)])

text \<open>C8. A valid item survives the service: a \<open>POST\<close> to \<open>/items\<close> of its JSON is answered with a 201 that has the JSON
  of the item under a fresh id, adds exactly this item to the store, and names a \<open>Location\<close>; a \<open>GET\<close> of that path
  is then a 200 with the same body.\<close>

theorem crud_create_readable:
  fixes post :: request_view
  assumes "store_ok st" "st_next_id st \<noteq> - 1" "create_valid c" "rv_path post = ''/items''" "rv_method post = Post"
    "find_header_value post ''Content-Type'' = Inr (Some ''application/json'')"
    "write_json crud_table (C_object ''CreateItem'') (create_value c) = Inr (rv_body post)"
    "length (rv_body post) \<le> maximum_input_bytes default_limits"
  shows "\<exists>r st' path. crud_dispatch post st = (Inr r, st') \<and>
    rm_status r = Created201 \<and> header_map r ''Location'' = Some path \<and>
    write_json crud_table (C_object ''Item'') (item_value (item_of (st_next_id st) (ci_name c, ci_quantity c))) = Inr (rm_body r) \<and>
    store_items st (st_next_id st) = None \<and>
    store_items st' = (store_items st)(st_next_id st \<mapsto> (ci_name c, ci_quantity c)) \<and>
    (\<forall>request. rv_path request = path \<longrightarrow> rv_method request = Get \<longrightarrow>
      crud_dispatch request st' =
        (Inr (default_response\<lparr>rm_body := rm_body r\<rparr>), st'))"
proof -
  obtain r st' where r: "crud_dispatch post st = (Inr r, st')"
      "rm_status r = Created201"
      "write_json crud_table (C_object ''Item'') (item_value (item_of (st_next_id st) (ci_name c, ci_quantity c))) = Inr (rm_body r)"
      "store_items st' = (store_items st)(st_next_id st \<mapsto> (ci_name c, ci_quantity c))"
    using crud_create_answer [OF assms(1-5) bind_create_body [OF assms(3,6-8)]] by blast
  obtain path where path: "header_map r ''Location'' = Some path"
      "\<forall>request. rv_path request = path \<longrightarrow> rv_method request = Get \<longrightarrow>
        crud_dispatch request st' =
          (Inr (default_response\<lparr>rm_body := rm_body r\<rparr>), st')"
    using crud_created_is_found [OF assms(1,2,4,5) r(1,2)] by blast
  have "store_items st (st_next_id st) = None" using items.create_spec [OF assms(1,2)] by blast
  with r path show ?thesis by (intro exI [of _ r] exI [of _ st'] exI [of _ path]) simp
qed

section \<open>A concrete item\<close>

definition sample_input :: create_item where
  "sample_input = \<lparr>ci_name = ''a'', ci_quantity = 2\<rparr>"

definition sample_store :: item_store where
  "sample_store = snd (store_create sample_input empty_store)"

definition sample_post :: request_view where
  "sample_post = make_request Post ''/items'' [\<lparr>hv_name = ''content-type'', hv_value = ''application/json''\<rparr>]
     ''{\"name\":\"a\",\"quantity\":2}'' True None"

lemma crud_classes:
  "crud_table ''CreateItem'' = Some create_item_class" "crud_table ''Item'' = Some item_class"
  "ob_fields create_item_class = [plain_field ''name'' C_string [size_constraint Min_length 1, size_constraint Max_length 80],
      plain_field ''quantity'' (C_int False 32) [numeric_constraint Minimum 1]]"
  "ob_fields item_class =
     [plain_field ''id'' (C_int False 64) [], plain_field ''name'' C_string [], plain_field ''quantity'' (C_int False 32) []]"
  by (simp_all add: crud_table_def create_item_class_def item_class_def plain_class_def)

lemma sample_texts:
  "write_json crud_table (C_object ''CreateItem'') (create_value sample_input) = Inr ''{\"name\":\"a\",\"quantity\":2}''"
  "write_json crud_table (C_object ''Item'') (item_value (item_of 1 (''a'', 2))) = Inr ''{\"id\":1,\"name\":\"a\",\"quantity\":2}''"
proof -
  have "show_int 1 = ''1''" "show_int 2 = ''2''" by code_simp+
  then have n: "append_integer False 64 1 out = Inr (out @ ''1'')" "append_integer False 32 2 out = Inr (out @ ''2'')" for out
    by (simp_all add: append_integer_def to_chars_int_def digits10_def)
  have q: "append_escaped_string out ''a'' = out @ ''\"a\"''" "append_escaped_string out ''id'' = out @ ''\"id\"''"
    "append_escaped_string out ''name'' = out @ ''\"name\"''" "append_escaped_string out ''quantity'' = out @ ''\"quantity\"''" for out
    by (simp_all add: append_escaped_string_eq) code_simp+
  note d = n q write_json_def append_value.simps append_object_fields.simps crud_classes crud_field_names
  show "write_json crud_table (C_object ''CreateItem'') (create_value sample_input) = Inr ''{\"name\":\"a\",\"quantity\":2}''"
    by (simp add: d create_value_def sample_input_def)
  show "write_json crud_table (C_object ''Item'') (item_value (item_of 1 (''a'', 2))) = Inr ''{\"id\":1,\"name\":\"a\",\"quantity\":2}''"
    by (simp add: d item_value_def item_of_def)
qed

lemma sample_ok: "store_ok empty_store" "st_next_id empty_store \<noteq> - 1" "create_valid sample_input"
  "store_ok sample_store" "store_items sample_store 1 = Some (''a'', 2)"
proof -
  show e: "store_ok empty_store" "st_next_id empty_store \<noteq> - 1" by (simp_all add: empty_store_def store_ok_def)
  have "valid_utf8 ''a''" by code_simp
  then show "create_valid sample_input" by (simp add: create_valid_def sample_input_def)
  show "store_ok sample_store" "store_items sample_store 1 = Some (''a'', 2)"
    using store_create_ok(1,3) [OF e, of sample_input] by (simp_all add: sample_store_def sample_input_def empty_store_def)
qed

theorem crud_item_served_witness:
  "crud_dispatch (make_request Get ''/items/1'' [] [] True None) sample_store =
     (Inr (default_response\<lparr>rm_body := ''{\"id\":1,\"name\":\"a\",\"quantity\":2}''\<rparr>), sample_store)"
proof -
  let ?r = "make_request Get ''/items/1'' [] [] True None"
  have r: "rv_path ?r = ''/items/'' @ ''1''" "rv_method ?r = Get" by code_simp+
  have i: "item_id ''1'' = Some 1" by (simp add: item_id_def is_digit_def dec_value_def digit_value_def)
  have "CHR ''/'' \<notin> set ''1''" by simp
  from crud_item_served [OF sample_ok(4) r(1) _ this, unfolded r(2)] show ?thesis
    by (simp add: i sample_ok(5) sample_texts(2) json_response_def clear_body_def r(2))
qed

theorem crud_create_readable_witness:
  "\<exists>r st'. crud_dispatch sample_post empty_store = (Inr r, st') \<and>
     rm_status r = Created201 \<and> rm_body r = ''{\"id\":1,\"name\":\"a\",\"quantity\":2}''"
proof -
  have p: "rv_path sample_post = ''/items''" "rv_method sample_post = Post"
    "find_header_value sample_post ''Content-Type'' = Inr (Some ''application/json'')"
    "rv_body sample_post = ''{\"name\":\"a\",\"quantity\":2}''" by code_simp+
  have t: "write_json crud_table (C_object ''CreateItem'') (create_value sample_input) = Inr (rv_body sample_post)"
    unfolding p(4) by (rule sample_texts)
  have l: "length (rv_body sample_post) \<le> maximum_input_bytes default_limits" by (simp add: p(4) default_limits_def)
  have n: "st_next_id empty_store = 1" "(ci_name sample_input, ci_quantity sample_input) = (''a'', 2)"
    by (simp_all add: empty_store_def sample_input_def)
  from crud_create_readable [OF sample_ok(1-3) p(1-3) t l, unfolded n sample_texts(2)] show ?thesis
    by (elim exE conjE) (intro exI conjI; simp)
qed

end
