(* ===== verification/Flash_Crud_Update.thy ===== *)
theory Flash_Crud_Update
  imports Flash_Crud_Props
begin

text \<open>
  The endpoints of the example application that change an item: \<open>replace_item\<close> and \<open>patch_item\<close>.
\<close>

section \<open>Updates\<close>

definition optional_value :: "('a \<Rightarrow> jvalue) \<Rightarrow> 'a option \<Rightarrow> jvalue" where
  "optional_value f x = (case x of None \<Rightarrow> V_null | Some y \<Rightarrow> V_some (f y))"

definition patch_value :: "patch_item \<Rightarrow> jvalue" where
  "patch_value p = V_object [optional_value V_string (pa_name p), optional_value (V_int \<circ> uint) (pa_quantity p)]"

lemma patch_input_value: "patch_input (patch_value p) = Some p"
  by (cases p) (auto simp: patch_value_def optional_value_def split: option.split)

text \<open>The endpoints that read an id and a body of a class.\<close>

definition update_class :: "decl_info \<Rightarrow> ctype" where
  "update_class d = C_object (if d = replace_item_decl then ''CreateItem'' else ''PatchItem'')"

lemma update_decl_parts:
  assumes "d \<in> {replace_item_decl, patch_item_decl}"
  shows "d_is_function d" "d_parameters d = [id_parameter, plain_parameter ''input'' (update_class d), store_parameter]"
    "d_return d = C_expected (C_object ''Item'') item_errors" "validate_endpoint_binding crud_table d"
    "parameter_source crud_table d 0 = Some Src_path" "parameter_source crud_table d 1 = Some Src_body"
    "parameter_source crud_table d 2 = Some Src_state"
    "wire_name d 0 = Some ''id''" "wire_name d 1 = Some ''input''" "wire_name d 2 = Some ''store''"
proof -
  have ne: "patch_item_decl \<noteq> replace_item_decl"
    by (simp add: patch_item_decl_def replace_item_decl_def plain_endpoint_def)
  show "d_is_function d" "d_return d = C_expected (C_object ''Item'') item_errors"
    using assms by (auto simp: replace_item_decl_def patch_item_decl_def plain_endpoint_def expected_item_type_def)
  show "d_parameters d = [id_parameter, plain_parameter ''input'' (update_class d), store_parameter]"
    using assms ne by (auto simp: update_class_def) (simp_all add: replace_item_decl_def patch_item_decl_def plain_endpoint_def)
  show "validate_endpoint_binding crud_table d" using assms crud_checks(1) by (auto simp: crud_api_def)
  have "parameter_source crud_shapes replace_item_decl 0 = Some Src_path" "parameter_source crud_shapes replace_item_decl 1 = Some Src_body"
    "parameter_source crud_shapes replace_item_decl 2 = Some Src_state" "parameter_source crud_shapes patch_item_decl 0 = Some Src_path"
    "parameter_source crud_shapes patch_item_decl 1 = Some Src_body" "parameter_source crud_shapes patch_item_decl 2 = Some Src_state"
    by code_simp+
  then show "parameter_source crud_table d 0 = Some Src_path" "parameter_source crud_table d 1 = Some Src_body"
    "parameter_source crud_table d 2 = Some Src_state"
    using assms unfolding crud_parameter_source by auto
  have "wire_name replace_item_decl 0 = Some ''id''" "wire_name replace_item_decl 1 = Some ''input''"
    "wire_name replace_item_decl 2 = Some ''store''" "wire_name patch_item_decl 0 = Some ''id''"
    "wire_name patch_item_decl 1 = Some ''input''" "wire_name patch_item_decl 2 = Some ''store''"
    by code_simp+
  then show "wire_name d 0 = Some ''id''" "wire_name d 1 = Some ''input''" "wire_name d 2 = Some ''store''"
    using assms by auto
qed

lemma invoke_update:
  assumes "d \<in> {replace_item_decl, patch_item_decl}"
    "bind_body crud_table (update_class d) ''input'' request = Some (Inr v)"
  shows "case item_id ds of
     Some i \<Rightarrow> invoke_endpoint crud_table em call d request (item_match ds) crud_states rid s =
       (case call d [B_value (V_int (uint i)), B_value v, B_state 0] s of
          (Inl e, s') \<Rightarrow> (Inl e, s')
        | (Inr r, s') \<Rightarrow> (adapt_result crud_table em (d_return d) r rid, s'))
   | None \<Rightarrow> \<exists>r. invoke_endpoint crud_table em call d request (item_match ds) crud_states rid s = (Inr r, s) \<and>
       rm_status r = Unprocessable_content422"
proof -
  note d = update_decl_parts [OF assms(1)]
  have par: "parameter_at d 0 = Some id_parameter" "parameter_at d 1 = Some (plain_parameter ''input'' (update_class d))"
    "parameter_at d 2 = Some store_parameter"
    by (simp_all add: parameter_at_def d)
  have three: "[0..<length (d_parameters d)] = [0, 1, 2]" by (simp add: d upt_rec)
  have st: "bind_parameter crud_table d 2 request (item_match ds) crud_states rid = Some (Inr (B_state 0))"
    by (rule bind_store [OF par(3) d(7,10)])
  have b: "bind_parameter crud_table d 1 request (item_match ds) crud_states rid = Some (Inr (B_value v))"
    using par(2) d(6,9) assms(2) by (simp add: bind_parameter_def plain_parameter_def)
  show ?thesis
  proof (cases "item_id ds")
    case None
    then obtain e where "bind_parameter crud_table d 0 request (item_match ds) crud_states rid = Some (Inl e)"
        "be_status e = Unprocessable_content422"
      using bind_item_id [OF par(1) d(5,8), where ds = ds and request = request and states = crud_states and rid = rid] by auto
    then show ?thesis using d(4) st b
      by (auto simp: invoke_endpoint_def bind_arguments_def three None binding_problem_def make_problem_response_def Let_def
          simp del: One_nat_def)
  next
    case (Some i)
    then have "bind_parameter crud_table d 0 request (item_match ds) crud_states rid = Some (Inr (B_value (V_int (uint i))))"
      using bind_item_id [OF par(1) d(5,8), where ds = ds and request = request and states = crud_states and rid = rid] by simp
    then show ?thesis using d(4) st b
      by (simp add: invoke_endpoint_def bind_arguments_def three Some del: One_nat_def)
  qed
qed

text \<open>The update a request asks for, when its body can be read.\<close>

definition update_read :: "request_view \<Rightarrow> (string \<times> 32 word \<Rightarrow> string \<times> 32 word) \<Rightarrow> bool" where
  "update_read request f \<longleftrightarrow>
     rv_method request = Put \<and> (\<exists>c. bind_body crud_table (C_object ''CreateItem'') ''input'' request = Some (Inr (create_value c)) \<and>
       f = (\<lambda>x. (ci_name c, ci_quantity c))) \<or>
     rv_method request = Patch \<and> (\<exists>p. bind_body crud_table (C_object ''PatchItem'') ''input'' request = Some (Inr (patch_value p)) \<and>
       f = patched p)"

text \<open>Both endpoints call one method of the store, which fails or replaces the value of the item by \<open>f\<close>.\<close>

definition update_does ::
    "decl_info \<Rightarrow> jvalue \<Rightarrow> (string \<times> 32 word \<Rightarrow> string \<times> 32 word) \<Rightarrow> item_store \<Rightarrow> bool" where
  "update_does d v f st \<longleftrightarrow> (\<forall>i. let result = crud_call d [B_value (V_int (uint i)), B_value v, B_state 0] st in
     case store_items st i of
       None \<Rightarrow> result = (Inr (R_error 0), st)
     | Some x \<Rightarrow> \<exists>st'. result = (Inr (R_ok (R_value (item_value (item_of i (f x))))), st') \<and> store_ok st' \<and>
         store_items st' = (store_items st)(i \<mapsto> f x))"

lemma update_does_calls:
  assumes "store_ok st"
  shows "update_does replace_item_decl (create_value c) (\<lambda>x. (ci_name c, ci_quantity c)) st"
    "update_does patch_item_decl (patch_value p) (patched p) st"
proof -
  have calls: "crud_call replace_item_decl = replace_item" "crud_call patch_item_decl = patch_item_handler"
    by (simp_all add: crud_call_def get_item_decl_def create_item_decl_def replace_item_decl_def patch_item_decl_def plain_endpoint_def)
  have c: "create_input (create_value c) = Some c" by (simp add: create_value_def)
  note d = update_does_def calls c patch_input_value expected_item_def Let_def
  show "update_does replace_item_decl (create_value c) (\<lambda>x. (ci_name c, ci_quantity c)) st"
    unfolding update_does_def
  proof
    show "let result = crud_call replace_item_decl [B_value (V_int (uint i)), B_value (create_value c), B_state 0] st in
       case store_items st i of None \<Rightarrow> result = (Inr (R_error 0), st)
       | Some x \<Rightarrow> \<exists>st'. result = (Inr (R_ok (R_value (item_value (item_of i (ci_name c, ci_quantity c))))), st') \<and> store_ok st' \<and>
           store_items st' = (store_items st)(i \<mapsto> (ci_name c, ci_quantity c))" for i
      using items.missing [OF assms, of i c p] items.replace_spec [OF assms, of i _ c]
      by (cases "store_replace i c st") (auto simp: d split: option.split)
  qed
  show "update_does patch_item_decl (patch_value p) (patched p) st"
    unfolding update_does_def
  proof
    show "let result = crud_call patch_item_decl [B_value (V_int (uint i)), B_value (patch_value p), B_state 0] st in
       case store_items st i of None \<Rightarrow> result = (Inr (R_error 0), st)
       | Some x \<Rightarrow> \<exists>st'. result = (Inr (R_ok (R_value (item_value (item_of i (patched p x))))), st') \<and> store_ok st' \<and>
           store_items st' = (store_items st)(i \<mapsto> patched p x)" for i
      using items.missing [OF assms, of i c p] items.patch_spec [OF assms, of i _ p]
      by (cases "store_patch i p st") (auto simp: d split: option.split)
  qed
qed

lemma update_call:
  assumes "store_ok st" "update_read request f"
  obtains d v where "item_endpoint (rv_method request) = Some d" "d \<in> {replace_item_decl, patch_item_decl}"
    "bind_body crud_table (update_class d) ''input'' request = Some (Inr v)" "update_does d v f st"
proof -
  have ne: "patch_item_decl \<noteq> replace_item_decl"
    by (simp add: patch_item_decl_def replace_item_decl_def plain_endpoint_def)
  consider c where "rv_method request = Put" "f = (\<lambda>x. (ci_name c, ci_quantity c))"
      "bind_body crud_table (C_object ''CreateItem'') ''input'' request = Some (Inr (create_value c))"
    | p where "rv_method request = Patch" "f = patched p"
      "bind_body crud_table (C_object ''PatchItem'') ''input'' request = Some (Inr (patch_value p))"
    using assms(2) by (auto simp: update_read_def)
  then show thesis
  proof cases
    case (1 c)
    then show thesis using update_does_calls(1) [OF assms(1), of c]
      by (intro that [of replace_item_decl "create_value c"]) (simp_all add: item_endpoint_def update_class_def)
  next
    case (2 p)
    then show thesis using update_does_calls(2) [OF assms(1), of p] ne
      by (intro that [of patch_item_decl "patch_value p"]) (simp_all add: item_endpoint_def update_class_def)
  qed
qed

text \<open>C24. \<open>PUT\<close> and \<open>PATCH\<close> of \<open>/items/{id}\<close> with a body that can be read: a segment that is no id gets a 422, the id of
  no item a 404, both without a change of the store; otherwise the item is replaced, or changed in the
  members that the patch has, nothing else in the store changes, and the answer is the JSON of the new item.\<close>

theorem crud_item_updated:
  fixes request :: request_view
  assumes "store_ok st" "rv_path request = ''/items/'' @ ds" "ds \<noteq> []" "CHR ''/'' \<notin> set ds" "update_read request f"
  shows "case item_id ds of
      None \<Rightarrow> \<exists>r. crud_dispatch request st = (Inr r, st) \<and> rm_status r = Unprocessable_content422
    | Some i \<Rightarrow>
        (case store_items st i of
           None \<Rightarrow> \<exists>r. crud_dispatch request st = (Inr r, st) \<and> rm_status r = Not_found404
         | Some x \<Rightarrow> \<exists>st'. crud_dispatch request st =
             (json_response crud_table (C_object ''Item'') (item_value (item_of i (f x))) default_response, st') \<and>
             store_ok st' \<and> store_items st' = (store_items st)(i \<mapsto> f x))"
proof -
  obtain d v where d: "item_endpoint (rv_method request) = Some d" "d \<in> {replace_item_decl, patch_item_decl}"
      "bind_body crud_table (update_class d) ''input'' request = Some (Inr v)"
    and call: "update_does d v f st"
    by (rule update_call [OF assms(1,5)])
  have "map_prod (map_sum id (clear_body request)) id z = z" for z :: "response_message throwing \<times> item_store"
    using assms(5) by (cases z; cases "fst z") (auto simp: clear_body_def update_read_def)
  then have D: "crud_dispatch request st =
      invoke_endpoint crud_table crud_errors crud_call d request (item_match ds) crud_states [] st"
    unfolding dispatch_def using crud_dispatch_item [OF assms(2-4) d(1), of crud_table crud_errors crud_call "[]" st] by simp
  note inv = invoke_update [OF d(2,3), where ds = ds and em = crud_errors and call = crud_call and rid = "[]" and s = st]
  show ?thesis
  proof (cases "item_id ds")
    case None
    then show ?thesis using inv by (simp add: D)
  next
    case (Some i)
    then show ?thesis using inv spec [OF call [unfolded update_does_def], of i] adapt_not_found [of "C_object ''Item''" "[]"] update_decl_parts(3) [OF d(2)]
      by (cases "store_items st i") (auto simp: D adapt_found Let_def)
  qed
qed

definition sample_put :: request_view where
  "sample_put = make_request Put ''/items/1'' [\<lparr>hv_name = ''content-type'', hv_value = ''application/json''\<rparr>]
     ''{\"name\":\"a\",\"quantity\":2}'' True None"

theorem crud_item_updated_witness:
  "\<exists>st'. crud_dispatch sample_put sample_store = (Inr (default_response\<lparr>rm_body := ''{\"id\":1,\"name\":\"a\",\"quantity\":2}''\<rparr>), st') \<and>
     store_items st' = (store_items sample_store)(1 \<mapsto> (''a'', 2))"
proof -
  have p: "rv_path sample_put = ''/items/'' @ ''1''" "rv_method sample_put = Put"
    "find_header_value sample_put ''Content-Type'' = Inr (Some ''application/json'')"
    "rv_body sample_put = ''{\"name\":\"a\",\"quantity\":2}''" by code_simp+
  have "write_json crud_table (C_object ''CreateItem'') (create_value sample_input) = Inr (rv_body sample_put)"
    unfolding p(4) by (rule sample_texts)
  then have "bind_body crud_table (C_object ''CreateItem'') ''input'' sample_put = Some (Inr (create_value sample_input))"
    by (intro bind_create_body sample_ok p) (simp_all add: p(4) default_limits_def)
  then have u: "update_read sample_put (\<lambda>x. (''a'', 2))"
    by (auto simp: update_read_def p(2) sample_input_def intro!: exI [of _ "\<lparr>ci_name = ''a'', ci_quantity = 2\<rparr>"])
  have i: "item_id ''1'' = Some 1" by (simp add: item_id_def is_digit_def dec_value_def digit_value_def)
  have "CHR ''/'' \<notin> set ''1''" by simp
  from crud_item_updated [OF sample_ok(4) p(1) _ this u] show ?thesis
    by (simp add: i sample_ok(5) sample_texts(2) json_response_def) blast
qed

end
