(* ===== verification/Flash_Crud_History.thy ===== *)
theory Flash_Crud_History
  imports Flash_Crud
begin

text \<open>
  The example application over histories of requests: requests reach the store only through the code of the
  endpoints, so what each method of the store keeps is kept for ever.
\<close>

section \<open>What requests do to the store\<close>

text \<open>Only the code of an endpoint changes the state of the application.\<close>

lemma invoke_state:
  "snd (invoke_endpoint T em call f request m states rid s) = s \<or>
   (\<exists>args. snd (invoke_endpoint T em call f request m states rid s) = snd (call f args s))"
  unfolding invoke_endpoint_def
  by (auto split: option.split prod.split sum.split) (metis snd_conv)+

lemma dispatch_state:
  "snd (dispatch T em call ns request states s) = s \<or>
   (\<exists>f args. f \<in> set (endpoints ns) \<and> snd (dispatch T em call ns request states s) = snd (call f args s))"
proof -
  have e: "snd (dispatch_endpoint T em call fs k j request m states rid s) = s \<or>
      (\<exists>f args. f \<in> set fs \<and> snd (dispatch_endpoint T em call fs k j request m states rid s) = snd (call f args s))"
    for fs k j m rid
  proof (cases "k \<le> j \<and> j < k + length fs")
    case True
    then have "fs ! (j - k) \<in> set fs" by auto
    then show ?thesis using True invoke_state [of T em call "fs ! (j - k)" request m states rid s]
      unfolding dispatch_endpoint_at by auto
  next
    case False
    then show ?thesis unfolding dispatch_endpoint_at by auto
  qed
  show ?thesis
  proof (cases "match_api ns (rv_method request) (rv_path request)")
    case (Some x)
    then show ?thesis using e [of "endpoints ns" 0 "am_endpoint_index x" "am_route x" "[]"]
      by (cases "am_outcome x") (auto simp: dispatch_def dispatch_with_state_def split_beta)
  qed (simp add: dispatch_def dispatch_with_state_def)
qed

text \<open>What the code of an endpoint may do: the store stays well formed, an id that is new is the next one.\<close>

definition store_grows :: "item_store \<Rightarrow> item_store \<Rightarrow> bool" where
  "store_grows st st' \<longleftrightarrow> store_ok st' \<and>
     (st_next_id st' = st_next_id st \<and> dom (store_items st') \<subseteq> dom (store_items st) \<or>
      st_next_id st' = st_next_id st + 1 \<and> dom (store_items st') = insert (st_next_id st) (dom (store_items st)))"

lemma store_grows_refl: "store_ok st \<Longrightarrow> store_grows st st"
  by (simp add: store_grows_def)

lemma store_grows_calls:
  assumes "store_ok st" "st_next_id st \<noteq> - 1"
  shows "store_grows st (snd (store_create c st))" "store_grows st (snd (store_replace i c st))"
    "store_grows st (snd (store_patch i p st))" "store_grows st (snd (store_erase i st))"
  using items.create_spec [OF assms, of c] items.missing [OF assms(1), of i c p] items.replace_spec [OF assms(1), of i _ c]
    items.patch_spec [OF assms(1), of i _ p] items.erase_spec [OF assms(1), of i] store_grows_refl [OF assms(1)]
  by (cases "store_items st i"; auto simp: store_grows_def)+

lemma crud_call_grows:
  assumes "store_ok st" "st_next_id st \<noteq> - 1"
  shows "store_grows st (snd (crud_call f args st))"
proof -
  note g = store_grows_refl [OF assms(1)] store_grows_calls [OF assms]
  have "store_grows st (snd (get_item args st))" "store_grows st (snd (delete_item args st))"
    by (cases "(args, st)" rule: get_item.cases; simp add: g) (cases "(args, st)" rule: delete_item.cases; simp add: g)
  moreover have "store_grows st (snd (create_item_handler args st))"
    by (cases "(args, st)" rule: create_item_handler.cases) (auto simp: g split_beta split: option.split)
  moreover have "store_grows st (snd (replace_item args st))"
    by (cases "(args, st)" rule: replace_item.cases) (auto simp: g split: option.split)
  moreover have "store_grows st (snd (patch_item_handler args st))"
    by (cases "(args, st)" rule: patch_item_handler.cases) (auto simp: g split: option.split)
  ultimately show ?thesis using g(1) by (simp add: crud_call_def)
qed


lemma dispatch_grows:
  assumes "store_ok st" "st_next_id st \<noteq> - 1"
  shows "store_grows st (snd (crud_dispatch request st))"
  using dispatch_state [of crud_table crud_errors crud_call crud_api request crud_states st]
    crud_call_grows [OF assms] store_grows_refl [OF assms(1)] by auto

text \<open>The store after a sequence of requests.\<close>

fun crud_after :: "request_view list \<Rightarrow> item_store" where
  "crud_after [] = empty_store"
| "crud_after (request # requests) = snd (crud_dispatch request (crud_after requests))"

lemma crud_after_ok:
  "length requests < 2 ^ 64 - 1 \<Longrightarrow> store_ok (crud_after requests) \<and> unat (st_next_id (crud_after requests)) \<le> length requests + 1"
proof (induction requests)
  case Nil
  then show ?case by (simp add: store_ok_def empty_store_def)
next
  case (Cons request requests)
  let ?st = "crud_after requests"
  have ih: "store_ok ?st" "unat (st_next_id ?st) \<le> length requests + 1" using Cons by simp_all
  have m: "unat (- 1 :: 64 word) = 2 ^ 64 - 1" by (simp add: unsigned_minus_1_eq_mask mask_eq_exp_minus_1)
  then have ne: "st_next_id ?st \<noteq> - 1" using ih(2) Cons.prems by auto
  have "unat (st_next_id ?st + 1) \<le> length (request # requests) + 1"
    using ih(2) unat_word_ariths(1) [of "st_next_id ?st" 1] by (simp add: mod_less_eq_dividend le_trans)
  then show ?case using dispatch_grows [OF ih(1) ne, of request] ih(2)
    by (auto simp: store_grows_def simp del: One_nat_def)
qed

lemma crud_after_grows:
  assumes "length requests < 2 ^ 64 - 2"
  shows "store_grows (crud_after requests) (crud_after (request # requests))"
    "st_next_id (crud_after requests) \<le> st_next_id (crud_after (request # requests))"
proof -
  let ?st = "crud_after requests"
  have ok: "store_ok ?st" "unat (st_next_id ?st) \<le> length requests + 1" using crud_after_ok [of requests] assms by simp_all
  have "unat (- 1 :: 64 word) = 2 ^ 64 - 1" by (simp add: unsigned_minus_1_eq_mask mask_eq_exp_minus_1)
  then have ne: "st_next_id ?st \<noteq> - 1" using ok(2) assms by auto
  show g: "store_grows ?st (crud_after (request # requests))" using dispatch_grows [OF ok(1) ne] by simp
  show "st_next_id ?st \<le> st_next_id (crud_after (request # requests))"
    using g less_add_one_word(1) [OF ne] by (auto simp: store_grows_def)
qed

text \<open>C25. Over any history of requests, of any method, path and body, the service keeps its store consistent, up to
  the number of requests for which 64 bits have ids: the ids of the items are distinct and below the next
  id, which never goes back; and whatever comes later, an id that was given out before is in the store then
  only if it was there all along, so that the id of an erased item is never given to another one.\<close>

theorem crud_history_safe:
  assumes "length (later @ requests) < 2 ^ 64 - 1"
  shows "store_ok (crud_after (later @ requests)) \<and>
    st_next_id (crud_after requests) \<le> st_next_id (crud_after (later @ requests)) \<and>
    dom (store_items (crud_after (later @ requests))) \<subseteq>
      dom (store_items (crud_after requests)) \<union> {i. st_next_id (crud_after requests) \<le> i}"
  using assms
proof (induction later)
  case Nil
  then show ?case using crud_after_ok [of requests] by simp
next
  case (Cons request later)
  let ?all = "later @ requests"
  have l: "length ?all < 2 ^ 64 - 2" using Cons.prems by simp
  have g: "store_grows (crud_after ?all) (crud_after (request # ?all))"
    "st_next_id (crud_after ?all) \<le> st_next_id (crud_after (request # ?all))"
    using crud_after_grows [OF l, of request] by blast+
  have "dom (store_items (crud_after (request # ?all))) \<subseteq> insert (st_next_id (crud_after ?all)) (dom (store_items (crud_after ?all)))"
    using g(1) by (auto simp: store_grows_def)
  then show ?case using Cons g by (auto simp: store_grows_def simp del: crud_after.simps)
qed

theorem crud_history_safe_witness:
  "store_ok (crud_after [make_request Delete ''/items/1'' [] [] True None, make_request Get ''/docs'' [] [] True None])"
  using crud_history_safe [of "[make_request Delete ''/items/1'' [] [] True None]" "[make_request Get ''/docs'' [] [] True None]"]
  by (simp del: crud_after.simps)

end
