(* ===== verification/Spec2Isabelle.thy ===== *)
theory Spec2Isabelle
  imports Flash_Routing Flash_Binding_Request Flash_Json_Roundtrip Flash_Bind_Props Flash_Middleware_Props
    Flash_Openapi_Props Flash_Dispatch_Status Flash_Server_Props Flash_Serve Flash_Store Flash_Crud_Update Flash_Crud_History
begin

text \<open>
  A verification library for Flash, a C++26 framework for HTTP services whose routing, binding, JSON and
  OpenAPI code is generated at compile time from the declarations of a namespace.

  \<^bold>\<open>The program.\<close> A namespace of annotated functions is reflected on (\<open>meta/reflection.hpp\<close>). Its routes are
  parsed and checked (\<open>routing/route.hpp\<close>, \<open>routing/matcher.hpp\<close>); its parameters are given a source
  (\<open>binding/meta.hpp\<close>). The server (\<open>server.hpp\<close>) accepts connections, runs one session per connection, and
  hands each request to a handler. The handlers of \<open>dispatch.hpp\<close> first serve the documentation
  (\<open>openapi/docs.hpp\<close>), then match the request, bind the arguments (\<open>binding/bind.hpp\<close>, \<open>scalar.hpp\<close>,
  \<open>request.hpp\<close>, and \<open>json/read.hpp\<close> for bodies), call the function and turn its result, a mapped domain error
  (\<open>error_mapping.hpp\<close>) or a failure of binding into a response (\<open>json/write.hpp\<close>, \<open>problem.hpp\<close>). Middleware
  (\<open>middleware.hpp\<close>) wraps this chain. From the same declarations \<open>openapi/schema.hpp\<close> and
  \<open>openapi/document.hpp\<close> generate the document that describes the service.

  \<^bold>\<open>The model.\<close> A class is a record, an enumeration a datatype, a reflected declaration a value of
  \<open>decl_info\<close>, a type a \<open>ctype\<close>, and a class type the name of an entry in a table, since classes may contain
  themselves. A C++ exception is the left side of a sum, a failed \<open>static_assert\<close> is \<open>None\<close>, \<open>False\<close> or the
  exception \<open>not_compiled\<close>. Appending to an \<open>output\<close> string is a function that returns it. Machine integers
  that wrap are words (shape hashes, the Allow mask, request sequence numbers, the counter of sessions,
  item ids); parsed integers are \<open>int\<close> with their range checked.

  \<^item> \<open>Flash_Prelude\<close>: exceptions, \<open>string_view\<close> operations, the interfaces \<open>separator_scan\<close> (a loop over the
    pieces between separators) and \<open>unique_lookup\<close> (a lookup that refuses duplicates).
    \<open>Flash_Machine\<close>: the interfaces \<open>winding_down\<close> and \<open>simulation\<close> of step relations.
  \<^item> \<open>Flash_Annotations\<close>, \<open>Flash_Reflection\<close>: \<open>detail/fixed_string.hpp\<close>, \<open>annotations.hpp\<close>,
    \<open>meta/reflection.hpp\<close>. \<open>Flash_Http\<close>: \<open>request.hpp\<close>, \<open>response.hpp\<close>, with the interface
    \<open>header_container\<close>. \<open>Flash_Charconv\<close>, \<open>Flash_Float\<close>: the parts of \<open><charconv>\<close> and of IEEE 754 the code uses.
  \<^item> \<open>Flash_Route\<close>, \<open>Flash_Route_Props\<close>, \<open>Flash_Route_Match\<close>: \<open>route.hpp\<close>, its grammar, matching as the
    inverse of filling in. \<open>Flash_Matcher\<close>, \<open>Flash_Routing\<close>: \<open>matcher.hpp\<close>; the scan computes the best
    eligible endpoint (interface \<open>selection_order\<close>), independent of the order of the declarations.
  \<^item> \<open>Flash_Scalar\<close>, \<open>Flash_Binding_Request\<close>, \<open>Flash_Binding_Meta\<close>, \<open>Flash_Binding_Props\<close>, \<open>Flash_Bind\<close>,
    \<open>Flash_Bind_Props\<close>: \<open>binding/\<close>; percent decoding and scalars against their specifications, each
    placeholder bound once, the classification of failures.
  \<^item> \<open>Flash_Utf8\<close>, \<open>Flash_Json_Schema\<close>, \<open>Flash_Json_Cursor\<close>, \<open>Flash_Json_Read\<close>, \<open>Flash_Json_Write\<close>: \<open>json/\<close>.
    \<open>Flash_Json_Lex\<close> and \<open>Flash_Json_Reads\<close> describe the cursor and the readers, \<open>Flash_Json_Typed\<close> and
    \<open>Flash_Json_Total\<close> prove that reading ends, \<open>Flash_Json_Text\<close> and \<open>Flash_Json_Roundtrip\<close> that it
    inverts writing, \<open>Flash_Json_Props\<close> relates the pieces.
  \<^item> \<open>Flash_Problem\<close>: \<open>problem.hpp\<close>, \<open>src/runtime/errors.cpp\<close>. \<open>Flash_Error_Mapping\<close>, \<open>Flash_Context\<close>,
    \<open>Flash_Raw\<close>: \<open>error_mapping.hpp\<close>, \<open>context.hpp\<close>, \<open>raw.hpp\<close>.
  \<^item> \<open>Flash_Middleware\<close>, \<open>Flash_Middleware_Props\<close>: \<open>middleware.hpp\<close>; interfaces \<open>sound_layer\<close> and
    \<open>guarding_layer\<close>, proved for the three layers of the library.
  \<^item> \<open>Flash_Openapi_Schema\<close>, \<open>Flash_Openapi_Document\<close>, \<open>Flash_Docs\<close>: \<open>openapi/\<close>. \<open>Flash_Json_Tree\<close>,
    \<open>Flash_Openapi_Tree\<close>, \<open>Flash_Openapi_Operations\<close> and \<open>Flash_Openapi_Refine\<close> prove that the text is the
    rendering of a tree (interface \<open>comma_loop\<close> for the loops that write separators).
    \<open>Flash_Openapi_Pointer\<close> resolves a \<open>$ref\<close> the way a reader of the document does, as a JSON pointer
    (RFC 6901) in a percent-encoded fragment, and \<open>Flash_Openapi_Props\<close> proves that every reference finds
    the component it is meant for; \<open>Flash_Openapi_Samples\<close> has an example.
  \<^item> \<open>Flash_Dispatch\<close>, \<open>Flash_Dispatch_Props\<close>, \<open>Flash_Dispatch_Status\<close>: \<open>dispatch.hpp\<close>; the response of every
    request, and that its status is documented.
  \<^item> \<open>Flash_Session\<close>, \<open>Flash_Session_Props\<close>: the coroutine \<open>raw_session\<close> of \<open>server.hpp\<close> and \<open>config.hpp\<close>. It
    follows an abstract protocol of connections, answers each request, and ends when told to.
  \<^item> \<open>Flash_Server\<close>, \<open>Flash_Server_Inv\<close>, \<open>Flash_Server_Props\<close>: \<open>raw_server\<close> as a state machine, its
    invariants, and that a shutdown ends.
  \<^item> \<open>Flash_Serve\<close>: the handlers as the server calls them and \<open>serve\<close>; runs of a server that answer a
    request. The property below joins the parts: what routing decides is what the connection carries.
  \<^item> \<open>Flash_Store\<close>, \<open>Flash_Crud\<close>, \<open>Flash_Crud_Props\<close>, \<open>Flash_Crud_Update\<close>, \<open>Flash_Crud_History\<close>: the application of
    \<open>examples/crud\<close>, with its store (interface \<open>item_repository\<close>), which behaves as a map, its endpoints as
    reflected declarations, what a client sees through routing, binding, JSON and the error mapping, and
    what holds over all histories of requests.

  \<^bold>\<open>Bounds.\<close> The recursion of the JSON reader is limited by levels and turns computed from the limits and the
  length of the input; \<open>read_json_total\<close> shows that they are never used up, so \<open>Out_of_fuel\<close> does not occur.
  The collection of component classes takes a number of levels; with as many as there are classes it ends
  (\<open>openapi_references_resolve\<close>). \<open>shutdown_bound\<close> bounds the steps of a shutdown. Item ids are 64 bit
  words; what is proved of the example holds up to the number of items they can name.

  \<^bold>\<open>Specifications.\<close> What the code is compared with is written down apart from it: the grammar of percent
  escapes has a table of the hexadecimal digits (\<open>hex_digit_value\<close>), routes, numbers and UTF-8 have their
  grammars, the document has its tree. The properties of documents ask for component names that are
  plain text (the tree) and also free of slash, tilde and percent sign and other than \<open>Problem\<close> (the
  references); default names have the first two by \<open>default_name_safe\<close>, and \<open>slash_name_dangles\<close> and
  \<open>component_keys_unique\<close> show what happens otherwise. They also take the types of parameters outside
  the body to have a codec (\<open>scalar_parameters\<close>, \<open>FLASH-E300\<close>) and no field or parameter to be \<open>void\<close>.

  \<^bold>\<open>Parameters.\<close> The code of the application's handlers (\<open>call\<close>, \<open>handler\<close>), the mapping of its errors
  (\<open>em\<close>), the clock, and what Boost answers: the parser of HTTP messages, the sockets, the timer and the
  scheduler are the environment of the state machine, free but for documented limits (a body within
  \<open>body_limit\<close>; an accept is aborted only after a cancel). Handlers of one session run between two steps;
  races of application code inside a handler are outside the model. A handler always returns or throws:
  one that blocks its thread for ever, which also blocks a shutdown, is outside the model. Of Beast's
  \<open>prepare_payload\<close> only the exception for a body under a status that has none is kept
  (\<open>no_content_with_body_unanswered\<close>); threads are created without failure.

  \<^bold>\<open>Not modelled.\<close> The bytes on the wire (Boost.Beast), \<open>task.hpp\<close> (an alias), the umbrella header, the
  sources under \<open>tests\<close>, the benchmarks and the other examples, which are programs that call the library;
  memory: allocation failures and the lifetimes of borrowed \<open>string_view\<close>s other than the check that an
  escaped input does not bind to one.
\<close>

section \<open>From the routes to the wire\<close>

definition reply_of :: "request_view \<Rightarrow> response_message throwing \<times> 'a \<Rightarrow> response_message" where
  "reply_of request result = (case fst result of Inl e \<Rightarrow> handler_problem request | Inr r \<Rightarrow> r)"

text \<open>C4. On every connection of a running server, whatever the interleaving of its sessions, each request that is
  answered and not for the documentation gets on the wire what routing decides: a 404 when its path is on no route; a 405,
  or a 204 for \<open>OPTIONS\<close>, that lists exactly the methods of the path when no endpoint takes its method;
  otherwise status and body of the response of an endpoint that no other one beats, with a 500 if it threw.\<close>

theorem wire_routing:
  fixes request :: request_view and api :: compiled_api
  assumes "compile_api ns = Some api" "registry_ok states" "undocumented_path mode ns request"
    "server_reachable (reflected_call mode doc T em call ns states) config sv" "c \<in> set (sv_controls sv)"
    "(Some request, w) \<in> set (ss_exchanges c)"
  defines "q \<equiv> rv_method request" and "on_path \<equiv> filter (path_matches (rv_path request)) api"
  shows "if on_path = [] then wr_status w = 404
    else if (q = Options \<and> Options \<notin> fst ` set on_path) \<or> \<not> (\<exists>e \<in> set on_path. eligible q (rv_path request) e)
    then (''Allow'', allowed_text (rv_path request) api) \<in> set (wr_fields w) \<and>
      wr_status w = (if q = Options then 204 else 405)
    else \<exists>d a. best_endpoint (endpoints ns) request d \<and>
      (let reply = reply_of request (served_by T em call request states [] a d)
       in wr_status w = status_code (rm_status reply) \<and> wr_body w = rm_body reply)"
proof -
  let ?D = "\<lambda>a. dispatch_with_state T em call ns request states [] a"
  obtain a version keep where w: "to_beast_response (reply_of request (?D a)) version keep = Inr w"
    using server_exchange_answer [OF assms(4-6)]
    by (auto simp: answer_of_def invoke_reflected reflected_dispatches [OF assms(3)] reply_of_def)
  have codes: "status_code No_content204 = 204" "status_code Method_not_allowed405 = 405"
    "status_code (rm_status (not_found_response request [])) = 404"
    by (simp_all add: not_found_response_def dispatch_problem_def make_problem_response_def)
  note cases = dispatch_cases [OF assms(1,2), of request T em call "[]" a, folded q_def on_path_def]
  consider (none) "on_path = []"
    | (refused) "on_path \<noteq> []" "(q = Options \<and> Options \<notin> fst ` set on_path) \<or> \<not> (\<exists>e \<in> set on_path. eligible q (rv_path request) e)"
    | (found) "on_path \<noteq> []" "\<not> ((q = Options \<and> Options \<notin> fst ` set on_path) \<or> \<not> (\<exists>e \<in> set on_path. eligible q (rv_path request) e))"
    by blast
  then show ?thesis
  proof cases
    case none
    with cases have "?D a = (Inr (not_found_response request []), a)" by (simp only: if_True)
    then show ?thesis using none by (simp add: wire_parts [OF w] reply_of_def codes)
  next
    case refused
    with cases obtain r where r: "?D a = (Inr r, a)" "header_map r ''Allow'' = Some (allowed_text (rv_path request) api)"
      "if q = Options then rm_status r = No_content204 \<and> rm_body r = [] else rm_status r = Method_not_allowed405"
      by (simp only: if_True if_False) blast
    then show ?thesis unfolding if_not_P [OF refused(1)] if_P [OF refused(2)]
      using wire_parts [OF w] by (auto simp: reply_of_def codes split: if_splits)
  next
    case found
    with cases obtain d where d: "best_endpoint (endpoints ns) request d"
        "?D a = served_by T em call request states [] a d"
      by (simp only: if_False) blast
    have "let reply = reply_of request (served_by T em call request states [] a d)
       in wr_status w = status_code (rm_status reply) \<and> wr_body w = rm_body reply"
      by (simp add: wire_parts [OF w] d(2) Let_def)
    then show ?thesis unfolding if_not_P [OF found(1)] if_not_P [OF found(2)] using d(1) by blast
  qed
qed

theorem wire_routing_witness:
  "\<exists>w. wr_status w = 405 \<and> (''Allow'', ''GET, HEAD, POST, OPTIONS'') \<in> set (wr_fields w) \<and>
     (\<exists>sv c. server_reachable (reflected_call Disabled (Inr []) (\<lambda>_. None) (\<lambda>_. None) sample_call sample_namespace [])
          (default_config 4) sv \<and> c \<in> set (sv_controls sv) \<and>
        (Some (make_request Delete ''/a/new'' [] [] True (Some 0)), w) \<in> set (ss_exchanges c))"
proof -
  let ?h = "reflected_call Disabled (Inr []) (\<lambda>_. None) (\<lambda>_. None) sample_call sample_namespace []"
  let ?head = "\<lparr>mh_verb = Verb_delete, mh_target = ''/a/new'', mh_version = 11, mh_fields = [], mh_keep_alive = True\<rparr>"
  let ?r = "make_request Delete ''/a/new'' [] [] True (Some 0)"
  have r: "rv_method ?r = Delete" "rv_path ?r = ''/a/new''" by code_simp+
  have f: "filter (path_matches ''/a/new'') sample_api = sample_api" unfolding sample_api_eq by code_simp
  have ne: "sample_api \<noteq> []" and el: "\<not> (\<exists>e \<in> set sample_api. eligible Delete ''/a/new'' e)"
    by (simp_all add: sample_api_eq eligible_def)
  have a: "allowed_text ''/a/new'' sample_api = ''GET, HEAD, POST, OPTIONS''"
    unfolding allow_header_text [of sample_api Delete "''/a/new''", symmetric] sample_api_eq by code_simp
  have ok: "registry_ok []" by code_simp
  have u: "undocumented_path Disabled sample_namespace ?r" by (simp add: undocumented_path_def)
  have "rm_status (answer_of ?h ?r ()) = Method_not_allowed405"
    using dispatch_cases [OF sample_compiled ok, of ?r "\<lambda>_. None" "\<lambda>_. None" sample_call "[]" "()"] ne el
    unfolding r f by (auto simp: answer_of_def invoke_reflected reflected_dispatches [OF u])
  then obtain w where w: "to_beast_response (answer_of ?h ?r ()) 11 True = Inr w"
    using to_beast_response_sent by (metis status.distinct)
  obtain sv c where s: "server_reachable ?h (default_config 4) sv" "c \<in> set (sv_controls sv)"
      "(Some ?r, w) \<in> set (ss_exchanges c)"
    using server_exchange [of ?head Delete "default_config 4" "[]" ?h "()" w] w
    by (auto simp: to_flash_method_def default_config_def)
  from wire_routing [OF sample_compiled ok u s] have "wr_status w = 405 \<and> (''Allow'', ''GET, HEAD, POST, OPTIONS'') \<in> set (wr_fields w)"
    unfolding r f a using ne el by simp
  then show ?thesis using s by blast
qed

end
